(* ===== verification/Prelude.thy ===== *)
theory Prelude
  imports Main "HOL-Library.Signed_Division"
begin

section \<open>Prelude: outcomes of Go code, and the generic facts the components share\<close>

text \<open>
  A Go function of the oracle ends in one of these ways: it returns its results, it returns a
  non-nil \<open>error\<close>, it panics (nothing in the oracle recovers, so the process dies), it calls
  \<open>log.Fatal\<close>, it exhausts the goroutine stack, or it never returns. A function that can only
  return is a plain HOL function; every other one has the type \<open>'a go\<close> below, in which the
  left summand says how it failed. Errors are values: \<open>Wrap s e\<close> is
  \<open>fmt.Errorf("s: %w", e)\<close> and \<open>errors_Is\<close> is the standard library's walk along the wrapped
  chain.

  Go's \<open>int\<close> (64 bits) is the HOL type \<open>int\<close> with Go's truncated division (\<open>sdiv\<close>, \<open>smod\<close> of
  HOL-Library.Signed\_Division); where a value can leave the 64-bit range the model says so at
  that place. \<open>uint64\<close> values are 64-bit words.
\<close>

subsection \<open>Errors\<close>

datatype goerr =
    NotFoundError            \<comment> \<open>the sentinel of beaconclient\<close>
  | EthNotFound              \<comment> \<open>the sentinel \<^verbatim>\<open>ethereum.NotFound\<close> of go-ethereum\<close>
  | Msg string               \<comment> \<open>an error made by the oracle or by a library\<close>
  | Wrap string goerr        \<comment> \<open>fmt.Errorf with the verb %w\<close>

fun errors_Is :: "goerr \<Rightarrow> goerr \<Rightarrow> bool" where
  "errors_Is (Wrap s e) target = (Wrap s e = target \<or> errors_Is e target)"
| "errors_Is e target = (e = target)"

datatype failure =
    Err goerr
  | Panic string
  | Fatal string
  | StackOverflow
  | Hang

type_synonym 'a go = "failure + 'a"

subsection \<open>Sequencing\<close>

definition bind :: "'a go \<Rightarrow> ('a \<Rightarrow> 'b go) \<Rightarrow> 'b go" where
  "bind m f = (case m of Inl e \<Rightarrow> Inl e | Inr a \<Rightarrow> f a)"

text \<open>\<open>if err != nil { return nil, fmt.Errorf("s: %w", err) }\<close>\<close>

definition wrap_err :: "string \<Rightarrow> 'a go \<Rightarrow> 'a go" where
  "wrap_err s m = (case m of Inl (Err e) \<Rightarrow> Inl (Err (Wrap s e)) | _ \<Rightarrow> m)"

text \<open>\<open>if err != nil { log.Fatalln(err) }\<close>\<close>

definition fatal_err :: "'a go \<Rightarrow> 'a go" where
  "fatal_err m = (case m of Inl (Err e) \<Rightarrow> Inl (Fatal ''err'') | _ \<Rightarrow> m)"

text \<open>\<open>if err != nil { panic(err) }\<close>\<close>

definition must :: "'a go \<Rightarrow> 'a go" where
  "must m = (case m of Inl (Err e) \<Rightarrow> Inl (Panic ''err'') | _ \<Rightarrow> m)"

text \<open>A loop modelled by an option function: \<open>None\<close> is "does not return".\<close>

definition of_loop :: "'a option \<Rightarrow> 'a go" where
  "of_loop m = (case m of None \<Rightarrow> Inl Hang | Some a \<Rightarrow> Inr a)"

text \<open>A \<open>for range\<close> loop that fills one slot per element and stops at the first failure.\<close>

fun map_go :: "('a \<Rightarrow> 'b go) \<Rightarrow> 'a list \<Rightarrow> 'b list go" where
  "map_go f [] = Inr []"
| "map_go f (x # xs) = bind (f x) (\<lambda>y. bind (map_go f xs) (\<lambda>ys. Inr (y # ys)))"

text \<open>The arguments of a call, evaluated from left to right.\<close>

fun args_go :: "'a go list \<Rightarrow> 'a list go" where
  "args_go [] = Inr []"
| "args_go (m # ms) = bind m (\<lambda>x. bind (args_go ms) (\<lambda>xs. Inr (x # xs)))"

lemma bind_Inl [simp]: "bind (Inl e) f = Inl e"
  and bind_Inr [simp]: "bind (Inr a) f = f a"
  by (simp_all add: bind_def)

lemma bind_eq_Inr: "bind m f = Inr b \<longleftrightarrow> (\<exists>a. m = Inr a \<and> f a = Inr b)"
  by (cases m) auto

lemma bind_eq_Inl: "bind m f = Inl e \<longleftrightarrow> m = Inl e \<or> (\<exists>a. m = Inr a \<and> f a = Inl e)"
  by (cases m) auto

lemma bind_InrE:
  assumes "bind m f = Inr b"
  obtains a where "m = Inr a" and "f a = Inr b"
  using assms by (auto simp: bind_eq_Inr)

lemma bind_assoc: "bind (bind m f) g = bind m (\<lambda>a. bind (f a) g)"
  by (cases m) auto

lemma bind_go_cong [fundef_cong]:
  "m = m' \<Longrightarrow> (\<And>a. m' = Inr a \<Longrightarrow> f a = f' a) \<Longrightarrow> bind m f = bind m' f'"
  by (cases m') auto

lemma wrap_err_Inr [simp]: "wrap_err s (Inr a) = Inr a"
  and wrap_err_Err [simp]: "wrap_err s (Inl (Err e)) = Inl (Err (Wrap s e))"
  and wrap_err_eq_Inr [simp]: "wrap_err s m = Inr b \<longleftrightarrow> m = Inr b"
  by (auto simp: wrap_err_def split: sum.splits failure.splits)

lemma must_Inr [simp]: "must (Inr a) = Inr a"
  and must_eq_Inr [simp]: "must m = Inr b \<longleftrightarrow> m = Inr b"
  by (auto simp: must_def split: sum.splits failure.splits)

lemma fatal_err_Inr [simp]: "fatal_err (Inr a) = Inr a"
  and fatal_err_Err [simp]: "fatal_err (Inl (Err e)) = Inl (Fatal ''err'')"
  and fatal_err_eq_Inr [simp]: "fatal_err m = Inr b \<longleftrightarrow> m = Inr b"
  by (auto simp: fatal_err_def split: sum.splits failure.splits)

lemma of_loop_simps [simp]: "of_loop None = Inl Hang" "of_loop (Some a) = Inr a"
  by (simp_all add: of_loop_def)

lemma of_loop_eq_Inr [simp]: "of_loop m = Inr a \<longleftrightarrow> m = Some a"
  by (cases m) auto

lemma map_go_total: "(\<And>x. x \<in> set xs \<Longrightarrow> f x = Inr (g x)) \<Longrightarrow> map_go f xs = Inr (map g xs)"
  by (induction xs) auto

lemma map_go_Inr [simp]: "map_go (\<lambda>x. Inr (g x)) xs = Inr (map g xs)"
  by (rule map_go_total) simp

lemma map_go_eq_Inr:
  "map_go f xs = Inr ys \<longleftrightarrow> length ys = length xs \<and> (\<forall>i < length xs. f (xs ! i) = Inr (ys ! i))"
proof (induction xs arbitrary: ys)
  case (Cons x xs)
  show ?case
    by (cases ys) (auto simp: bind_eq_Inr Cons.IH nth_Cons less_Suc_eq_0_disj all_conj_distrib)
qed auto

lemma args_go_map [simp]: "args_go (map f xs) = map_go f xs"
  by (induction xs) auto

lemma args_go_eq_Inr: "args_go ms = Inr xs \<longleftrightarrow> ms = map Inr xs"
  by (induction ms arbitrary: xs) (auto simp: bind_eq_Inr Cons_eq_map_conv)

subsection \<open>Indexing and slicing\<close>

text \<open>\<open>xs[i]\<close> and \<open>xs[lo:hi]\<close> on a slice whose capacity is its length.\<close>

definition index :: "'a list \<Rightarrow> int \<Rightarrow> 'a go" where
  "index xs i = (if 0 \<le> i \<and> i < int (length xs) then Inr (xs ! nat i)
                 else Inl (Panic ''index out of range''))"

definition subslice :: "'a list \<Rightarrow> int \<Rightarrow> int \<Rightarrow> 'a list go" where
  "subslice xs lo hi = (if 0 \<le> lo \<and> lo \<le> hi \<and> hi \<le> int (length xs)
                     then Inr (take (nat hi - nat lo) (drop (nat lo) xs))
                     else Inl (Panic ''slice bounds out of range''))"

lemma index_nat [simp]: "i < length xs \<Longrightarrow> index xs (int i) = Inr (xs ! i)"
  by (simp add: index_def)

lemma index_0_Cons [simp]: "index (x # xs) 0 = Inr x"
  by (simp add: index_def)

lemma subslice_nat: "lo \<le> hi \<Longrightarrow> hi \<le> length xs \<Longrightarrow>
  subslice xs (int lo) (int hi) = Inr (take (hi - lo) (drop lo xs))"
  by (simp add: subslice_def)

lemma subslice_clamp:
  "(if int a \<le> int (min (length xs) (a + n)) then subslice xs (int a) (int (min (length xs) (a + n)))
    else subslice xs (int (min (length xs) (a + n))) (int (min (length xs) (a + n))))
   = Inr (take n (drop a xs))"
proof (cases "a \<le> length xs")
  case True
  then have "subslice xs (int a) (int (min (length xs) (a + n))) = Inr (take n (drop a xs))"
    by (subst subslice_nat) (auto simp: min_def)
  with True show ?thesis by simp
next
  case False
  then have "min (length xs) (a + n) = length xs" by simp
  with False show ?thesis by (simp add: subslice_def)
qed

lemma length_subslice: "subslice xs lo hi = Inr ys \<Longrightarrow> length ys = nat hi - nat lo"
  by (auto simp: subslice_def split: if_splits)

lemma map_go_index: "map_go (\<lambda>i. index xs (int i)) is = Inr ys \<Longrightarrow> ys = map ((!) xs) is"
  by (induction "is" arbitrary: ys) (auto simp: bind_eq_Inr index_def split: if_splits)

subsection \<open>Go's truncated division on non-negative operands\<close>

lemma sdiv_2_nat [simp]: "int a sdiv 2 = int (a div 2)"
  by (cases "a = 0") (simp_all add: signed_divide_int_def zdiv_int)

lemma smod_2_nat [simp]: "int a smod 2 = int (a mod 2)"
  by (cases "a = 0") (simp_all add: signed_modulo_int_def zmod_int minus_div_mult_eq_mod)

lemma abs_sdiv_2_less: "a \<noteq> 0 \<Longrightarrow> \<bar>a sdiv 2\<bar> < \<bar>a :: int\<bar>"
  by (cases "a > 0") (auto simp: signed_divide_int_def)

lemma nat_abs_sdiv_2 [termination_simp]: "a \<noteq> 0 \<Longrightarrow> nat \<bar>a sdiv 2\<bar> < nat \<bar>a :: int\<bar>"
  using abs_sdiv_2_less [of a] by linarith

subsection \<open>64-bit signed arithmetic\<close>

text \<open>The value a 64-bit signed operation leaves when its exact result is \<open>x\<close>.\<close>

definition wrap64 :: "int \<Rightarrow> int" where
  "wrap64 x = (x + 2 ^ 63) mod 2 ^ 64 - 2 ^ 63"

lemma wrap64_id [simp]: "- (2 ^ 63) \<le> x \<Longrightarrow> x < 2 ^ 63 \<Longrightarrow> wrap64 x = x"
  by (simp add: wrap64_def)

lemma wrap64_range: "- (2 ^ 63) \<le> wrap64 x \<and> wrap64 x < 2 ^ 63"
proof -
  have "0 \<le> (x + 2 ^ 63) mod 2 ^ 64" and "(x + 2 ^ 63) mod 2 ^ 64 < (2 ^ 64 :: int)"
    by simp_all
  then show ?thesis by (simp add: wrap64_def)
qed

subsection \<open>Lists\<close>

lemma take_drop_block: "take n (drop a xs) @ take n (drop (a + n) xs) = take (2 * n) (drop a xs)"
  by (metis add.commute drop_drop mult_2 take_add)

lemma take_drop_take: "a + n \<le> m \<Longrightarrow> take n (drop a (take m xs)) = take n (drop a xs)"
  by (simp add: drop_take min_def)

lemma nth_replicate_pad: "i < n \<Longrightarrow> (xs @ replicate n y) ! i = (if i < length xs then xs ! i else y)"
  by (simp add: nth_append)

end
