(* ===== verification/Go_Values.thy ===== *)
theory Go_Values
  imports Prelude "HOL-Library.Word"
begin

section \<open>Bytes, 32-byte hashes, integer encodings and decimal strings\<close>

text \<open>
  The values the oracle computes on: bytes, the 32-byte array type \<open>common.Hash\<close> (written as
  \<open>common.Hash{}\<close>, sliced and copied into by the code), and the parts of Go's
  \<^verbatim>\<open>encoding/binary\<close>, \<^verbatim>\<open>math/big\<close> and \<^verbatim>\<open>strconv\<close> packages that the code calls.
\<close>

unbundle bit_operations_syntax

type_synonym byte = "8 word"
type_synonym u64 = "64 word"

subsection \<open>The array type of a hash\<close>

typedef hash = "{bs :: byte list. length bs = 32}"
  morphisms Bytes Hash
  by (rule exI [of _ "replicate 32 0"]) simp

lemma Hash_Bytes [simp, code abstype]: "Hash (Bytes h) = h"
  by (rule Bytes_inverse)

instantiation hash :: equal
begin

definition equal_hash :: "hash \<Rightarrow> hash \<Rightarrow> bool" where
  "equal_hash h k \<longleftrightarrow> Bytes h = Bytes k"

instance
  by standard (simp add: equal_hash_def Bytes_inject)

end

instantiation hash :: size
begin

definition size_hash :: "hash \<Rightarrow> nat" where
  "size_hash h = length (Bytes h)"

instance ..

end

text \<open>\<open>common.Hash{}\<close>\<close>

definition zero_hash :: hash where
  "zero_hash = Hash (replicate 32 0)"

text \<open>\<open>res := common.Hash{}; copy(res[:], bs)\<close>\<close>

definition copy_hash :: "byte list \<Rightarrow> hash" where
  "copy_hash bs = Hash (take 32 (bs @ replicate 32 0))"

text \<open>\<open>copy(h[k:], bs)\<close>: the hash \<open>h\<close> with \<open>bs\<close> written from position \<open>k\<close>, as far as it fits.\<close>

definition copy_hash_at :: "nat \<Rightarrow> hash \<Rightarrow> byte list \<Rightarrow> hash" where
  "copy_hash_at k h bs = Hash (take 32 (take k (Bytes h) @ bs @ drop (k + length bs) (Bytes h)))"

lemma length_Bytes [simp]: "length (Bytes h) = 32"
  using Bytes [of h] by simp

lemma size_hash [simp]: "size h = 32" for h :: hash
  by (simp add: size_hash_def)

lemma Bytes_eq_iff: "Bytes h = Bytes k \<longleftrightarrow> h = k"
  by (simp add: Bytes_inject)

lemma Bytes_not_Nil [simp]: "Bytes h \<noteq> []"
  using length_Bytes [of h] by (metis list.size(3) zero_neq_numeral)

lemma Bytes_Hash [simp]: "length bs = 32 \<Longrightarrow> Bytes (Hash bs) = bs"
  by (simp add: Hash_inverse)

lemma Bytes_zero_hash [simp, code abstract]: "Bytes zero_hash = replicate 32 0"
  by (simp add: zero_hash_def)

lemma Bytes_copy_hash [code abstract]: "Bytes (copy_hash bs) = take 32 (bs @ replicate 32 0)"
  by (simp add: copy_hash_def)

lemma Bytes_copy_hash_at [code abstract]:
  "Bytes (copy_hash_at k h bs) = take 32 (take k (Bytes h) @ bs @ drop (k + length bs) (Bytes h))"
  by (auto simp: copy_hash_at_def)

lemma copy_hash_Bytes [simp]: "copy_hash (Bytes h) = h"
  by (simp add: Bytes_eq_iff [symmetric] Bytes_copy_hash)

lemma copy_hash_32: "length bs = 32 \<Longrightarrow> Bytes (copy_hash bs) = bs"
  by (simp add: Bytes_copy_hash)

lemma copy_hash_Nil [simp]: "copy_hash [] = zero_hash"
  by (simp add: Bytes_eq_iff [symmetric] Bytes_copy_hash)

lemma append_Bytes_inject [simp]:
  "Bytes a @ Bytes b = Bytes c @ Bytes d \<longleftrightarrow> a = c \<and> b = d"
  by (simp add: append_eq_append_conv Bytes_eq_iff)

subsection \<open>encoding/binary and math/big\<close>

text \<open>\<open>binary.LittleEndian.PutUint64\<close>: the eight bytes it stores, lowest first.\<close>

definition put_uint64_le :: "u64 \<Rightarrow> byte list" where
  "put_uint64_le v = map (\<lambda>i. ucast (drop_bit (8 * i) v)) [0..<8]"

text \<open>The number a byte string denotes, highest byte first: \<open>big.Int.SetBytes\<close>.\<close>

definition be_nat :: "byte list \<Rightarrow> nat" where
  "be_nat bs = foldl (\<lambda>acc b. acc * 256 + unat b) 0 bs"

fun le_nat :: "byte list \<Rightarrow> nat" where
  "le_nat [] = 0"
| "le_nat (b # bs) = unat b + 256 * le_nat bs"

text \<open>\<open>binary.BigEndian.Uint64\<close>: reads the first eight bytes, panics on fewer.\<close>

definition get_uint64_be :: "byte list \<Rightarrow> u64 go" where
  "get_uint64_be bs = (if length bs < 8 then Inl (Panic ''index out of range'')
                       else Inr (of_nat (be_nat (take 8 bs))))"

lemma be_nat_Nil [simp]: "be_nat [] = 0"
  by (simp add: be_nat_def)

lemma be_nat_snoc [simp]: "be_nat (bs @ [b]) = be_nat bs * 256 + unat b"
  by (simp add: be_nat_def)

lemma be_nat_append: "be_nat (xs @ ys) = be_nat xs * 256 ^ length ys + be_nat ys"
proof (induction ys rule: rev_induct)
  case (snoc y ys)
  have "be_nat (xs @ ys @ [y]) = be_nat (xs @ ys) * 256 + unat y"
    using be_nat_snoc [of "xs @ ys" y] by simp
  then show ?case by (simp add: snoc.IH algebra_simps)
qed simp

lemma unat_byte_less [simp]: "unat (b :: byte) < 256"
  using unsigned_less [of b] by simp

lemma be_nat_less: "be_nat bs < 256 ^ length bs"
proof (induction bs rule: rev_induct)
  case (snoc b bs)
  have "be_nat bs * 256 + unat b < (be_nat bs + 1) * 256"
    by simp
  also have "\<dots> \<le> 256 ^ length bs * 256"
    using snoc.IH by (intro mult_right_mono) auto
  finally show ?case by simp
qed simp

lemma be_nat_rev: "be_nat (rev bs) = le_nat bs"
  by (induction bs) auto

lemma le_nat_append: "le_nat (xs @ ys) = le_nat xs + 256 ^ length xs * le_nat ys"
  by (induction xs) (auto simp: algebra_simps)

lemma le_nat_less: "le_nat bs < 256 ^ length bs"
  using be_nat_less [of "rev bs"] by (simp add: be_nat_rev)

lemma le_nat_replicate_0 [simp]: "le_nat (replicate n 0) = 0"
  by (induction n) auto

lemma le_nat_take_drop: "le_nat bs = le_nat (take n bs) + 256 ^ min n (length bs) * le_nat (drop n bs)"
  by (metis append_take_drop_id le_nat_append length_take min.commute)

lemma le_nat_inject: "length xs = length ys \<Longrightarrow> le_nat xs = le_nat ys \<longleftrightarrow> xs = ys"
proof (induction xs ys rule: list_induct2)
  case (Cons x xs y ys)
  have "unat x = unat y \<and> le_nat xs = le_nat ys"
    if *: "unat x + 256 * le_nat xs = unat y + 256 * le_nat ys"
  proof
    have "(unat x + 256 * le_nat xs) mod 256 = (unat y + 256 * le_nat ys) mod 256"
      using * by simp
    then show "unat x = unat y" by simp
    with * show "le_nat xs = le_nat ys" by simp
  qed
  then show ?case using Cons.IH by (auto simp: word_unat_eq_iff)
qed simp

lemma length_put_uint64_le [simp]: "length (put_uint64_le v) = 8"
  by (simp add: put_uint64_le_def)

lemma unat_ucast_drop_bit_byte:
  "unat (ucast (drop_bit (8 * i) (v :: u64)) :: byte) = unat v div 256 ^ i mod 256"
proof -
  have "take_bit 64 (unat v) = unat v"
    using unsigned_less [of v, where 'a = nat] by (simp add: take_bit_nat_eq_self_iff)
  then have "unat (ucast (drop_bit (8 * i) v) :: byte) = take_bit 8 (drop_bit (8 * i) (unat v))"
    by (simp add: unsigned_ucast_eq unsigned_drop_bit_eq)
  then show ?thesis
    by (simp add: drop_bit_eq_div take_bit_eq_mod power_mult)
qed

lemma le_nat_put_uint64_le [simp]: "le_nat (put_uint64_le v) = unat v"
proof -
  have "le_nat (map (\<lambda>i. ucast (drop_bit (8 * i) v)) [k..<k + n]) = unat v div 256 ^ k mod 256 ^ n" for k n
  proof (induction n arbitrary: k)
    case (Suc n)
    have "[k..<k + Suc n] = k # [Suc k..<Suc k + n]" by (simp add: upt_conv_Cons)
    then have "le_nat (map (\<lambda>i. ucast (drop_bit (8 * i) v)) [k..<k + Suc n])
        = unat v div 256 ^ k mod 256 + 256 * (unat v div 256 ^ Suc k mod 256 ^ n)"
      by (simp only: list.map le_nat.simps Suc.IH unat_ucast_drop_bit_byte)
    also have "\<dots> = unat v div 256 ^ k mod 256 ^ Suc n"
      by (simp add: div_mult2_eq [symmetric] mod_mult2_eq mult.commute add.commute)
    finally show ?case .
  qed simp
  from this [of 0 8] show ?thesis
    using unsigned_less [of v, where 'a = nat] by (simp add: put_uint64_le_def)
qed

lemma put_uint64_le_inject [simp]: "put_uint64_le v = put_uint64_le w \<longleftrightarrow> v = w"
  by (metis le_nat_put_uint64_le word_unat_eq_iff)

subsection \<open>strconv and fmt: decimal numerals\<close>

definition digit :: "nat \<Rightarrow> char" where
  "digit d = char_of (48 + d)"

function decimal :: "nat \<Rightarrow> string" where
  "decimal n = (if n < 10 then [digit n] else decimal (n div 10) @ [digit (n mod 10)])"
  by pat_completeness auto
termination
  by (relation "measure id") auto

declare decimal.simps [simp del]

text \<open>\<open>strconv.FormatUint(v, 10)\<close> and the verb \<^verbatim>\<open>%d\<close> on a \<open>uint64\<close>\<close>

definition FormatUint :: "u64 \<Rightarrow> string" where
  "FormatUint v = decimal (unat v)"

text \<open>The verb \<^verbatim>\<open>%d\<close> on an \<open>int\<close>\<close>

definition fmt_int :: "int \<Rightarrow> string" where
  "fmt_int i = (if i < 0 then CHR ''-'' # decimal (nat (- i)) else decimal (nat i))"

fun digits_value :: "nat \<Rightarrow> string \<Rightarrow> nat" where
  "digits_value acc [] = acc"
| "digits_value acc (c # cs) = digits_value (acc * 10 + (of_char c - 48)) cs"

lemma of_char_digit [simp]: "d < 10 \<Longrightarrow> of_char (digit d) = (48 + d :: nat)"
  by (simp add: digit_def)

lemma digits_value_snoc: "digits_value acc (cs @ [c]) = digits_value acc cs * 10 + (of_char c - 48)"
  by (induction cs arbitrary: acc) auto

lemma digits_value_decimal [simp]: "digits_value 0 (decimal n) = n"
proof (induction n rule: decimal.induct)
  case (1 n)
  then show ?case
    by (subst decimal.simps) (auto simp: digits_value_snoc)
qed

lemma decimal_inject [simp]: "decimal m = decimal n \<longleftrightarrow> m = n"
  by (metis digits_value_decimal)

lemma FormatUint_inject [simp]: "FormatUint v = FormatUint w \<longleftrightarrow> v = w"
  by (simp add: FormatUint_def word_unat_eq_iff)

lemma decimal_digits: "c \<in> set (decimal n) \<Longrightarrow> 48 \<le> (of_char c :: nat) \<and> (of_char c :: nat) < 58"
proof (induction n rule: decimal.induct)
  case (1 n)
  then show ?case
    by (subst (asm) (2) decimal.simps) (auto split: if_splits)
qed

lemma decimal_not_Nil [simp]: "decimal n \<noteq> []"
  by (subst decimal.simps) simp

subsection \<open>Big-endian numerals of a fixed length\<close>

text \<open>The \<open>n\<close> low bytes of a number, highest first: how the EVM and BLS serialisations write it.\<close>

fun be_bytes :: "nat \<Rightarrow> nat \<Rightarrow> byte list" where
  "be_bytes 0 v = []"
| "be_bytes (Suc n) v = be_bytes n (v div 256) @ [of_nat (v mod 256)]"

lemma length_be_bytes [simp]: "length (be_bytes n v) = n"
  by (induction n arbitrary: v) auto

lemma be_nat_be_bytes: "be_nat (be_bytes n v) = v mod 256 ^ n"
proof (induction n arbitrary: v)
  case (Suc n)
  have "unat (of_nat (v mod 256) :: byte) = v mod 256" by (simp add: unat_of_nat)
  then show ?case by (simp add: Suc.IH mod_mult2_eq mult.commute)
qed simp

lemma be_nat_inject: "length xs = length ys \<Longrightarrow> be_nat xs = be_nat ys \<Longrightarrow> xs = ys"
proof (induction xs arbitrary: ys rule: rev_induct)
  case (snoc x xs)
  then obtain y zs where ys: "ys = zs @ [y]" by (cases ys rule: rev_cases) auto
  have b: "unat x < 256" "unat y < 256" by simp_all
  have eq: "be_nat xs * 256 + unat x = be_nat zs * 256 + unat y" using snoc.prems ys by simp
  then have "be_nat xs = be_nat zs" using b by linarith
  moreover from this eq have "unat x = unat y" by simp
  ultimately have "be_nat xs = be_nat zs" and "unat x = unat y" .
  with snoc ys show ?case by (simp add: word_unat_eq_iff)
qed simp

lemma be_bytes_be_nat [simp]: "length bs = n \<Longrightarrow> be_bytes n (be_nat bs) = bs"
  by (rule be_nat_inject) (auto simp: be_nat_be_bytes mod_less be_nat_less)

lemma be_bytes_add: "be_bytes (m + n) v = be_bytes m (v div 256 ^ n) @ be_bytes n v"
proof (rule be_nat_inject)
  have "v mod 256 ^ (m + n) = (v div 256 ^ n) mod 256 ^ m * 256 ^ n + v mod 256 ^ n"
    by (simp add: power_add mod_mult2_eq mult.commute [of "256 ^ m"] mult.commute [of _ "256 ^ n"])
  then show "be_nat (be_bytes (m + n) v) = be_nat (be_bytes m (v div 256 ^ n) @ be_bytes n v)"
    by (simp add: be_nat_append be_nat_be_bytes)
qed simp

end
