(* ===== verification/Sha256.thy ===== *)
theory Sha256
  imports Go_Values
begin

section \<open>SHA-256, and the oracle's \<^verbatim>\<open>Sha256Hash\<close> (oracle/crypto/hash.go)\<close>

text \<open>
  \<^verbatim>\<open>hash.go\<close> feeds its arguments one after the other to a fresh digest of the standard
  library's \<^verbatim>\<open>crypto/sha256\<close> and reads the 32-byte sum into a \<open>common.Hash\<close>. The standard
  library's function is modelled as FIPS 180-4 defines it, on 32-bit words. Nothing in the Merkle
  theories depends on its internals beyond the length of the digest.
\<close>

type_synonym u32 = "32 word"

subsection \<open>FIPS 180-4: constants and functions\<close>

text \<open>
  The round constants, each with the prime whose cube root it comes from, and the initial state,
  with the primes of the square roots: the first 32 bits of the fractional parts, which the theory
  \<open>Sha256_Vectors\<close> confirms.
\<close>

definition sha256_K_table :: "(nat \<times> u32) list" where
  "sha256_K_table = [
   (2, 0x428a2f98), (3, 0x71374491), (5, 0xb5c0fbcf), (7, 0xe9b5dba5), (11, 0x3956c25b),
   (13, 0x59f111f1), (17, 0x923f82a4), (19, 0xab1c5ed5), (23, 0xd807aa98), (29, 0x12835b01),
   (31, 0x243185be), (37, 0x550c7dc3), (41, 0x72be5d74), (43, 0x80deb1fe), (47, 0x9bdc06a7),
   (53, 0xc19bf174), (59, 0xe49b69c1), (61, 0xefbe4786), (67, 0x0fc19dc6), (71, 0x240ca1cc),
   (73, 0x2de92c6f), (79, 0x4a7484aa), (83, 0x5cb0a9dc), (89, 0x76f988da), (97, 0x983e5152),
   (101, 0xa831c66d), (103, 0xb00327c8), (107, 0xbf597fc7), (109, 0xc6e00bf3), (113, 0xd5a79147),
   (127, 0x06ca6351), (131, 0x14292967), (137, 0x27b70a85), (139, 0x2e1b2138), (149, 0x4d2c6dfc),
   (151, 0x53380d13), (157, 0x650a7354), (163, 0x766a0abb), (167, 0x81c2c92e), (173, 0x92722c85),
   (179, 0xa2bfe8a1), (181, 0xa81a664b), (191, 0xc24b8b70), (193, 0xc76c51a3), (197, 0xd192e819),
   (199, 0xd6990624), (211, 0xf40e3585), (223, 0x106aa070), (227, 0x19a4c116), (229, 0x1e376c08),
   (233, 0x2748774c), (239, 0x34b0bcb5), (241, 0x391c0cb3), (251, 0x4ed8aa4a), (257, 0x5b9cca4f),
   (263, 0x682e6ff3), (269, 0x748f82ee), (271, 0x78a5636f), (277, 0x84c87814), (281, 0x8cc70208),
   (283, 0x90befffa), (293, 0xa4506ceb), (307, 0xbef9a3f7), (311, 0xc67178f2)]"

definition sha256_K :: "u32 list" where
  "sha256_K = map snd sha256_K_table"

definition sha256_init_table :: "(nat \<times> u32) list" where
  "sha256_init_table = [
   (2, 0x6a09e667), (3, 0xbb67ae85), (5, 0x3c6ef372), (7, 0xa54ff53a),
   (11, 0x510e527f), (13, 0x9b05688c), (17, 0x1f83d9ab), (19, 0x5be0cd19)]"

definition sha256_init :: "u32 list" where
  "sha256_init = map snd sha256_init_table"

definition rotr :: "nat \<Rightarrow> u32 \<Rightarrow> u32" where
  "rotr n x = drop_bit n x OR push_bit (32 - n) x"

definition big_sigma0 :: "u32 \<Rightarrow> u32" where
  "big_sigma0 x = rotr 2 x XOR rotr 13 x XOR rotr 22 x"

definition big_sigma1 :: "u32 \<Rightarrow> u32" where
  "big_sigma1 x = rotr 6 x XOR rotr 11 x XOR rotr 25 x"

definition small_sigma0 :: "u32 \<Rightarrow> u32" where
  "small_sigma0 x = rotr 7 x XOR rotr 18 x XOR drop_bit 3 x"

definition small_sigma1 :: "u32 \<Rightarrow> u32" where
  "small_sigma1 x = rotr 17 x XOR rotr 19 x XOR drop_bit 10 x"

definition sha_ch :: "u32 \<Rightarrow> u32 \<Rightarrow> u32 \<Rightarrow> u32" where
  "sha_ch x y z = (x AND y) XOR (NOT x AND z)"

definition sha_maj :: "u32 \<Rightarrow> u32 \<Rightarrow> u32 \<Rightarrow> u32" where
  "sha_maj x y z = (x AND y) XOR (x AND z) XOR (y AND z)"

subsection \<open>The message schedule and one block\<close>

text \<open>The window \<open>ws\<close> holds the last sixteen words; each step emits its first one.\<close>

fun sha_schedule :: "nat \<Rightarrow> u32 list \<Rightarrow> u32 list" where
  "sha_schedule 0 ws = []"
| "sha_schedule (Suc n) [] = []"
| "sha_schedule (Suc n) (w # ws) =
     w # sha_schedule n (ws @ [small_sigma1 (ws ! 13) + ws ! 8 + small_sigma0 (ws ! 0) + w])"

fun sha_round :: "u32 list \<Rightarrow> u32 \<times> u32 \<Rightarrow> u32 list" where
  "sha_round [a, b, c, d, e, f, g, h] (k, w) =
     (let t1 = h + big_sigma1 e + sha_ch e f g + k + w;
          t2 = big_sigma0 a + sha_maj a b c
      in [t1 + t2, a, b, c, d + t1, e, f, g])"
| "sha_round st kw = st"

fun be_words :: "byte list \<Rightarrow> u32 list" where
  "be_words (a # b # c # d # bs) =
     (push_bit 24 (ucast a) OR push_bit 16 (ucast b) OR push_bit 8 (ucast c) OR ucast d) # be_words bs"
| "be_words bs = []"

definition word_bytes :: "u32 \<Rightarrow> byte list" where
  "word_bytes w = [ucast (drop_bit 24 w), ucast (drop_bit 16 w), ucast (drop_bit 8 w), ucast w]"

definition sha_block :: "u32 list \<Rightarrow> byte list \<Rightarrow> u32 list" where
  "sha_block st bs = map2 (+) st (foldl sha_round st (zip sha256_K (sha_schedule 64 (be_words bs))))"

subsection \<open>Padding, and the whole digest\<close>

definition sha_pad :: "byte list \<Rightarrow> byte list" where
  "sha_pad m = m @ 0x80 # replicate ((119 - length m mod 64) mod 64) 0
                 @ rev (put_uint64_le (of_nat (8 * length m)))"

function sha_blocks :: "u32 list \<Rightarrow> byte list \<Rightarrow> u32 list" where
  "sha_blocks st bs = (if length bs < 64 then st else sha_blocks (sha_block st (take 64 bs)) (drop 64 bs))"
  by pat_completeness auto
termination
  by (relation "measure (\<lambda>(st, bs). length bs)") auto

declare sha_blocks.simps [simp del]

definition sha256 :: "byte list \<Rightarrow> byte list" where
  "sha256 m = concat (map word_bytes (sha_blocks sha256_init (sha_pad m)))"

text \<open>The digest has 32 bytes, and padding fills whole blocks.\<close>

lemma length_sha_pad: "length (sha_pad m) mod 64 = 0"
proof -
  define q r where "q = length m div 64" and "r = length m mod 64"
  then have m: "length m = 64 * q + r" and r: "r < 64" by simp_all
  have pad: "(119 - r) mod 64 = (if r \<le> 55 then 55 - r else 119 - r)"
    using r by (simp add: mod_if)
  have "64 * q + r + 1 + (119 - r) mod 64 + 8 = 64 * (q + (if r \<le> 55 then 1 else 2))"
    using r by (simp add: pad)
  moreover have "length (sha_pad m) = 64 * q + r + 1 + (119 - r) mod 64 + 8"
    using r by (simp add: sha_pad_def m)
  ultimately have "length (sha_pad m) = 64 * (q + (if r \<le> 55 then 1 else 2))" by simp
  then show ?thesis by (simp only: mod_mult_self1_is_0)
qed

lemma length_sha_round [simp]: "length (sha_round st kw) = length st"
  by (cases "(st, kw)" rule: sha_round.cases) (auto simp: Let_def)

lemma length_foldl_sha_round [simp]: "length (foldl sha_round st kws) = length st"
  by (induction kws arbitrary: st) auto

lemma length_sha_block [simp]: "length (sha_block st bs) = length st"
  by (simp add: sha_block_def)

lemma length_sha_blocks [simp]: "length (sha_blocks st bs) = length st"
proof (induction st bs rule: sha_blocks.induct)
  case (1 st bs)
  then show ?case by (subst sha_blocks.simps) auto
qed

lemma length_sha256 [simp]: "length (sha256 m) = 32"
proof -
  have "length (concat (map word_bytes ws)) = 4 * length ws" for ws
    by (induction ws) (auto simp: word_bytes_def)
  then show ?thesis by (simp add: sha256_def sha256_init_def sha256_init_table_def)
qed

subsection \<open>hash.go\<close>

definition Sha256Hash :: "byte list list \<Rightarrow> hash" where
  "Sha256Hash bs = Hash (sha256 (concat bs))"

lemma Bytes_Sha256Hash [code abstract]: "Bytes (Sha256Hash bs) = sha256 (concat bs)"
  by (simp add: Sha256Hash_def)

text \<open>The two-to-one hash every tree node is made with.\<close>

definition node_hash :: "hash \<Rightarrow> hash \<Rightarrow> hash" where
  "node_hash a b = Sha256Hash [Bytes a, Bytes b]"

text \<open>
  Two hash inputs that collide. Statements of the form "equal roots mean equal data" are false
  of any compressing hash; what holds is that unequal data with equal roots exhibits a collision
  among the inputs that were hashed.
\<close>

definition sha_collision :: "byte list \<times> byte list \<Rightarrow> bool" where
  "sha_collision p \<longleftrightarrow> fst p \<noteq> snd p \<and> sha256 (fst p) = sha256 (snd p)"

lemma node_hash_collision:
  assumes "node_hash a b = node_hash c d" and "(a, b) \<noteq> (c, d)"
  shows "sha_collision (Bytes a @ Bytes b, Bytes c @ Bytes d)"
proof -
  have "sha256 (Bytes a @ Bytes b) = sha256 (Bytes c @ Bytes d)"
    using arg_cong [OF assms(1), of Bytes] by (simp add: node_hash_def Bytes_Sha256Hash)
  with assms(2) show ?thesis by (simp add: sha_collision_def)
qed

end
