(* ===== verification/Crypto_Utils.thy ===== *)
theory Crypto_Utils
  imports Sha256
begin

section \<open>Helpers of the crypto package (oracle/crypto/utils.go)\<close>

text \<open>
  \<open>ZeroHash\<close>, \<open>CeilPow2\<close>, \<open>UintToHash\<close> and \<open>BytesToChunks\<close>. \<open>CeilPow2\<close> doubles a 64-bit
  signed integer until it reaches its argument; the doubling wraps, so for arguments above
  \<open>2 ^ 62\<close> the loop never ends, and the model is an option function.
\<close>

subsection \<open>ZeroHash\<close>

function ZeroHash_loop :: "int \<Rightarrow> hash \<Rightarrow> hash" where
  "ZeroHash_loop n res =
     (if n > 1 then ZeroHash_loop (n sdiv 2) (Sha256Hash [Bytes res, Bytes res]) else res)"
  by pat_completeness auto
termination
proof (relation "measure (\<lambda>(n, res). nat \<bar>n\<bar>)")
  show "((n sdiv 2, Sha256Hash [Bytes res, Bytes res]), (n, res)) \<in> measure (\<lambda>(n, res). nat \<bar>n\<bar>)"
    if "1 < n" for n :: int and res
    using nat_abs_sdiv_2 [of n] that by simp
qed simp

declare ZeroHash_loop.simps [simp del]

definition ZeroHash :: "int \<Rightarrow> hash" where
  "ZeroHash n = ZeroHash_loop n zero_hash"

text \<open>The reference: the root of a tree of height \<open>k\<close> over zero leaves.\<close>

fun zero_root :: "nat \<Rightarrow> hash" where
  "zero_root 0 = zero_hash"
| "zero_root (Suc k) = node_hash (zero_root k) (zero_root k)"

lemma ZeroHash_loop_pow2: "ZeroHash_loop (2 ^ k) (zero_root j) = zero_root (j + k)"
proof (induction k arbitrary: j)
  case 0
  show ?case by (subst ZeroHash_loop.simps) simp
next
  case (Suc k)
  have "(2 ^ Suc k :: int) sdiv 2 = 2 ^ k"
    using sdiv_2_nat [of "2 ^ Suc k"] by simp
  moreover have "(1 :: int) < 2 ^ Suc k"
    by (rule one_less_power) simp_all
  ultimately show ?case
    using Suc.IH [of "Suc j"] by (subst ZeroHash_loop.simps) (simp add: node_hash_def)
qed

lemma ZeroHash_pow2 [simp]: "ZeroHash (2 ^ k) = zero_root k"
  using ZeroHash_loop_pow2 [of k 0] by (simp add: ZeroHash_def)

lemma ZeroHash_small [simp]: "n \<le> 1 \<Longrightarrow> ZeroHash n = zero_hash"
  by (subst ZeroHash_def, subst ZeroHash_loop.simps) simp

subsection \<open>CeilPow2\<close>

partial_function (option) CeilPow2_loop :: "int \<Rightarrow> int \<Rightarrow> int option" where
  "CeilPow2_loop n res = (if res < n then CeilPow2_loop n (wrap64 (res * 2)) else Some res)"

definition CeilPow2 :: "int \<Rightarrow> int go" where
  "CeilPow2 n = of_loop (CeilPow2_loop n 1)"

text \<open>The exponent of the power it returns.\<close>

fun log2_up :: "nat \<Rightarrow> nat" where
  "log2_up n = (if n \<le> 1 then 0 else Suc (log2_up ((n + 1) div 2)))"

declare log2_up.simps [simp del]

lemma le_pow2_log2_up: "n \<le> 2 ^ log2_up n"
proof (induction n rule: log2_up.induct)
  case (1 n)
  then show ?case by (subst log2_up.simps) auto
qed

lemma log2_up_least: "n \<le> 2 ^ k \<Longrightarrow> log2_up n \<le> k"
proof (induction n arbitrary: k rule: log2_up.induct)
  case (1 n)
  show ?case
  proof (cases "n \<le> 1")
    case False
    with "1.prems" obtain j where k: "k = Suc j" by (cases k) auto
    with "1.prems" have "(n + 1) div 2 \<le> 2 ^ j" by auto
    with "1.IH" False have "log2_up ((n + 1) div 2) \<le> j" by blast
    with False k show ?thesis by (subst log2_up.simps) simp
  qed (subst log2_up.simps, simp)
qed

lemma log2_up_le_iff: "log2_up n \<le> k \<longleftrightarrow> n \<le> 2 ^ k"
  by (meson le_pow2_log2_up le_trans log2_up_least one_le_numeral power_increasing)

lemma log2_up_pow2 [simp]: "log2_up (2 ^ k) = k"
  using log2_up_le_iff [of "2 ^ k" "k - 1"] log2_up_least [of "2 ^ k" k]
  by (cases k) (auto simp: le_Suc_eq)

lemma wrap64_double: "(2 ^ Suc j :: int) \<le> 2 ^ 62 \<Longrightarrow> wrap64 (2 ^ j * 2) = 2 ^ Suc j"
proof -
  assume le: "(2 ^ Suc j :: int) \<le> 2 ^ 62"
  have pos: "(0 :: int) < 2 ^ Suc j" by (rule zero_less_power) simp
  have "wrap64 x = x" if "0 < x" and "x \<le> 2 ^ 62" for x
    using that by (intro wrap64_id) simp_all
  from this [OF pos le] show ?thesis by (simp add: mult.commute)
qed

lemma CeilPow2_loop_pow2:
  assumes "j \<le> log2_up n" and "n \<le> 2 ^ 62"
  shows "CeilPow2_loop (int n) (2 ^ j) = Some (2 ^ log2_up n)"
  using assms(1)
proof (induction "log2_up n - j" arbitrary: j)
  case 0
  then have "j = log2_up n" by simp
  then show ?case
    using le_pow2_log2_up [of n] by (subst CeilPow2_loop.simps) (simp flip: of_nat_power)
next
  case (Suc d)
  then have j: "j < log2_up n" by simp
  then have lt: "2 ^ j < n" using log2_up_le_iff [of n j] by simp
  have "Suc j \<le> 62" using j log2_up_least [OF assms(2)] by simp
  then have "(2 ^ Suc j :: int) \<le> 2 ^ 62" by (rule power_increasing) simp
  then have "wrap64 (2 ^ j * 2) = 2 ^ Suc j" by (simp add: wrap64_double)
  moreover have "(2 ^ j :: int) < int n" using lt by (simp flip: of_nat_power)
  ultimately show ?case
    using Suc.hyps(1) [of "Suc j"] Suc.hyps(2) j by (subst CeilPow2_loop.simps) simp
qed

lemma CeilPow2_pow2: "n \<le> 2 ^ 62 \<Longrightarrow> CeilPow2 (int n) = Inr (2 ^ log2_up n)"
  using CeilPow2_loop_pow2 [of 0 n] by (simp add: CeilPow2_def)

text \<open>Above \<open>2 ^ 62\<close> the doubling runs \<open>1, \<dots>, 2 ^ 62, - 2 ^ 63, 0, 0, \<dots>\<close> and never stops.\<close>

definition overflow_path :: "int \<Rightarrow> bool" where
  "overflow_path res \<longleftrightarrow> res = 0 \<or> res = - (2 ^ 63) \<or> (\<exists>k \<le> 62. res = 2 ^ k)"

lemma overflow_path_step:
  assumes "overflow_path res"
  shows "overflow_path (wrap64 (res * 2))"
proof -
  consider "res = 0" | "res = - (2 ^ 63)" | k where "k \<le> 62" and "res = 2 ^ k"
    using assms by (auto simp: overflow_path_def)
  then show ?thesis
  proof cases
    case 3
    show ?thesis
    proof (cases "k = 62")
      case False
      with 3 have k: "Suc k \<le> 62" by simp
      then have "(2 ^ Suc k :: int) \<le> 2 ^ 62" by (rule power_increasing) simp
      then have "wrap64 (res * 2) = 2 ^ Suc k" using 3 by (simp add: wrap64_double)
      then show ?thesis using k unfolding overflow_path_def by blast
    qed (use 3 in \<open>simp add: overflow_path_def wrap64_def\<close>)
  qed (simp_all add: overflow_path_def wrap64_def)
qed

lemma overflow_path_le: "overflow_path res \<Longrightarrow> res \<le> 2 ^ 62"
  by (auto simp: overflow_path_def intro: power_increasing [of _ 62 "2 :: int", simplified])

lemma CeilPow2_loop_diverges:
  assumes "CeilPow2_loop n res = Some r" and "2 ^ 62 < n"
  shows "\<not> overflow_path res"
proof (rule CeilPow2_loop.raw_induct
    [where P = "\<lambda>n res r. 2 ^ 62 < n \<longrightarrow> \<not> overflow_path res", THEN mp, OF _ assms])
  fix f n res r
  assume IH: "\<And>n res r. f n res = Some r \<Longrightarrow> 2 ^ 62 < n \<longrightarrow> \<not> overflow_path res"
    and eq: "(if res < n then f n (wrap64 (res * 2)) else Some res) = Some r"
  show "2 ^ 62 < n \<longrightarrow> \<not> overflow_path res"
  proof (intro impI notI)
    assume n: "2 ^ 62 < n" and p: "overflow_path res"
    then have "res < n" using overflow_path_le by fastforce
    with eq have "f n (wrap64 (res * 2)) = Some r" by simp
    with IH n overflow_path_step [OF p] show False by blast
  qed
qed

lemma CeilPow2_hangs: "2 ^ 62 < n \<Longrightarrow> CeilPow2 n = Inl Hang"
proof -
  assume n: "2 ^ 62 < n"
  have "overflow_path 1"
    by (auto simp: overflow_path_def intro: exI [of _ 0])
  with n have "CeilPow2_loop n 1 = None"
    using CeilPow2_loop_diverges [of n 1] by (cases "CeilPow2_loop n 1") auto
  then show ?thesis by (simp add: CeilPow2_def)
qed

subsection \<open>UintToHash\<close>

definition UintToHash :: "u64 \<Rightarrow> hash" where
  "UintToHash v = copy_hash (put_uint64_le v)"

lemma Bytes_UintToHash: "Bytes (UintToHash v) = put_uint64_le v @ replicate 24 0"
  by (simp add: UintToHash_def Bytes_copy_hash)

lemma UintToHash_inject [simp]: "UintToHash v = UintToHash w \<longleftrightarrow> v = w"
  by (simp add: Bytes_eq_iff [symmetric] Bytes_UintToHash)

lemma le_nat_UintToHash: "le_nat (Bytes (UintToHash v)) = unat v"
  by (simp add: Bytes_UintToHash le_nat_append)

subsection \<open>BytesToChunks\<close>

text \<open>
  The loop over \<open>i = 0, 32, 64, \<dots>\<close>: \<open>copy(res[:], s[i:])\<close> takes at most 32 bytes and leaves
  the rest of the chunk zero. Every slot of the result is written, so the result is the list of
  the chunks in order.
\<close>

function BytesToChunks :: "byte list \<Rightarrow> hash list" where
  "BytesToChunks s = (if s = [] then [] else copy_hash s # BytesToChunks (drop 32 s))"
  by pat_completeness auto
termination
  by (relation "measure length") auto

declare BytesToChunks.simps [simp del]

lemma BytesToChunks_Nil [simp]: "BytesToChunks [] = []"
  by (subst BytesToChunks.simps) simp

lemma BytesToChunks_step:
  "s \<noteq> [] \<Longrightarrow> BytesToChunks s = copy_hash s # BytesToChunks (drop 32 s)"
  by (subst BytesToChunks.simps) simp

lemma length_BytesToChunks: "length (BytesToChunks s) = (length s + 31) div 32"
proof (induction s rule: BytesToChunks.induct)
  case (1 s)
  show ?case
  proof (cases "s = []")
    case False
    have "Suc ((length s - 32 + 31) div 32) = (length s + 31) div 32"
      using False by (cases "length s < 32") (auto simp: div_add_self2 not_less Suc_le_eq div_eq_dividend_iff le_div_geq)
    with False "1.IH" show ?thesis by (simp add: BytesToChunks_step)
  qed simp
qed

text \<open>Nothing of the input is lost: the chunks' bytes are the input padded with zeros.\<close>

lemma concat_BytesToChunks:
  "concat (map Bytes (BytesToChunks s)) = s @ replicate (32 * length (BytesToChunks s) - length s) 0"
proof (induction s rule: BytesToChunks.induct)
  case (1 s)
  show ?case
  proof (cases "s = []")
    case False
    show ?thesis
    proof (cases "length s \<le> 32")
      case True
      with False show ?thesis
        by (simp add: BytesToChunks_step Bytes_copy_hash)
    next
      case long: False
      have "concat (map Bytes (BytesToChunks (drop 32 s)))
          = drop 32 s @ replicate (32 * length (BytesToChunks (drop 32 s)) - length (drop 32 s)) 0"
        using "1.IH" False by blast
      moreover have "Bytes (copy_hash s) = take 32 s" using long by (simp add: Bytes_copy_hash)
      moreover have "length s \<le> 32 + 32 * length (BytesToChunks (drop 32 s))"
        by (simp add: length_BytesToChunks)
      ultimately show ?thesis using False long
        by (simp add: BytesToChunks_step)
    qed
  qed simp
qed

end
