(* ===== verification/Sha256_Vectors.thy ===== *)
theory Sha256_Vectors
  imports Crypto_Utils
begin

section \<open>Checks of the SHA-256 model against published values\<close>

text \<open>
  The constants of FIPS 180-4 are recomputed: the fractional parts of the cube and square roots of the first primes. The digest of 64
  zero bytes is evaluated inside the logic, on words as lists of bits: it is the constant that the contracts use for the
  root of two empty leaves.
\<close>

text \<open>\<open>w\<close> is \<open>\<lfloor>2 ^ 32 * root p\<rfloor> mod 2 ^ 32\<close> for the \<open>e\<close>-th root, whose whole part \<open>a\<close> is at most 6.\<close>

definition root_fraction :: "nat \<Rightarrow> nat \<times> u32 \<Rightarrow> bool" where
  "root_fraction e pw =
     (let a = length (takeWhile (\<lambda>a. a ^ e \<le> fst pw) [1 ..< 7]); x = int a * 2 ^ 32 + uint (snd pw) in
      x ^ e \<le> int (fst pw) * 2 ^ (32 * e) \<and> int (fst pw) * 2 ^ (32 * e) < (x + 1) ^ e)"

lemma sha256_constants:
  "list_all (root_fraction 3) sha256_K_table" "list_all (root_fraction 2) sha256_init_table"
  by code_simp+

subsection \<open>Words as lists of bits\<close>

definition word_of :: "bool list \<Rightarrow> u32" where
  "word_of bs = horner_sum of_bool 2 bs"

definition bits_of :: "u32 \<Rightarrow> bool list" where
  "bits_of w = map (bit w) [0 ..< 32]"

lemma bit_word_of: "bit (word_of bs) n \<longleftrightarrow> n < 32 \<and> n < length bs \<and> bs ! n"
  by (simp add: word_of_def bit_horner_sum_bit_iff)

lemma word_of_bits [simp]: "word_of (bits_of w) = w"
  by (rule bit_word_eqI) (simp add: bit_word_of bits_of_def)

lemma length_bits_of [simp]: "length (bits_of w) = 32"
  by (simp add: bits_of_def)

fun add_bits :: "bool \<Rightarrow> bool list \<Rightarrow> bool list \<Rightarrow> bool list" where
  "add_bits c (x # xs) (y # ys) = ((x \<noteq> y) \<noteq> c) # add_bits (if x then y \<or> c else y \<and> c) xs ys"
| "add_bits c _ _ = []"

definition xor_bits :: "bool list \<Rightarrow> bool list \<Rightarrow> bool list" where
  "xor_bits xs ys = map2 (\<noteq>) xs ys"

definition rot_bits :: "nat \<Rightarrow> bool list \<Rightarrow> bool list" where
  "rot_bits n xs = drop n xs @ take n xs"

definition shr_bits :: "nat \<Rightarrow> bool list \<Rightarrow> bool list" where
  "shr_bits n xs = drop n xs @ replicate n False"

definition ch_bits :: "bool list \<Rightarrow> bool list \<Rightarrow> bool list \<Rightarrow> bool list" where
  "ch_bits xs ys zs = map2 (\<lambda>x (y, z). if x then y else z) xs (zip ys zs)"

definition maj_bits :: "bool list \<Rightarrow> bool list \<Rightarrow> bool list \<Rightarrow> bool list" where
  "maj_bits xs ys zs = map2 (\<lambda>x (y, z). if x then y \<or> z else y \<and> z) xs (zip ys zs)"

lemma length_add_bits [simp]: "length xs = length ys \<Longrightarrow> length (add_bits c xs ys) = length ys"
  by (induction c xs ys rule: add_bits.induct) auto

lemma length_bits [simp]:
  "length (xor_bits xs ys) = min (length xs) (length ys)" "length (rot_bits n xs) = length xs"
  "n \<le> length xs \<Longrightarrow> length (shr_bits n xs) = length xs"
  "length (ch_bits xs ys zs) = min (length xs) (min (length ys) (length zs))"
  "length (maj_bits xs ys zs) = min (length xs) (min (length ys) (length zs))"
  by (simp_all add: xor_bits_def rot_bits_def shr_bits_def ch_bits_def maj_bits_def)

lemma word_of_ops:
  assumes xs: "length xs = 32"
  shows "length ys = 32 \<Longrightarrow> word_of (xor_bits xs ys) = word_of xs XOR word_of ys"
    and "0 < n \<Longrightarrow> n < 32 \<Longrightarrow> word_of (rot_bits n xs) = rotr n (word_of xs)"
    and "n < 32 \<Longrightarrow> word_of (shr_bits n xs) = drop_bit n (word_of xs)"
    and "length ys = 32 \<Longrightarrow> length zs = 32 \<Longrightarrow> word_of (ch_bits xs ys zs) = sha_ch (word_of xs) (word_of ys) (word_of zs)"
    and "length ys = 32 \<Longrightarrow> length zs = 32 \<Longrightarrow> word_of (maj_bits xs ys zs) = sha_maj (word_of xs) (word_of ys) (word_of zs)"
proof -
  show "word_of (xor_bits xs ys) = word_of xs XOR word_of ys" if "length ys = 32"
    by (rule bit_word_eqI) (use assms that in \<open>auto simp: bit_word_of xor_bits_def bit_xor_iff\<close>)
  show "word_of (rot_bits n xs) = rotr n (word_of xs)" if "0 < n" "n < 32"
    by (rule bit_word_eqI)
      (use assms that in \<open>auto simp: bit_word_of rot_bits_def rotr_def bit_or_iff bit_drop_bit_eq bit_push_bit_iff nth_append add.commute\<close>)
  show "word_of (shr_bits n xs) = drop_bit n (word_of xs)" if "n < 32"
    by (rule bit_word_eqI) (use assms that in \<open>auto simp: bit_word_of shr_bits_def bit_drop_bit_eq nth_append add.commute\<close>)
  show "word_of (ch_bits xs ys zs) = sha_ch (word_of xs) (word_of ys) (word_of zs)" if "length ys = 32" "length zs = 32"
    by (rule bit_word_eqI) (use assms that in \<open>auto simp: bit_word_of ch_bits_def sha_ch_def bit_xor_iff bit_and_iff bit_not_iff\<close>)
  show "word_of (maj_bits xs ys zs) = sha_maj (word_of xs) (word_of ys) (word_of zs)" if "length ys = 32" "length zs = 32"
    by (rule bit_word_eqI) (use assms that in \<open>auto simp: bit_word_of maj_bits_def sha_maj_def bit_xor_iff bit_and_iff\<close>)
qed

lemma add_bits_mod:
  "length xs = length ys \<Longrightarrow>
   (horner_sum of_bool 2 (add_bits c xs ys) :: nat) = (of_bool c + horner_sum of_bool 2 xs + horner_sum of_bool 2 ys) mod 2 ^ length ys"
proof (induction c xs ys rule: add_bits.induct)
  case (1 c x xs y ys)
  let ?a = "horner_sum of_bool 2 xs :: nat" and ?b = "horner_sum of_bool 2 ys :: nat" and ?n = "2 ^ length ys :: nat"
  have even: "(2 * m) mod (2 * ?n) = 2 * (m mod ?n)" for m by simp
  have odd: "Suc (2 * m) mod (2 * ?n) = Suc (2 * (m mod ?n))" for m
    using mod_mult2_eq [of "Suc (2 * m)" 2 ?n] by simp
  have sums: "2 * ?a + 2 * ?b = 2 * (?a + ?b)" "Suc (Suc (2 * (?a + ?b))) = 2 * Suc (?a + ?b)" by simp_all
  show ?case using 1 by (cases x; cases y; cases c) (simp_all only: add_bits.simps horner_sum_simps of_bool_eq if_True if_False simp_thms
      list.size length_Cons nat.inject power_Suc add_0 add_0_right One_nat_def [symmetric] Suc_eq_plus1 [symmetric] plus_1_eq_Suc
      distrib_left [symmetric] add_Suc add_Suc_right sums even odd mult_0_right)
qed auto

lemma word_of_nat_bits: "word_of bs = of_nat (horner_sum of_bool 2 bs)"
  unfolding word_of_def by (induction bs) simp_all

lemma word_of_add: "length xs = 32 \<Longrightarrow> length ys = 32 \<Longrightarrow> word_of (add_bits False xs ys) = word_of xs + word_of ys"
  using add_bits_mod [of xs ys False]
  by (simp add: word_of_nat_bits word_of_nat_eq_iff take_bit_eq_mod flip: of_nat_add)

subsection \<open>One block on bits\<close>

definition sigma_bits :: "bool list \<Rightarrow> bool list \<Rightarrow> bool list \<Rightarrow> bool list" where
  "sigma_bits a b c = xor_bits (xor_bits a b) c"

definition plus_bits :: "bool list \<Rightarrow> bool list \<Rightarrow> bool list" where
  "plus_bits = add_bits False"

fun round_bits :: "bool list list \<Rightarrow> bool list \<times> bool list \<Rightarrow> bool list list" where
  "round_bits [a, b, c, d, e, f, g, h] (k, w) =
     (let t1 = plus_bits (plus_bits (plus_bits (plus_bits h (sigma_bits (rot_bits 6 e) (rot_bits 11 e) (rot_bits 25 e)))
                 (ch_bits e f g)) k) w;
          t2 = plus_bits (sigma_bits (rot_bits 2 a) (rot_bits 13 a) (rot_bits 22 a)) (maj_bits a b c)
      in [plus_bits t1 t2, a, b, c, plus_bits d t1, e, f, g])"
| "round_bits st kw = st"

definition next_bits :: "bool list list \<Rightarrow> bool list \<Rightarrow> bool list" where
  "next_bits ws w =
     plus_bits (plus_bits (plus_bits
       (sigma_bits (rot_bits 17 (ws ! 13)) (rot_bits 19 (ws ! 13)) (shr_bits 10 (ws ! 13))) (ws ! 8))
       (sigma_bits (rot_bits 7 (ws ! 0)) (rot_bits 18 (ws ! 0)) (shr_bits 3 (ws ! 0)))) w"

fun schedule_bits :: "nat \<Rightarrow> bool list list \<Rightarrow> bool list list" where
  "schedule_bits 0 ws = []"
| "schedule_bits (Suc n) [] = []"
| "schedule_bits (Suc n) (w # ws) =
     w # schedule_bits n (ws @ [next_bits ws w])"

definition block_bits :: "bool list list \<Rightarrow> bool list list \<Rightarrow> bool list list" where
  "block_bits st ws = map2 plus_bits st (foldl round_bits st (zip (map bits_of sha256_K) (schedule_bits 64 ws)))"

definition full :: "bool list list \<Rightarrow> bool" where
  "full xs \<longleftrightarrow> (\<forall>x \<in> set xs. length x = 32)"

lemma full_simps [simp]:
  "full []" "full (x # xs) \<longleftrightarrow> length x = 32 \<and> full xs" "full (xs @ ys) \<longleftrightarrow> full xs \<and> full ys" "full (map bits_of ws)"
  by (auto simp: full_def)

lemma bits_simps:
  assumes "length xs = 32" and "length ys = 32"
  shows "length (plus_bits xs ys) = 32" and "word_of (plus_bits xs ys) = word_of xs + word_of ys"
    and "length zs = 32 \<Longrightarrow> length (sigma_bits xs ys zs) = 32"
    and "length zs = 32 \<Longrightarrow> word_of (sigma_bits xs ys zs) = word_of xs XOR word_of ys XOR word_of zs"
  using assms word_of_add [of xs ys] word_of_ops(1) [of xs ys] word_of_ops(1) [of "xor_bits xs ys" zs]
  by (simp_all add: plus_bits_def sigma_bits_def xor.assoc)

lemma round_bits_word:
  assumes "full st" and "length k = 32" and "length w = 32"
  shows "sha_round (map word_of st) (word_of k, word_of w) = map word_of (round_bits st (k, w)) \<and> full (round_bits st (k, w))"
proof (cases "(st, k, w)" rule: round_bits.cases)
  case (1 a b c d e f g h k' w')
  define t1 where "t1 = plus_bits (plus_bits (plus_bits (plus_bits h (sigma_bits (rot_bits 6 e) (rot_bits 11 e) (rot_bits 25 e)))
      (ch_bits e f g)) k) w"
  define t2 where "t2 = plus_bits (sigma_bits (rot_bits 2 a) (rot_bits 13 a) (rot_bits 22 a)) (maj_bits a b c)"
  have len: "length a = 32" "length b = 32" "length c = 32" "length d = 32" "length e = 32" "length f = 32" "length g = 32" "length h = 32"
    using assms(1) 1 by simp_all
  have t1: "length t1 = 32" "word_of t1 = word_of h + big_sigma1 (word_of e) + sha_ch (word_of e) (word_of f) (word_of g) + word_of k + word_of w"
    unfolding t1_def by (simp_all add: len assms(2,3) bits_simps word_of_ops big_sigma1_def xor.assoc)
  have t2: "length t2 = 32" "word_of t2 = big_sigma0 (word_of a) + sha_maj (word_of a) (word_of b) (word_of c)"
    unfolding t2_def by (simp_all add: len bits_simps word_of_ops big_sigma0_def xor.assoc)
  have "round_bits st (k, w) = [plus_bits t1 t2, a, b, c, plus_bits d t1, e, f, g]"
    using 1 by (simp add: t1_def t2_def Let_def)
  then show ?thesis using 1 by (simp add: Let_def t1 t2 len bits_simps)
qed (use assms in \<open>simp_all\<close>)

lemma rounds_bits_word:
  "full st \<Longrightarrow> full ks \<Longrightarrow> full ws \<Longrightarrow>
   foldl sha_round (map word_of st) (zip (map word_of ks) (map word_of ws)) = map word_of (foldl round_bits st (zip ks ws))
     \<and> full (foldl round_bits st (zip ks ws))"
proof (induction ks arbitrary: st ws)
  case (Cons k ks)
  show ?case
  proof (cases ws)
    case (Cons w ws')
    with Cons.prems have "full st" "length k = 32" "length w = 32" by simp_all
    from round_bits_word [OF this] Cons.IH [of "round_bits st (k, w)" ws'] Cons.prems Cons
    show ?thesis by simp
  qed (use Cons.prems in simp)
qed simp

lemma next_bits_word:
  assumes "full ws" and "length ws = 15" and "length w = 32"
  shows "length (next_bits ws w) = 32"
    and "word_of (next_bits ws w) = small_sigma1 (map word_of ws ! 13) + map word_of ws ! 8 + small_sigma0 (map word_of ws ! 0) + word_of w"
proof -
  have "length (ws ! 0) = 32" "length (ws ! 8) = 32" "length (ws ! 13) = 32" using assms(1,2) by (simp_all add: full_def)
  then show "length (next_bits ws w) = 32"
    "word_of (next_bits ws w) = small_sigma1 (map word_of ws ! 13) + map word_of ws ! 8 + small_sigma0 (map word_of ws ! 0) + word_of w"
    using assms(2,3) by (simp_all add: next_bits_def bits_simps word_of_ops small_sigma0_def small_sigma1_def xor.assoc)
qed

lemma schedule_bits_word:
  "full ws \<Longrightarrow> length ws = 16 \<Longrightarrow>
   sha_schedule n (map word_of ws) = map word_of (schedule_bits n ws) \<and> full (schedule_bits n ws)"
proof (induction n ws rule: schedule_bits.induct)
  case (3 n w ws)
  then have ws: "full ws" "length ws = 15" "length w = 32" by simp_all
  note new = next_bits_word [OF this]
  have "full (ws @ [next_bits ws w])" "length (ws @ [next_bits ws w]) = 16" using ws new(1) by auto
  then show ?case using 3(1) ws(3) new(2) by simp
qed simp_all

lemma sha_block_bits:
  assumes "be_words bs = ws" and "length ws = 16" and "block_bits (map bits_of st) (map bits_of ws) = map bits_of st'"
  shows "sha_block st bs = st'"
proof -
  let ?st = "map bits_of st" and ?ws = "map bits_of ws" and ?ks = "map bits_of sha256_K"
  have words: "map word_of (map bits_of xs) = xs" for xs by (simp add: comp_def)
  have "full ?ws" and "length ?ws = 16" using assms(2) by simp_all
  from schedule_bits_word [OF this, of 64]
  have sched: "sha_schedule 64 ws = map word_of (schedule_bits 64 ?ws)" "full (schedule_bits 64 ?ws)"
    unfolding words by blast+
  have rounds: "foldl sha_round st (zip sha256_K (sha_schedule 64 ws)) = map word_of (foldl round_bits ?st (zip ?ks (schedule_bits 64 ?ws)))"
    "full (foldl round_bits ?st (zip ?ks (schedule_bits 64 ?ws)))"
    using rounds_bits_word [of ?st ?ks "schedule_bits 64 ?ws", unfolded words] sched by auto
  have "map2 (+) st (map word_of ys) = map word_of (map2 plus_bits ?st ys)" if "full ys" for ys
    using that by (induction st arbitrary: ys) (auto simp: bits_simps zip_Cons1 split: list.splits)
  then have "sha_block st bs = map word_of (block_bits ?st ?ws)" by (simp add: sha_block_def block_bits_def assms(1) rounds)
  then show ?thesis by (simp add: assms(3) comp_def)
qed

subsection \<open>The digest of 64 zero bytes\<close>

lemma sha_block_zeros:
  "sha_block sha256_init (replicate 64 0) =
   [0xda5698be, 0x17b9b469, 0x62335799, 0x779fbeca, 0x8ce5d491, 0xc0d26243, 0xbafef9ea, 0x1837a9d8]"
  by (rule sha_block_bits [of _ "replicate 16 0"]) code_simp+

lemma sha_block_padding:
  "sha_block [0xda5698be, 0x17b9b469, 0x62335799, 0x779fbeca, 0x8ce5d491, 0xc0d26243, 0xbafef9ea, 0x1837a9d8]
     (0x80 # replicate 55 0 @ [0, 0, 0, 0, 0, 0, 2, 0]) =
   [0xf5a5fd42, 0xd16a2030, 0x2798ef6e, 0xd309979b, 0x43003d23, 0x20d9f0e8, 0xea9831a9, 0x2759fb4b]"
  by (rule sha_block_bits [of _ "0x80000000 # replicate 14 0 @ [0x200]"]) code_simp+

lemma be_bytes_numeral: "be_bytes (numeral k) v = be_bytes (pred_numeral k) (v div 256) @ [of_nat (v mod 256)]"
  by (simp only: numeral_eq_Suc [of k] be_bytes.simps)

lemma sha256_zeros: "sha256 (replicate 64 0) = be_bytes 32 0xf5a5fd42d16a20302798ef6ed309979b43003d2320d9f0e8ea9831a92759fb4b"
proof -
  have "sha_pad (replicate 64 0) = replicate 64 0 @ 0x80 # replicate 55 0 @ [0, 0, 0, 0, 0, 0, 2, 0]" by code_simp
  then have "sha_blocks sha256_init (sha_pad (replicate 64 0)) =
      sha_block (sha_block sha256_init (replicate 64 0)) (0x80 # replicate 55 0 @ [0, 0, 0, 0, 0, 0, 2, 0])"
    by (simp add: sha_blocks.simps)
  moreover have "concat (map word_bytes [0xf5a5fd42, 0xd16a2030, 0x2798ef6e, 0xd309979b, 0x43003d23, 0x20d9f0e8, 0xea9831a9, 0x2759fb4b])
      = be_bytes 32 0xf5a5fd42d16a20302798ef6ed309979b43003d2320d9f0e8ea9831a92759fb4b"
    by (simp add: be_bytes_numeral word_bytes_def)
  ultimately show ?thesis by (simp only: sha256_def sha_block_zeros sha_block_padding)
qed

end
