(* ===== verification/Merkle_Spec.thy ===== *)
theory Merkle_Spec
  imports Crypto_Utils
begin

section \<open>What a Merkle tree is: roots, heap numbering, branches\<close>

text \<open>
  The reference the tree code is proved against. A tree of depth \<open>d\<close> has \<open>2 ^ d\<close> leaf slots; the
  slots beyond the given leaves hold the zero hash. Nodes are numbered as SSZ's generalized
  indices: the root is 1, the children of \<open>i\<close> are \<open>2 * i\<close> and \<open>2 * i + 1\<close>, leaf \<open>j\<close> is
  \<open>2 ^ d + j\<close>. A branch lists the siblings met on the way up; \<open>climb\<close> folds one.
\<close>

subsection \<open>Roots by halving\<close>

fun mroot :: "nat \<Rightarrow> hash list \<Rightarrow> hash" where
  "mroot 0 xs = (case xs of [] \<Rightarrow> zero_hash | x # _ \<Rightarrow> x)"
| "mroot (Suc k) xs = node_hash (mroot k (take (2 ^ k) xs)) (mroot k (drop (2 ^ k) xs))"

lemma mroot_Nil [simp]: "mroot k [] = zero_root k"
  by (induction k) auto

text \<open>Zero leaves and missing leaves are the same thing.\<close>

lemma mroot_pad: "mroot k (xs @ replicate n zero_hash) = mroot k xs"
proof (induction k arbitrary: xs n)
  case 0
  show ?case by (cases xs; cases n) auto
next
  case (Suc k)
  show ?case by (simp add: Suc.IH min_def)
qed

subsection \<open>The heap of all nodes\<close>

definition leaf_at :: "hash list \<Rightarrow> nat \<Rightarrow> hash" where
  "leaf_at xs i = (if i < length xs then xs ! i else zero_hash)"

function heap :: "nat \<Rightarrow> hash list \<Rightarrow> nat \<Rightarrow> hash" where
  "heap d xs i =
     (if i = 0 then zero_hash
      else if 2 ^ d \<le> i then leaf_at xs (i - 2 ^ d)
      else node_hash (heap d xs (2 * i)) (heap d xs (2 * i + 1)))"
  by pat_completeness auto
termination
  by (relation "measure (\<lambda>(d, xs, i). 2 ^ d - i)") auto

declare heap.simps [simp del]

lemma heap_leaf [simp]: "i < length xs \<Longrightarrow> heap d xs (2 ^ d + i) = xs ! i"
  by (subst heap.simps) (simp add: leaf_at_def)

lemma heap_node: "0 < i \<Longrightarrow> i < 2 ^ d \<Longrightarrow>
  heap d xs i = node_hash (heap d xs (2 * i)) (heap d xs (2 * i + 1))"
  by (subst heap.simps) simp

lemma mroot_1: "mroot 0 (take (Suc 0) (drop b xs)) = leaf_at xs b"
  by (cases "b < length xs") (auto simp: leaf_at_def Cons_nth_drop_Suc [symmetric])

text \<open>Node \<open>2 ^ (d - j) + b\<close> is the root of the \<open>b\<close>-th block of \<open>2 ^ j\<close> leaves.\<close>

lemma heap_block:
  assumes "j \<le> d" and "b < 2 ^ (d - j)"
  shows "heap d xs (2 ^ (d - j) + b) = mroot j (take (2 ^ j) (drop (b * 2 ^ j) xs))"
  using assms
proof (induction j arbitrary: b)
  case 0
  then show ?case by (subst heap.simps) (simp add: mroot_1 del: mroot.simps)
next
  case (Suc j)
  let ?i = "2 ^ (d - Suc j) + b"
  have d: "d - j = Suc (d - Suc j)" using Suc.prems by simp
  have "?i < 2 ^ Suc (d - Suc j)" using Suc.prems(2) by simp
  also have "(2 :: nat) ^ Suc (d - Suc j) \<le> 2 ^ d"
    using Suc.prems(1) by (intro power_increasing) auto
  finally have "heap d xs ?i = node_hash (heap d xs (2 * ?i)) (heap d xs (2 * ?i + 1))"
    by (intro heap_node) auto
  moreover have "2 * ?i = 2 ^ (d - j) + 2 * b" and "2 * ?i + 1 = 2 ^ (d - j) + (2 * b + 1)"
    by (simp_all add: d)
  moreover have "2 * b + 1 < 2 ^ (d - j)" using Suc.prems(2) by (simp add: d)
  moreover have "take (2 ^ j) (take (2 ^ Suc j) (drop (b * 2 ^ Suc j) xs))
      = take (2 ^ j) (drop (2 * b * 2 ^ j) xs)"
    by (simp add: ac_simps min_def)
  moreover have "drop (2 ^ j) (take (2 ^ Suc j) (drop (b * 2 ^ Suc j) xs))
      = take (2 ^ j) (drop ((2 * b + 1) * 2 ^ j) xs)"
    by (simp add: drop_take algebra_simps)
  ultimately show ?case
    using Suc.IH [of "2 * b"] Suc.IH [of "2 * b + 1"] Suc.prems(1) by simp
qed

lemma heap_root: "length xs \<le> 2 ^ d \<Longrightarrow> heap d xs 1 = mroot d xs"
  using heap_block [of d d 0 xs] by simp

subsection \<open>Branches\<close>

fun climb :: "('h \<Rightarrow> 'h \<Rightarrow> 'h) \<Rightarrow> nat \<Rightarrow> 'h list \<Rightarrow> 'h \<Rightarrow> 'h" where
  "climb node gi [] leaf = leaf"
| "climb node gi (p # ps) leaf =
     climb node (gi div 2) ps (if odd gi then node p leaf else node leaf p)"

definition sibling :: "nat \<Rightarrow> nat" where
  "sibling gi = (if odd gi then gi - 1 else gi + 1)"

fun siblings :: "nat \<Rightarrow> nat \<Rightarrow> nat list" where
  "siblings gi 0 = []"
| "siblings gi (Suc k) = sibling gi # siblings (gi div 2) k"

lemma length_siblings [simp]: "length (siblings gi k) = k"
  by (induction k arbitrary: gi) auto

lemma climb_append:
  "climb node gi (ps @ qs) leaf = climb node (gi div 2 ^ length ps) qs (climb node gi ps leaf)"
  by (induction ps arbitrary: gi leaf) (auto simp: div_mult2_eq [symmetric])

text \<open>Only the low bits of the index are read: one per element of the branch.\<close>

lemma climb_mod:
  "gi mod 2 ^ length ps = gi' mod 2 ^ length ps \<Longrightarrow> climb node gi ps leaf = climb node gi' ps leaf"
proof (induction ps arbitrary: gi gi' leaf)
  case (Cons p ps)
  have eq: "2 * (gi div 2 mod 2 ^ length ps) + gi mod 2 = 2 * (gi' div 2 mod 2 ^ length ps) + gi' mod 2"
    using Cons.prems by (simp add: mod_mult2_eq)
  have low: "gi mod 2 = gi' mod 2"
    using arg_cong [OF eq, of "\<lambda>x. x mod 2"] by (simp only: mod_mult_self4 mod_mod_trivial)
  with eq have "gi div 2 mod 2 ^ length ps = gi' div 2 mod 2 ^ length ps" by linarith
  then have "climb node (gi div 2) ps leaf' = climb node (gi' div 2) ps leaf'" for leaf'
    by (rule Cons.IH)
  moreover have "odd gi = odd gi'" using low by (simp add: odd_iff_mod_2_eq_one)
  ultimately show ?case by (simp only: climb.simps)
qed simp

text \<open>
  Generalized indices compose: below node \<open>outer\<close> hangs a tree in which a node has the index
  \<open>inner\<close>, at depth \<open>k\<close>. This is the \<^verbatim>\<open>concat_generalized_indices\<close> of the consensus
  specification, written \<open>index * 2 ^ k + offset\<close> in the contracts.
\<close>

definition concat_gi :: "nat \<Rightarrow> nat \<Rightarrow> nat \<Rightarrow> nat" where
  "concat_gi outer k inner = outer * 2 ^ k + inner mod 2 ^ k"

lemma climb_concat:
  assumes "length ps = k"
  shows "climb node (concat_gi outer k inner) (ps @ qs) leaf
       = climb node outer qs (climb node inner ps leaf)"
proof -
  have "concat_gi outer k inner div 2 ^ k = outer"
    by (simp add: concat_gi_def)
  moreover have "climb node (concat_gi outer k inner) ps leaf = climb node inner ps leaf"
    by (rule climb_mod) (simp add: concat_gi_def assms)
  ultimately show ?thesis by (simp add: climb_append assms)
qed

subsection \<open>What every node numbering of that kind gives\<close>

text \<open>
  The interface between the tree (which provides the node values) and the verifiers (which climb
  branches): node \<open>i\<close> is the hash of its children for every inner \<open>i\<close>.
\<close>

locale hash_heap =
  fixes node :: "'h \<Rightarrow> 'h \<Rightarrow> 'h"
    and H :: "nat \<Rightarrow> 'h"
    and inner :: "nat \<Rightarrow> bool"
  assumes law: "inner i \<Longrightarrow> H i = node (H (2 * i)) (H (2 * i + 1))"
begin

lemma step_up: "inner (gi div 2) \<Longrightarrow>
  (if odd gi then node (H (sibling gi)) (H gi) else node (H gi) (H (sibling gi))) = H (gi div 2)"
  using law [of "gi div 2"] by (auto simp: sibling_def elim!: oddE)

lemma climb_siblings:
  assumes "\<And>j. 0 < j \<Longrightarrow> j \<le> k \<Longrightarrow> inner (gi div 2 ^ j)"
  shows "climb node gi (map H (siblings gi k)) (H gi) = H (gi div 2 ^ k)"
  using assms
proof (induction k arbitrary: gi)
  case (Suc k)
  have "inner (gi div 2)" using Suc.prems [of 1] by simp
  moreover have "climb node (gi div 2) (map H (siblings (gi div 2) k)) (H (gi div 2))
      = H (gi div 2 div 2 ^ k)"
    using Suc.prems [of "Suc _"] by (intro Suc.IH) (simp add: div_mult2_eq)
  ultimately show ?case using step_up [of gi] by (simp add: div_mult2_eq)
qed simp

end

interpretation tree_heap: hash_heap node_hash "heap d xs" "\<lambda>i. 0 < i \<and> i < 2 ^ d" for d xs
  by unfold_locales (simp add: heap_node)

lemma climb_heap:
  assumes "b < 2 ^ d"
  shows "climb node_hash (2 ^ d + b) (map (heap d xs) (siblings (2 ^ d + b) d)) (heap d xs (2 ^ d + b))
       = heap d xs 1"
proof -
  have "0 < (2 ^ d + b) div 2 ^ j \<and> (2 ^ d + b) div 2 ^ j < 2 ^ d" if "0 < j" and "j \<le> d" for j
  proof
    show "0 < (2 ^ d + b) div 2 ^ j"
      using power_increasing [of j d "2 :: nat"] that
      by (simp add: div_greater_zero_iff trans_le_add1)
    have "2 ^ d + b < 2 ^ d * 2 ^ 1" using assms by simp
    also have "(2 :: nat) ^ d * 2 ^ 1 \<le> 2 ^ d * 2 ^ j"
      using that by (intro mult_left_mono power_increasing) auto
    finally show "(2 ^ d + b) div 2 ^ j < 2 ^ d"
      by (intro less_mult_imp_div_less)
  qed
  moreover have "(2 ^ d + b) div 2 ^ d = 1" using assms by (intro div_nat_eqI) auto
  ultimately show ?thesis
    using tree_heap.climb_siblings [where d = d and k = d and gi = "2 ^ d + b" and xs = xs] by simp
qed

subsection \<open>Binding: different openings of one root collide\<close>

text \<open>The inputs that are hashed while a branch is climbed.\<close>

fun climb_inputs :: "nat \<Rightarrow> hash list \<Rightarrow> hash \<Rightarrow> byte list list" where
  "climb_inputs gi [] leaf = []"
| "climb_inputs gi (p # ps) leaf =
     (let (a, b) = (if odd gi then (p, leaf) else (leaf, p))
      in (Bytes a @ Bytes b) # climb_inputs (gi div 2) ps (node_hash a b))"

lemma climb_binding:
  assumes "length ps = length qs"
    and "climb node_hash gi ps a = climb node_hash gi qs b"
    and "(a, ps) \<noteq> (b, qs)"
  shows "\<exists>c \<in> set (zip (climb_inputs gi ps a) (climb_inputs gi qs b)). sha_collision c"
  using assms
proof (induction ps qs arbitrary: gi a b rule: list_induct2)
  case (Cons p ps q qs)
  let ?a = "if odd gi then node_hash p a else node_hash a p"
  let ?b = "if odd gi then node_hash q b else node_hash b q"
  show ?case
  proof (cases "(?a, ps) = (?b, qs)")
    case False
    then have "\<exists>c \<in> set (zip (climb_inputs (gi div 2) ps ?a) (climb_inputs (gi div 2) qs ?b)). sha_collision c"
      using Cons.prems(1) by (intro Cons.IH) simp_all
    then show ?thesis by (cases "odd gi") auto
  next
    case True
    then show ?thesis
      using Cons.prems(2) node_hash_collision [of p a q b] node_hash_collision [of a p b q]
      by (cases "odd gi") auto
  qed
qed simp

end
