(* ===== verification/Merkle_Tree.thy ===== *)
theory Merkle_Tree
  imports Merkle_Spec
begin

section \<open>Merkle trees and single proofs (oracle/crypto/merkleization.go)\<close>

text \<open>
  The type \<^verbatim>\<open>MerkleTree\<close>, its four constructors, the recursive \<^verbatim>\<open>merkle\<close>, the methods
  \<^verbatim>\<open>Hash\<close> and \<^verbatim>\<open>MakeProof\<close>, and \<^verbatim>\<open>MerkleProof.ReconstructRoot\<close>. A method is named
  \<open>Type_Method\<close>. Indices and limits are Go \<open>int\<close>s, so a negative index or limit takes the branch
  the code takes; \<open>merkle\<close> with a limit of zero and a non-empty slice calls itself with the same
  arguments, which ends in a stack overflow.
\<close>

subsection \<open>The tree and its constructors\<close>

record MerkleTree =
  isList :: bool
  tlen :: int             \<comment> \<open>the field \<^verbatim>\<open>length\<close>\<close>
  limit :: int
  leaves :: "hash list"

definition NewVectorMerkleTree :: "hash list \<Rightarrow> MerkleTree go" where
  "NewVectorMerkleTree ls =
     bind (CeilPow2 (int (length ls))) (\<lambda>n. Inr \<lparr>isList = False, tlen = 0, limit = n, leaves = ls\<rparr>)"

definition NewListMerkleTree :: "hash list \<Rightarrow> int \<Rightarrow> MerkleTree go" where
  "NewListMerkleTree ls lim =
     (if lim < int (length ls)
      then Inl (Panic (''invalid length, max '' @ fmt_int lim @ '', got '' @ fmt_int (int (length ls))))
      else if lim AND (lim - 1) > 0
      then Inl (Panic (''limit is not a power of 2, '' @ fmt_int lim))
      else Inr \<lparr>isList = True, tlen = int (length ls), limit = lim, leaves = ls\<rparr>)"

definition NewPackedVectorMerkleTree :: "byte list \<Rightarrow> MerkleTree go" where
  "NewPackedVectorMerkleTree data =
     (let ls = BytesToChunks data in
      bind (CeilPow2 (int (length ls))) (\<lambda>n. Inr \<lparr>isList = False, tlen = 0, limit = n, leaves = ls\<rparr>))"

definition NewPackedListMerkleTree :: "byte list \<Rightarrow> int \<Rightarrow> int \<Rightarrow> MerkleTree" where
  "NewPackedListMerkleTree data len lim =
     \<lparr>isList = True, tlen = len, limit = lim, leaves = BytesToChunks data\<rparr>"

subsection \<open>merkle and Hash\<close>

function merkle :: "hash list \<Rightarrow> int \<Rightarrow> hash go" where
  "merkle chunks n =
     (if chunks = [] then Inr (ZeroHash n)
      else if n = 1 then index chunks 0
      else if n = 0 then Inl StackOverflow
      else if int (length chunks) \<le> n sdiv 2
      then bind (merkle chunks (n sdiv 2)) (\<lambda>x. Inr (Sha256Hash [Bytes x, Bytes (ZeroHash (n sdiv 2))]))
      else bind (subslice chunks 0 (n sdiv 2)) (\<lambda>lo. bind (merkle lo (n sdiv 2)) (\<lambda>x.
           bind (subslice chunks (n sdiv 2) (int (length chunks))) (\<lambda>hi. bind (merkle hi (n sdiv 2)) (\<lambda>y.
           Inr (Sha256Hash [Bytes x, Bytes y]))))))"
  by pat_completeness auto
termination
proof (relation "measure (\<lambda>(chunks, n). nat \<bar>n\<bar>)")
  fix chunks lo hi :: "hash list" and n :: int
  assume "n \<noteq> 0"
  then have "nat \<bar>n sdiv 2\<bar> < nat \<bar>n\<bar>" by (rule nat_abs_sdiv_2)
  then show "((chunks, n sdiv 2), (chunks, n)) \<in> measure (\<lambda>(chunks, n). nat \<bar>n\<bar>)"
    and "((lo, n sdiv 2), (chunks, n)) \<in> measure (\<lambda>(chunks, n). nat \<bar>n\<bar>)"
    and "((hi, n sdiv 2), (chunks, n)) \<in> measure (\<lambda>(chunks, n). nat \<bar>n\<bar>)"
    by simp_all
qed simp

declare merkle.simps [simp del]

definition MerkleTree_Hash :: "MerkleTree \<Rightarrow> hash go" where
  "MerkleTree_Hash t =
     bind (merkle (leaves t) (limit t)) (\<lambda>x.
       Inr (if isList t then Sha256Hash [Bytes x, Bytes (UintToHash (of_int (tlen t)))] else x))"

subsection \<open>MakeProof\<close>

record MerkleProof =
  genIndex :: int
  Path :: "hash list"

text \<open>The loop of \<^verbatim>\<open>MakeProof\<close>: what it appends to the path from the given loop variables.\<close>

function proof_path :: "hash list \<Rightarrow> int \<Rightarrow> int \<Rightarrow> int \<Rightarrow> int \<Rightarrow> hash list go" where
  "proof_path ls genIdx k l r =
     (if genIdx > 1 then
        (if genIdx smod 2 = 1 then
           (let l' = l - k;
                e = (if r - k \<ge> int (length ls) then int (length ls) else r - k)
            in bind (subslice ls l' e) (\<lambda>s. bind (merkle s k) (\<lambda>h.
               bind (proof_path ls (genIdx sdiv 2) (k * 2) l' r) (\<lambda>path. Inr (h # path)))))
         else
           (let r' = r + k;
                e = (if r' \<ge> int (length ls) then int (length ls) else r')
            in bind (if l + k \<le> e then subslice ls (l + k) e else subslice ls e e) (\<lambda>s. bind (merkle s k) (\<lambda>h.
               bind (proof_path ls (genIdx sdiv 2) (k * 2) l r') (\<lambda>path. Inr (h # path))))))
      else Inr [])"
  by pat_completeness auto
termination
proof (relation "measure (\<lambda>(ls, genIdx, k, l, r). nat \<bar>genIdx\<bar>)")
  fix ls :: "hash list" and genIdx k l l' r r' :: int
  assume "genIdx > 1"
  then have "nat \<bar>genIdx sdiv 2\<bar> < nat \<bar>genIdx\<bar>" by (intro nat_abs_sdiv_2) simp
  then show "((ls, genIdx sdiv 2, k * 2, l', r), (ls, genIdx, k, l, r))
      \<in> measure (\<lambda>(ls, genIdx, k, l, r). nat \<bar>genIdx\<bar>)"
    and "((ls, genIdx sdiv 2, k * 2, l, r'), (ls, genIdx, k, l, r))
      \<in> measure (\<lambda>(ls, genIdx, k, l, r). nat \<bar>genIdx\<bar>)"
    by simp_all
qed simp

declare proof_path.simps [simp del]

definition MerkleTree_MakeProof :: "MerkleTree \<Rightarrow> int \<Rightarrow> MerkleProof go" where
  "MerkleTree_MakeProof t idx =
     (if idx < 0 \<or> idx \<ge> int (length (leaves t)) then Inl (Panic ''index out of bounds'')
      else bind (proof_path (leaves t) (idx + limit t) 1 idx (idx + 1)) (\<lambda>path.
        Inr (if isList t
             then \<lparr>genIndex = idx + limit t * 2, Path = path @ [UintToHash (of_int (tlen t))]\<rparr>
             else \<lparr>genIndex = idx + limit t, Path = path\<rparr>)))"

subsection \<open>MerkleProof.ReconstructRoot\<close>

function reconstruct_loop :: "hash list \<Rightarrow> int \<Rightarrow> int \<Rightarrow> hash \<Rightarrow> hash go" where
  "reconstruct_loop path gi i leaf =
     (if gi > 1 then
        bind (index path i) (\<lambda>p.
          reconstruct_loop path (gi sdiv 2) (i + 1)
            (if gi smod 2 = 1 then Sha256Hash [Bytes p, Bytes leaf] else Sha256Hash [Bytes leaf, Bytes p]))
      else Inr leaf)"
  by pat_completeness auto
termination
proof (relation "measure (\<lambda>(path, gi, i, leaf). nat \<bar>gi\<bar>)")
  fix path :: "hash list" and gi i :: int and leaf leaf' :: hash
  assume "gi > 1"
  then have "nat \<bar>gi sdiv 2\<bar> < nat \<bar>gi\<bar>" by (intro nat_abs_sdiv_2) simp
  then show "((path, gi sdiv 2, i + 1, leaf'), (path, gi, i, leaf))
      \<in> measure (\<lambda>(path, gi, i, leaf). nat \<bar>gi\<bar>)"
    by simp
qed simp

declare reconstruct_loop.simps [simp del]

definition MerkleProof_ReconstructRoot :: "MerkleProof \<Rightarrow> hash \<Rightarrow> hash go" where
  "MerkleProof_ReconstructRoot p data =
     (if drop_bit (length (Path p)) (genIndex p) \<noteq> 1 then Inl (Panic ''invalid proof length'')
      else reconstruct_loop (Path p) (genIndex p) 0 data)"

subsection \<open>Well-formed trees\<close>

text \<open>The limit is a power of two that bounds the number of leaves.\<close>

definition tree_depth :: "MerkleTree \<Rightarrow> nat" where
  "tree_depth t = log2_up (nat (limit t))"

definition tree_wf :: "MerkleTree \<Rightarrow> bool" where
  "tree_wf t \<longleftrightarrow> limit t = 2 ^ tree_depth t \<and> length (leaves t) \<le> 2 ^ tree_depth t"

lemma tree_wf_limit: "tree_wf t \<Longrightarrow> limit t = int (2 ^ tree_depth t)"
  by (simp add: tree_wf_def)

lemma tree_wf_leaves: "tree_wf t \<Longrightarrow> length (leaves t) \<le> 2 ^ tree_depth t"
  by (simp add: tree_wf_def)

lemma tree_wfI: "limit t = 2 ^ d \<Longrightarrow> length (leaves t) \<le> 2 ^ d \<Longrightarrow> tree_wf t \<and> tree_depth t = d"
  by (simp add: tree_wf_def tree_depth_def nat_power_eq)

lemma NewVectorMerkleTree_Inr:
  "length ls \<le> 2 ^ 62 \<Longrightarrow>
   NewVectorMerkleTree ls = Inr \<lparr>isList = False, tlen = 0, limit = 2 ^ log2_up (length ls), leaves = ls\<rparr>"
  by (simp add: NewVectorMerkleTree_def CeilPow2_pow2)

lemma NewVectorMerkleTree_wf:
  assumes "NewVectorMerkleTree ls = Inr t"
  shows "tree_wf t \<and> leaves t = ls \<and> \<not> isList t \<and> tree_depth t = log2_up (length ls)"
proof (cases "length ls \<le> 2 ^ 62")
  case True
  with assms have t: "t = \<lparr>isList = False, tlen = 0, limit = 2 ^ log2_up (length ls), leaves = ls\<rparr>"
    by (simp add: NewVectorMerkleTree_Inr)
  then have "tree_wf t \<and> tree_depth t = log2_up (length ls)"
    by (intro tree_wfI) (simp_all add: le_pow2_log2_up)
  with t show ?thesis by simp
next
  case False
  then have "CeilPow2 (int (length ls)) = Inl Hang" by (intro CeilPow2_hangs) simp
  with assms show ?thesis by (simp add: NewVectorMerkleTree_def)
qed

text \<open>The test \<open>limit & (limit - 1)\<close> of \<^verbatim>\<open>NewListMerkleTree\<close> does find the powers of two.\<close>

lemma and_pred_pow2: "0 < n \<Longrightarrow> n AND (n - 1) = 0 \<Longrightarrow> \<exists>k. n = 2 ^ k" for n :: nat
proof (induction n rule: less_induct)
  case (less n)
  show ?case
  proof (cases "even n")
    case True
    then obtain m where n: "n = 2 * m" ..
    with less.prems(1) have m: "0 < m" by simp
    have "n AND (n - 1) = 2 * (m AND (m - 1))"
      using m by (cases m) (simp_all add: n and_nat_rec [of "Suc (Suc _)"])
    with less.prems(2) have "m AND (m - 1) = 0" by simp
    with less.IH [of m] m n obtain k where "m = 2 ^ k" by auto
    with n have "n = 2 ^ Suc k" by simp
    then show ?thesis ..
  next
    case False
    then obtain m where n: "n = 2 * m + 1" ..
    have "n AND (n - 1) = 2 * m" by (subst and_nat_rec) (simp add: n)
    with less.prems(2) have "n = 2 ^ 0" by (simp add: n)
    then show ?thesis ..
  qed
qed

lemma NewListMerkleTree_wf:
  assumes "NewListMerkleTree ls lim = Inr t" and "lim \<noteq> 0"
  shows "tree_wf t \<and> leaves t = ls \<and> isList t \<and> tlen t = int (length ls) \<and> limit t = lim"
proof -
  from assms(1) have le: "int (length ls) \<le> lim" and nopow: "\<not> lim AND (lim - 1) > 0"
    and t: "t = \<lparr>isList = True, tlen = int (length ls), limit = lim, leaves = ls\<rparr>"
    by (auto simp: NewListMerkleTree_def split: if_splits)
  obtain n where n: "lim = int n" and pos: "0 < n"
    using le assms(2) by (metis nat_0_iff nat_int_comparison(2) int_nat_eq of_nat_0_le_iff order_trans
        linorder_neqE_nat less_nat_zero_code nat_0_le of_nat_0)
  have "int (n AND (n - 1)) = lim AND (lim - 1)"
    using pos by (simp add: n of_nat_and_eq of_nat_diff)
  with nopow have "n AND (n - 1) = 0" by (metis gr0I of_nat_0_less_iff)
  with pos obtain k where "n = 2 ^ k" using and_pred_pow2 by blast
  with le n t have "limit t = 2 ^ k" and "length (leaves t) \<le> 2 ^ k" by simp_all
  with t tree_wfI show ?thesis by auto
qed

subsection \<open>merkle computes the reference root\<close>

lemma merkle_Nil [simp]: "merkle [] n = Inr (ZeroHash n)"
  by (subst merkle.simps) simp

text \<open>The code's case distinctions (empty, half-empty, full) only save hashing.\<close>

lemma merkle_pow2: "merkle cs (2 ^ k) = Inr (mroot k cs)"
proof (induction k arbitrary: cs)
  case 0
  show ?case by (cases cs) (simp, subst merkle.simps, simp)
next
  case (Suc k)
  have half: "(2 :: int) ^ Suc k sdiv 2 = 2 ^ k" using sdiv_2_nat [of "2 ^ Suc k"] by simp
  have big: "(2 :: int) ^ Suc k \<noteq> 1" "(2 :: int) ^ Suc k \<noteq> 0"
    using one_less_power [of "2 :: int" "Suc k"] by simp_all
  show ?case
  proof (cases "cs = []")
    case True
    then show ?thesis by (simp only: merkle_Nil ZeroHash_pow2 mroot_Nil)
  next
    case ne: False
    show ?thesis
    proof (cases "length cs \<le> 2 ^ k")
      case True
      then have "int (length cs) \<le> 2 ^ k" by (simp flip: of_nat_power)
      with ne True show ?thesis
        by (subst merkle.simps) (simp only: half big Suc.IH bind_Inr ZeroHash_pow2 if_True if_False
          mroot.simps take_all drop_all mroot_Nil node_hash_def)
    next
      case False
      then have "\<not> int (length cs) \<le> 2 ^ k" by (simp flip: of_nat_power)
      moreover have "subslice cs 0 (2 ^ k) = Inr (take (2 ^ k) cs)"
        using False subslice_nat [of 0 "2 ^ k" cs] by simp
      moreover have "subslice cs (2 ^ k) (int (length cs)) = Inr (drop (2 ^ k) cs)"
        using False subslice_nat [of "2 ^ k" "length cs" cs] by simp
      ultimately show ?thesis using ne
        by (subst merkle.simps) (simp only: half big Suc.IH bind_Inr if_False mroot.simps node_hash_def)
    qed
  qed
qed

definition tree_root :: "MerkleTree \<Rightarrow> hash" where
  "tree_root t = (let r = mroot (tree_depth t) (leaves t)
                  in if isList t then node_hash r (UintToHash (of_int (tlen t))) else r)"

lemma MerkleTree_Hash_root: "tree_wf t \<Longrightarrow> MerkleTree_Hash t = Inr (tree_root t)"
  by (simp add: MerkleTree_Hash_def tree_root_def node_hash_def merkle_pow2 tree_wf_limit)

lemma NewVectorMerkleTree_Hash:
  "length ls \<le> 2 ^ 62 \<Longrightarrow>
   bind (NewVectorMerkleTree ls) MerkleTree_Hash = Inr (mroot (log2_up (length ls)) ls)"
  by (simp add: NewVectorMerkleTree_Inr MerkleTree_Hash_def merkle_pow2)

subsection \<open>MakeProof computes the sibling branch\<close>

lemma gi_half: "0 < m \<Longrightarrow> (2 ^ m + b) div 2 = (2 ^ (m - 1) + b div 2 :: nat)"
  by (cases m) auto

lemma gi_parity: "0 < m \<Longrightarrow> int (2 ^ m + b) smod 2 = 1 \<longleftrightarrow> odd b"
  by (cases m) (auto simp: smod_2_nat odd_iff_mod_2_eq_one simp del: of_nat_add)

lemma clamp_int: "(if int a \<le> int b then int a else int b) = int (min a b)"
  by (simp add: min_def)

text \<open>
  At level \<open>j\<close> the loop has \<open>genIdx = 2 ^ (d - j) + b\<close> and the block \<open>l..r\<close> of the \<open>2 ^ j\<close> leaves
  from \<open>b * 2 ^ j\<close>; it appends the root of the neighbouring block.
\<close>

lemma proof_path_block:
  assumes "length ls \<le> 2 ^ d" and "j \<le> d" and "b * 2 ^ j < length ls"
  shows "proof_path ls (int (2 ^ (d - j) + b)) (int (2 ^ j)) (int (b * 2 ^ j)) (int (b * 2 ^ j + 2 ^ j))
       = Inr (map (heap d ls) (siblings (2 ^ (d - j) + b) (d - j)))"
  using assms(2,3)
proof (induction "d - j" arbitrary: j b)
  case 0
  then have "j = d" by simp
  with 0 have "b * 2 ^ d < length ls" by simp
  also have "length ls \<le> 1 * 2 ^ d" using assms(1) by simp
  finally have "b = 0" by (simp only: mult_less_cancel2 less_one)
  with \<open>j = d\<close> show ?case by (subst proof_path.simps) simp
next
  case (Suc m)
  let ?gi = "2 ^ (d - j) + b"
  have m: "d - j = Suc m" "d - Suc j = m" and j: "Suc j \<le> d" using Suc.hyps(2) Suc.prems(1) by simp_all
  have "b * 2 ^ j < 2 ^ (d - j) * 2 ^ j"
    using Suc.prems assms(1) by (simp flip: power_add)
  then have b: "b < 2 ^ (d - j)" by simp
  have blt: "int (b * 2 ^ j) < int (length ls)" using Suc.prems(2) by linarith
  have "1 < (2 :: nat) ^ (d - j)" unfolding m by (rule one_less_power) simp_all
  then have gi: "1 < int ?gi" by linarith
  have half: "int ?gi sdiv 2 = int (2 ^ (d - Suc j) + b div 2)"
    using gi_half [of "Suc m" b] by (simp only: sdiv_2_nat m zero_less_Suc diff_Suc_1 simp_thms)
  have k: "int (2 ^ j) * 2 = int (2 ^ Suc j)" by simp
  have par: "(int ?gi smod 2 = 1) = odd b" using m by (intro gi_parity) simp
  have mk: "merkle s (int (2 ^ j)) = Inr (mroot j s)" for s using merkle_pow2 by simp
  have sibs: "siblings ?gi (d - j) = sibling ?gi # siblings (2 ^ (d - Suc j) + b div 2) (d - Suc j)"
    by (simp add: m)
  show ?case
  proof (cases "odd b")
    case True
    then obtain c where c: "b = 2 * c + 1" ..
    have l': "int (b * 2 ^ j) - int (2 ^ j) = int (c * 2 ^ Suc j)" by (simp add: c algebra_simps)
    have r: "int (b * 2 ^ j + 2 ^ j) = int (c * 2 ^ Suc j + 2 ^ Suc j)" by (simp add: c algebra_simps)
    have e: "(if int (b * 2 ^ j + 2 ^ j) - int (2 ^ j) \<ge> int (length ls) then int (length ls)
        else int (b * 2 ^ j + 2 ^ j) - int (2 ^ j)) = int (b * 2 ^ j)"
      using blt by simp
    have sl: "subslice ls (int (c * 2 ^ Suc j)) (int (b * 2 ^ j)) = Inr (take (2 ^ j) (drop (2 * c * 2 ^ j) ls))"
      using Suc.prems(2) by (subst subslice_nat) (simp_all add: c algebra_simps)
    have sib: "sibling ?gi = 2 ^ (d - j) + 2 * c" using c by (simp add: sibling_def m)
    have "mroot j (take (2 ^ j) (drop (2 * c * 2 ^ j) ls)) = heap d ls (sibling ?gi)"
      unfolding sib using Suc.prems(1) b c by (intro heap_block [symmetric]) simp_all
    moreover have "proof_path ls (int (2 ^ (d - Suc j) + b div 2)) (int (2 ^ Suc j)) (int (c * 2 ^ Suc j))
        (int (b * 2 ^ j + 2 ^ j)) = Inr (map (heap d ls) (siblings (2 ^ (d - Suc j) + b div 2) (d - Suc j)))"
      unfolding r using Suc.hyps(1) [of "Suc j" c] Suc.prems(2) j m by (simp add: c algebra_simps)
    ultimately show ?thesis
      using gi True
      by (subst proof_path.simps)
        (simp only: Let_def half k l' e sl bind_Inr mk sibs list.map par if_True simp_thms)
  next
    case False
    then obtain c where c: "b = 2 * c" by blast
    have r': "int (b * 2 ^ j + 2 ^ j) + int (2 ^ j) = int (c * 2 ^ Suc j + 2 ^ Suc j)"
      by (simp add: c algebra_simps)
    let ?e = "if int (c * 2 ^ Suc j + 2 ^ Suc j) \<ge> int (length ls) then int (length ls)
        else int (c * 2 ^ Suc j + 2 ^ Suc j)"
    have sl: "(if int (b * 2 ^ j) + int (2 ^ j) \<le> ?e then subslice ls (int (b * 2 ^ j) + int (2 ^ j)) ?e
        else subslice ls ?e ?e) = Inr (take (2 ^ j) (drop ((b + 1) * 2 ^ j) ls))"
    proof -
      have e: "?e = int (min (length ls) ((b + 1) * 2 ^ j + 2 ^ j))"
        unfolding clamp_int by (simp add: c algebra_simps)
      have sum: "int (b * 2 ^ j) + int (2 ^ j) = int ((b + 1) * 2 ^ j)" by simp
      show ?thesis unfolding e sum by (rule subslice_clamp)
    qed
    have sib: "sibling ?gi = 2 ^ (d - j) + (b + 1)" using c by (simp add: sibling_def m)
    have "b + 1 < 2 ^ (d - j)" using b c by (simp add: m)
    then have "mroot j (take (2 ^ j) (drop ((b + 1) * 2 ^ j) ls)) = heap d ls (sibling ?gi)"
      unfolding sib using Suc.prems(1) by (intro heap_block [symmetric]) simp_all
    moreover have "proof_path ls (int (2 ^ (d - Suc j) + b div 2)) (int (2 ^ Suc j)) (int (b * 2 ^ j))
        (int (c * 2 ^ Suc j + 2 ^ Suc j)) = Inr (map (heap d ls) (siblings (2 ^ (d - Suc j) + b div 2) (d - Suc j)))"
      using Suc.hyps(1) [of "Suc j" c] Suc.prems(2) j m by (simp add: c algebra_simps)
    ultimately show ?thesis
      using gi False
      by (subst proof_path.simps)
        (simp only: Let_def half k r' sl bind_Inr mk sibs list.map par if_True if_False simp_thms)
  qed
qed

text \<open>The index of a leaf in its tree, and the branch \<open>MakeProof\<close> returns for it.\<close>

definition tree_base :: "MerkleTree \<Rightarrow> nat" where
  "tree_base t = (if isList t then 2 ^ Suc (tree_depth t) else 2 ^ tree_depth t)"

definition tree_branch :: "MerkleTree \<Rightarrow> nat \<Rightarrow> hash list" where
  "tree_branch t i =
     map (heap (tree_depth t) (leaves t)) (siblings (2 ^ tree_depth t + i) (tree_depth t))
     @ (if isList t then [UintToHash (of_int (tlen t))] else [])"

lemma MakeProof_Inr:
  assumes "tree_wf t" and "i < length (leaves t)"
  shows "MerkleTree_MakeProof t (int i) = Inr \<lparr>genIndex = int (tree_base t + i), Path = tree_branch t i\<rparr>"
proof -
  let ?d = "tree_depth t"
  have "int i + limit t = int (2 ^ (?d - 0) + i)"
    using tree_wf_limit [OF assms(1)] by simp
  moreover have "proof_path (leaves t) (int (2 ^ (?d - 0) + i)) (int (2 ^ 0)) (int (i * 2 ^ 0)) (int (i * 2 ^ 0 + 2 ^ 0))
      = Inr (map (heap ?d (leaves t)) (siblings (2 ^ (?d - 0) + i) (?d - 0)))"
    using assms tree_wf_leaves by (intro proof_path_block) auto
  ultimately show ?thesis
    using assms tree_wf_limit [OF assms(1)]
    by (simp add: MerkleTree_MakeProof_def tree_branch_def tree_base_def ac_simps)
qed

lemma MakeProof_out_of_range:
  "idx < 0 \<or> int (length (leaves t)) \<le> idx \<Longrightarrow>
   MerkleTree_MakeProof t idx = Inl (Panic ''index out of bounds'')"
  by (auto simp: MerkleTree_MakeProof_def)

lemma length_tree_branch: "length (tree_branch t i) = tree_depth t + (if isList t then 1 else 0)"
  by (simp add: tree_branch_def)

lemma tree_base_branch: "tree_base t = 2 ^ length (tree_branch t i)"
  by (simp add: tree_base_def length_tree_branch)

lemma climb_tree_branch:
  assumes "tree_wf t" and "i < length (leaves t)"
  shows "climb node_hash (tree_base t + i) (tree_branch t i) (leaves t ! i) = tree_root t"
proof -
  let ?d = "tree_depth t" and ?h = "heap (tree_depth t) (leaves t)"
  let ?br = "map ?h (siblings (2 ^ ?d + i) ?d)"
  have i: "i < 2 ^ ?d" using assms tree_wf_leaves by fastforce
  have root: "climb node_hash (2 ^ ?d + i) ?br (leaves t ! i) = mroot ?d (leaves t)"
    using climb_heap [OF i, of "leaves t"] assms heap_root [OF tree_wf_leaves] by simp
  show ?thesis
  proof (cases "isList t")
    case False
    with root show ?thesis by (simp add: tree_base_def tree_branch_def tree_root_def)
  next
    case True
    have top: "(2 ^ Suc ?d + i) div 2 ^ ?d = 2" using i by (intro div_nat_eqI) auto
    have "climb node_hash (2 ^ Suc ?d + i) ?br (leaves t ! i) = mroot ?d (leaves t)"
      using root by (subst climb_mod [where gi' = "2 ^ ?d + i"]) simp_all
    with True top show ?thesis
      by (simp add: tree_base_def tree_branch_def tree_root_def climb_append)
  qed
qed

subsection \<open>ReconstructRoot climbs the branch\<close>

lemma reconstruct_loop_climb:
  assumes "gi div 2 ^ length ps = 1"
  shows "reconstruct_loop (qs @ ps) (int gi) (int (length qs)) leaf = Inr (climb node_hash gi ps leaf)"
  using assms
proof (induction ps arbitrary: qs gi leaf)
  case Nil
  then show ?case by (subst reconstruct_loop.simps) simp
next
  case (Cons p ps)
  have gi: "gi div 2 div 2 ^ length ps = 1"
    using Cons.prems by (simp add: div_mult2_eq [symmetric])
  then have "1 < gi" by (metis div_0 div_less less_2_cases_iff linorder_neqE_nat not_less_iff_gr_or_eq
      zero_neq_one One_nat_def div_by_1 less_one)
  moreover have "index (qs @ p # ps) (int (length qs)) = Inr p"
    using index_nat [of "length qs" "qs @ p # ps"] by simp
  moreover have "reconstruct_loop (qs @ p # ps) (int (gi div 2)) (int (length qs) + 1) leaf'
      = Inr (climb node_hash (gi div 2) ps leaf')" for leaf'
    using Cons.IH [OF gi, of "qs @ [p]" leaf'] by (simp add: add.commute)
  ultimately show ?case
    by (subst reconstruct_loop.simps)
      (auto simp: node_hash_def odd_iff_mod_2_eq_one simp del: of_nat_div)
qed

text \<open>The length check leaves no index that could run off the path.\<close>

lemma ReconstructRoot_climb:
  "MerkleProof_ReconstructRoot p data =
     (if genIndex p div 2 ^ length (Path p) = 1
      then Inr (climb node_hash (nat (genIndex p)) (Path p) data)
      else Inl (Panic ''invalid proof length''))"
proof (cases "genIndex p div 2 ^ length (Path p) = 1")
  case True
  then have pos: "0 \<le> genIndex p"
    by (metis div_neg_pos_less0 linorder_not_less not_one_less_zero zero_less_numeral zero_less_power
        order_less_irrefl zero_less_one order_less_trans)
  define gi where "gi = nat (genIndex p)"
  with pos have gi: "genIndex p = int gi" by simp
  with True have "int (gi div 2 ^ length (Path p)) = 1" by (simp add: zdiv_int)
  then have "gi div 2 ^ length (Path p) = 1" by linarith
  from reconstruct_loop_climb [OF this, of "[]" data] True show ?thesis
    by (simp add: MerkleProof_ReconstructRoot_def drop_bit_eq_div gi)
next
  case False
  then show ?thesis by (simp add: MerkleProof_ReconstructRoot_def drop_bit_eq_div)
qed

lemma tree_proof_index: "i < 2 ^ tree_depth t \<Longrightarrow> int (tree_base t + i) div 2 ^ length (tree_branch t i) = 1"
proof -
  assume "i < 2 ^ tree_depth t"
  then have "i < 2 ^ length (tree_branch t i)" by (simp add: length_tree_branch)
  then have "(tree_base t + i) div 2 ^ length (tree_branch t i) = 1"
    unfolding tree_base_branch [of t i] by (intro div_nat_eqI) auto
  then show ?thesis by (metis of_nat_1 of_nat_numeral of_nat_power zdiv_int)
qed

lemma ReconstructRoot_tree:
  assumes "tree_wf t" and "i < length (leaves t)"
  shows "MerkleProof_ReconstructRoot \<lparr>genIndex = int (tree_base t + i), Path = tree_branch t i\<rparr> data
       = Inr (climb node_hash (tree_base t + i) (tree_branch t i) data)"
  using assms tree_proof_index [of i t] tree_wf_leaves [OF assms(1)]
  by (simp add: ReconstructRoot_climb del: of_nat_add)

subsection \<open>Properties of single proofs\<close>

lemma climb_inputs_tree:
  assumes "tree_wf t" and "i < length (leaves t)"
    and "length (Path p) = length (tree_branch t i)"
    and "climb node_hash (tree_base t + i) (Path p) leaf = tree_root t"
    and "leaf \<noteq> leaves t ! i \<or> Path p \<noteq> tree_branch t i"
  shows "\<exists>c \<in> set (zip (climb_inputs (tree_base t + i) (Path p) leaf)
                     (climb_inputs (tree_base t + i) (tree_branch t i) (leaves t ! i))). sha_collision c"
  using climb_binding [OF assms(3), of "tree_base t + i" leaf "leaves t ! i"] assms(4,5)
    climb_tree_branch [OF assms(1,2)] by auto

lemma div_pow_eq_1_unique: "n div 2 ^ k = 1 \<Longrightarrow> n div 2 ^ l = 1 \<Longrightarrow> k = l" for n :: int
proof (induction k l rule: linorder_wlog)
  case (le k l)
  then obtain m where l: "l = k + m" using le_Suc_ex by blast
  have "n div 2 ^ l = n div 2 ^ k div 2 ^ m" by (simp add: l power_add zdiv_zmult2_eq)
  with le have "(1 :: int) div 2 ^ m = 1" by simp
  moreover have "(1 :: int) < 2 ^ m" if "m \<noteq> 0" using that by simp
  ultimately have "m = 0" using div_pos_pos_trivial [of 1 "2 ^ m :: int"] by fastforce
  with l show ?case by simp
qed auto



text \<open>C10. Soundness of single proofs: whatever proof and leaf reconstruct the root of a tree at
  the generalized index of leaf \<open>i\<close>, either the leaf is the tree's leaf \<open>i\<close> and the proof is the one
  \<^verbatim>\<open>MakeProof\<close> builds, or the hashes on the two paths contain a collision of SHA-256.\<close>

theorem ReconstructRoot_sound:
  assumes "tree_wf t" and "i < length (leaves t)"
    and "genIndex p = int (tree_base t + i)"
    and "MerkleProof_ReconstructRoot p leaf = MerkleTree_Hash t"
  shows "leaf = leaves t ! i \<and> MerkleTree_MakeProof t (int i) = Inr p
    \<or> (\<exists>c \<in> set (zip (climb_inputs (tree_base t + i) (Path p) leaf)
                   (climb_inputs (tree_base t + i) (tree_branch t i) (leaves t ! i))). sha_collision c)"
proof -
  have i: "i < 2 ^ tree_depth t" using assms(2) tree_wf_leaves [OF assms(1)] by simp
  have valid: "genIndex p div 2 ^ length (Path p) = 1"
    and root: "climb node_hash (tree_base t + i) (Path p) leaf = tree_root t"
    using assms(3,4) MerkleTree_Hash_root [OF assms(1)]
    by (auto simp: ReconstructRoot_climb split: if_splits simp del: of_nat_add)
  have "length (Path p) = length (tree_branch t i)"
    using div_pow_eq_1_unique [OF valid] tree_proof_index [OF i] by (simp only: assms(3))
  with climb_inputs_tree [OF assms(1,2) _ root] MakeProof_Inr [OF assms(1,2)] assms(3)
  show ?thesis by (cases p) auto
qed

theorem ReconstructRoot_sound_witness:
  "UintToHash 8 = UintToHash 8 \<and>
     MerkleTree_MakeProof \<lparr>isList = False, tlen = 0, limit = 2, leaves = [UintToHash 7, UintToHash 8]\<rparr> (int 1)
       = Inr \<lparr>genIndex = 3, Path = [UintToHash 7]\<rparr>
   \<or> (\<exists>c \<in> set (zip (climb_inputs 3 [UintToHash 7] (UintToHash 8))
        (climb_inputs 3 (tree_branch \<lparr>isList = False, tlen = 0, limit = 2, leaves = [UintToHash 7, UintToHash 8]\<rparr> 1)
          (UintToHash 8))). sha_collision c)"
proof -
  let ?t = "\<lparr>isList = False, tlen = 0, limit = 2, leaves = [UintToHash 7, UintToHash 8]\<rparr>"
  have wf: "tree_wf ?t" and depth: "tree_depth ?t = 1" using tree_wfI [of ?t 1] by simp_all
  have base: "tree_base ?t = 2" by (simp add: tree_base_def depth)
  have "MerkleProof_ReconstructRoot \<lparr>genIndex = 3, Path = [UintToHash 7]\<rparr> (UintToHash 8) = MerkleTree_Hash ?t"
    using MerkleTree_Hash_root [OF wf] by (simp add: ReconstructRoot_climb tree_root_def depth Let_def)
  then show ?thesis
    using ReconstructRoot_sound [OF wf, of 1 "\<lparr>genIndex = 3, Path = [UintToHash 7]\<rparr>" "UintToHash 8"]
    by (simp add: base)
qed

text \<open>C25. \<^verbatim>\<open>Hash\<close> computes the root of the perfect binary tree over the leaves padded with zero
  hashes to the limit, with the length mixed in for lists: the shortcuts for empty and half-empty
  subtrees only save hashing.\<close>

theorem Hash_is_padded_root:
  assumes "tree_wf t"
  defines "r \<equiv> mroot (tree_depth t) (leaves t @ replicate (2 ^ tree_depth t - length (leaves t)) zero_hash)"
  shows "MerkleTree_Hash t = Inr (if isList t then node_hash r (UintToHash (of_int (tlen t))) else r)"
  using MerkleTree_Hash_root [OF assms(1)] by (simp add: r_def tree_root_def mroot_pad)

theorem Hash_is_padded_root_witness:
  "MerkleTree_Hash \<lparr>isList = False, tlen = 0, limit = 4, leaves = [UintToHash 7, UintToHash 8, UintToHash 9]\<rparr>
   = Inr (node_hash (node_hash (UintToHash 7) (UintToHash 8)) (node_hash (UintToHash 9) zero_hash))"
proof -
  let ?t = "\<lparr>isList = False, tlen = 0, limit = 4, leaves = [UintToHash 7, UintToHash 8, UintToHash 9]\<rparr>"
  have "tree_wf ?t" and depth: "tree_depth ?t = 2" using tree_wfI [of ?t 2] by simp_all
  then show ?thesis using Hash_is_padded_root [of ?t] by (simp add: depth numeral_2_eq_2)
qed



text \<open>C27. The checked constructors establish the tree invariant: a vector tree of at most
  \<open>2 ^ 62\<close> leaves, and a list tree whose limit passes the code's two checks (a non-zero limit).\<close>

theorem constructors_wf:
  "(NewVectorMerkleTree ls = Inr t \<longrightarrow> tree_wf t \<and> leaves t = ls \<and> \<not> isList t)
   \<and> (NewListMerkleTree ls lim = Inr t \<and> lim \<noteq> 0 \<longrightarrow>
        tree_wf t \<and> leaves t = ls \<and> isList t \<and> tlen t = int (length ls) \<and> limit t = lim)"
  using NewVectorMerkleTree_wf NewListMerkleTree_wf by blast

theorem constructors_wf_witness:
  "tree_wf \<lparr>isList = False, tlen = 0, limit = 2, leaves = [UintToHash 7, UintToHash 8]\<rparr>
   \<and> tree_wf \<lparr>isList = True, tlen = 1, limit = 4, leaves = [UintToHash 7]\<rparr>"
proof
  have "NewVectorMerkleTree ([UintToHash 7, UintToHash 8]) = Inr \<lparr>isList = False, tlen = 0, limit = 2, leaves = [UintToHash 7, UintToHash 8]\<rparr>"
    using NewVectorMerkleTree_Inr [of "[UintToHash 7, UintToHash 8]"] log2_up_pow2 [of 1]
    by (simp add: numeral_2_eq_2 [symmetric])
  then show "tree_wf \<lparr>isList = False, tlen = 0, limit = 2, leaves = [UintToHash 7, UintToHash 8]\<rparr>"
    using constructors_wf by blast
  have "NewListMerkleTree [UintToHash 7] 4 = Inr \<lparr>isList = True, tlen = 1, limit = 4, leaves = [UintToHash 7]\<rparr>"
    by (simp add: NewListMerkleTree_def)
  then show "tree_wf \<lparr>isList = True, tlen = 1, limit = 4, leaves = [UintToHash 7]\<rparr>"
    using constructors_wf [of "[UintToHash 7]" _ 4] by simp
qed

end
