(* ===== verification/Externals.thy ===== *)
theory Externals
  imports Go_Values
begin

section \<open>Third-party data and functions the oracle uses\<close>

text \<open>
  The oracle computes on the consensus objects of prysm's generated package \<^verbatim>\<open>ethpb2\<close> and
  calls helpers of go-ethereum, prysm, go-bitfield and blst. None of that is code of the
  repository. The objects are records with the fields the oracle reads (a message that is only ever
  passed to \<^verbatim>\<open>HashTreeRoot\<close> is kept as an opaque \<open>message\<close>, its encoding); the functions are
  the fields of the record \<open>lib\<close>, an argument of every definition that uses one. What the
  oracle relies on is stated by the predicates at the end, after the documentation of those
  packages; a theorem that needs one names it as a hypothesis.
\<close>

subsection \<open>Consensus objects\<close>

type_synonym message = "byte list"

record Checkpoint =
  cp_Epoch :: u64
  cp_Root :: "byte list"

record SyncCommitteeMsg =
  sc_Pubkeys :: "byte list list"
  sc_AggregatePubkey :: "byte list"

record ExecutionPayloadHeader =
  ep_ParentHash :: "byte list"
  ep_FeeRecipient :: "byte list"
  ep_StateRoot :: "byte list"
  ep_ReceiptsRoot :: "byte list"
  ep_LogsBloom :: "byte list"
  ep_PrevRandao :: "byte list"
  ep_BlockNumber :: u64
  ep_GasLimit :: u64
  ep_GasUsed :: u64
  ep_Timestamp :: u64
  ep_ExtraData :: "byte list"
  ep_BaseFeePerGas :: "byte list"
  ep_BlockHash :: "byte list"
  ep_TransactionsRoot :: "byte list"

record BeaconState =
  st_GenesisTime :: u64
  st_GenesisValidatorsRoot :: "byte list"
  st_Slot :: u64
  st_Fork :: message
  st_LatestBlockHeader :: message
  st_BlockRoots :: "byte list list"
  st_StateRoots :: "byte list list"
  st_HistoricalRoots :: "byte list list"
  st_Eth1Data :: message
  st_Eth1DataVotes :: "message list"
  st_Eth1DepositIndex :: u64
  st_Validators :: "message list"
  st_Balances :: "u64 list"
  st_RandaoMixes :: "byte list list"
  st_Slashings :: "u64 list"
  st_PreviousEpochParticipation :: "byte list"
  st_CurrentEpochParticipation :: "byte list"
  st_JustificationBits :: "byte list"
  st_PreviousJustifiedCheckpoint :: Checkpoint
  st_CurrentJustifiedCheckpoint :: Checkpoint
  st_FinalizedCheckpoint :: Checkpoint
  st_InactivityScores :: "u64 list"
  st_CurrentSyncCommittee :: SyncCommitteeMsg
  st_NextSyncCommittee :: SyncCommitteeMsg
  st_LatestExecutionPayloadHeader :: ExecutionPayloadHeader

text \<open>
  A block: of the execution payload, which may be a nil pointer, the oracle reads the block number;
  the bits and the signature are the two fields of the sync aggregate; \<open>bd_message\<close> is the whole
  body, for hashing.
\<close>

record BlockBody =
  bd_SyncCommitteeBits :: "byte list"
  bd_SyncCommitteeSignature :: "byte list"
  bd_ExecutionPayload :: "u64 option"
  bd_message :: message

record BeaconBlock =
  bk_Slot :: u64
  bk_ProposerIndex :: u64
  bk_ParentRoot :: "byte list"
  bk_StateRoot :: "byte list"
  bk_Body :: BlockBody

text \<open>The values with a method \<^verbatim>\<open>HashTreeRoot() ([32]byte, error)\<close>.\<close>

datatype ssz_object =
    ForkObj message
  | BlockHeaderObj message
  | Eth1DataObj message
  | ValidatorObj message
  | CheckpointObj Checkpoint
  | SyncCommitteeObj SyncCommitteeMsg
  | PayloadHeaderObj ExecutionPayloadHeader
  | BodyObj BlockBody

subsection \<open>Library functions\<close>

record lib =
  BytesToHash :: "byte list \<Rightarrow> hash"                      \<comment> \<open>go-ethereum common\<close>
  FromHex :: "string \<Rightarrow> byte list"                          \<comment> \<open>go-ethereum common\<close>
  HexToHash :: "string \<Rightarrow> hash"                             \<comment> \<open>go-ethereum common\<close>
  HashString :: "hash \<Rightarrow> string"                            \<comment> \<open>\<^verbatim>\<open>common.Hash.String\<close>\<close>
  EncodeHex :: "byte list \<Rightarrow> string"                        \<comment> \<open>go-ethereum hexutil\<close>
  PadTo :: "byte list \<Rightarrow> nat \<Rightarrow> byte list"                  \<comment> \<open>prysm bytesutil\<close>
  HashTreeRoot :: "ssz_object \<Rightarrow> hash go"                   \<comment> \<open>prysm, generated\<close>
  BitsCount :: "byte list \<Rightarrow> u64"                           \<comment> \<open>\<^verbatim>\<open>Bitvector512.Count\<close>\<close>
  BitAt :: "byte list \<Rightarrow> u64 \<Rightarrow> bool"                       \<comment> \<open>\<^verbatim>\<open>Bitvector512.BitAt\<close>\<close>
  BitsBytes :: "byte list \<Rightarrow> byte list"                     \<comment> \<open>\<^verbatim>\<open>Bitvector512.Bytes\<close>\<close>
  Bits4Bytes :: "byte list \<Rightarrow> byte list"                    \<comment> \<open>\<^verbatim>\<open>Bitvector4.Bytes\<close>\<close>

subsection \<open>What their documentation says\<close>

text \<open>
  \<^verbatim>\<open>BytesToHash sets b to hash. If b is larger than len(h), b will be cropped from the left.\<close>
  A shorter argument fills the hash from the right.
\<close>

definition BytesToHash_doc :: "lib \<Rightarrow> bool" where
  "BytesToHash_doc L \<longleftrightarrow>
     (\<forall>bs. Bytes (BytesToHash L bs) =
        (if 32 < length bs then drop (length bs - 32) bs else replicate (32 - length bs) 0 @ bs))"

text \<open>\<^verbatim>\<open>PadTo pads a byte slice to the given size\<close>, on the right, and keeps a longer one.\<close>

definition PadTo_doc :: "lib \<Rightarrow> bool" where
  "PadTo_doc L \<longleftrightarrow> (\<forall>bs n. PadTo L bs n = bs @ replicate (n - length bs) 0)"

text \<open>A \<^verbatim>\<open>Bitvector512\<close> of the right length: bit \<open>i\<close> of a bit vector is bit \<open>i mod 8\<close> of byte \<open>i div 8\<close>; past the end it reads 0.\<close>

definition bits_nth :: "byte list \<Rightarrow> nat \<Rightarrow> bool" where
  "bits_nth bs i \<longleftrightarrow> i div 8 < length bs \<and> bit (bs ! (i div 8)) (i mod 8)"

definition Bitvector_doc :: "lib \<Rightarrow> bool" where
  "Bitvector_doc L \<longleftrightarrow>
     (\<forall>bs. length bs = 64 \<longrightarrow>
        (\<forall>i. BitAt L bs i = bits_nth bs (unat i)) \<and> BitsBytes L bs = bs
        \<and> unat (BitsCount L bs) = length (filter (bits_nth bs) [0 ..< 512]))"

lemma BytesToHash_32: "BytesToHash_doc L \<Longrightarrow> length bs = 32 \<Longrightarrow> Bytes (BytesToHash L bs) = bs"
  by (simp add: BytesToHash_doc_def)

lemma BytesToHash_Bytes [simp]: "BytesToHash_doc L \<Longrightarrow> BytesToHash L (Bytes h) = h"
  by (simp add: Bytes_eq_iff [symmetric] BytesToHash_32)

end
