(* ===== verification/Ssz_Hash.thy ===== *)
theory Ssz_Hash
  imports Merkle_Tree Externals
begin

section \<open>SSZ hashing of vectors and lists (oracle/crypto/ssz.go)\<close>

text \<open>
  The functions that hash the variable-sized fields of a beacon state. Roots of composite elements
  come from \<^verbatim>\<open>HashTreeRoot\<close>; basic values are packed little-endian into 32-byte chunks. The
  length of a list is mixed into its root.
\<close>

definition MustHashTreeRoot :: "lib \<Rightarrow> ssz_object \<Rightarrow> hash go" where
  "MustHashTreeRoot L x = bind (must (HashTreeRoot L x)) (\<lambda>h. Inr (BytesToHash L (Bytes h)))"

definition HashRootsVector :: "lib \<Rightarrow> byte list list \<Rightarrow> hash go" where
  "HashRootsVector L rs = bind (NewVectorMerkleTree (map (BytesToHash L) rs)) MerkleTree_Hash"

definition HashRootsList :: "lib \<Rightarrow> byte list list \<Rightarrow> int \<Rightarrow> hash go" where
  "HashRootsList L rs lim = bind (NewListMerkleTree (map (BytesToHash L) rs) lim) MerkleTree_Hash"

definition HashEth1Datas :: "lib \<Rightarrow> message list \<Rightarrow> int \<Rightarrow> hash go" where
  "HashEth1Datas L ds lim =
     bind (map_go (\<lambda>d. MustHashTreeRoot L (Eth1DataObj d)) ds) (\<lambda>chunks.
     bind (NewListMerkleTree chunks lim) MerkleTree_Hash)"

definition HashValidators :: "lib \<Rightarrow> message list \<Rightarrow> int \<Rightarrow> hash go" where
  "HashValidators L vs lim =
     bind (map_go (\<lambda>v. MustHashTreeRoot L (ValidatorObj v)) vs) (\<lambda>chunks.
     bind (NewListMerkleTree chunks lim) MerkleTree_Hash)"

text \<open>The eight-byte windows \<^verbatim>\<open>data[i*8:]\<close> are disjoint and cover the buffer.\<close>

definition pack_uint64 :: "u64 list \<Rightarrow> byte list" where
  "pack_uint64 vs = concat (map put_uint64_le vs)"

definition HashUint64List :: "u64 list \<Rightarrow> int \<Rightarrow> hash go" where
  "HashUint64List vs lim =
     MerkleTree_Hash (NewPackedListMerkleTree (pack_uint64 vs) (int (length vs)) (lim sdiv 4))"

definition HashUint64Vector :: "u64 list \<Rightarrow> hash go" where
  "HashUint64Vector vs = bind (NewPackedVectorMerkleTree (pack_uint64 vs)) MerkleTree_Hash"

definition HashUint8List :: "byte list \<Rightarrow> int \<Rightarrow> hash go" where
  "HashUint8List vs lim = MerkleTree_Hash (NewPackedListMerkleTree vs (int (length vs)) (lim sdiv 32))"

text \<open>\<^verbatim>\<open>HexToMerkleHash\<close> and \<^verbatim>\<open>BytesToMerkleHash\<close> of merkleization.go\<close>

definition BytesToMerkleHash :: "byte list \<Rightarrow> hash go" where
  "BytesToMerkleHash bs = bind (NewVectorMerkleTree (BytesToChunks bs)) MerkleTree_Hash"

definition HexToMerkleHash :: "lib \<Rightarrow> string \<Rightarrow> hash go" where
  "HexToMerkleHash L s = BytesToMerkleHash (FromHex L s)"

subsection \<open>Packing loses nothing\<close>

lemma length_pack_uint64 [simp]: "length (pack_uint64 vs) = 8 * length vs"
  by (induction vs) (auto simp: pack_uint64_def)

lemma pack_uint64_Nil [simp]: "pack_uint64 [] = []"
  and pack_uint64_Cons [simp]: "pack_uint64 (v # vs) = put_uint64_le v @ pack_uint64 vs"
  by (simp_all add: pack_uint64_def)

lemma pack_uint64_inject: "length vs = length ws \<Longrightarrow> pack_uint64 vs = pack_uint64 ws \<longleftrightarrow> vs = ws"
  by (induction vs ws rule: list_induct2) auto

lemma BytesToChunks_inject:
  assumes "length bs = length cs" and "BytesToChunks bs = BytesToChunks cs"
  shows "bs = cs"
proof -
  have "bs @ replicate (32 * length (BytesToChunks bs) - length bs) 0
      = cs @ replicate (32 * length (BytesToChunks cs) - length cs) 0"
    using assms(2) by (metis concat_BytesToChunks)
  with assms show ?thesis by simp
qed

text \<open>The value at position \<open>i\<close> sits in chunk \<open>i div 4\<close>, at byte \<open>8 * (i mod 4)\<close>.\<close>

lemma take_drop_pack: "i < length vs \<Longrightarrow> take 8 (drop (8 * i) (pack_uint64 vs)) = put_uint64_le (vs ! i)"
proof (induction vs arbitrary: i)
  case (Cons v vs)
  then show ?case by (cases i) auto
qed simp

lemma chunk_bytes: "k < length (BytesToChunks bs) \<Longrightarrow>
  Bytes (BytesToChunks bs ! k) = take 32 (drop (32 * k) bs @ replicate 32 0)"
proof (induction bs arbitrary: k rule: BytesToChunks.induct)
  case (1 bs)
  then have ne: "bs \<noteq> []" by auto
  show ?case
  proof (cases k)
    case 0
    with ne show ?thesis by (simp add: BytesToChunks_step Bytes_copy_hash)
  next
    case (Suc j)
    with ne "1.prems" "1.IH" [of j] show ?thesis by (simp add: BytesToChunks_step add.commute)
  qed
qed

lemma packed_chunk_value:
  assumes "i < length vs"
  shows "take 8 (drop (8 * (i mod 4)) (Bytes (BytesToChunks (pack_uint64 vs) ! (i div 4)))) = put_uint64_le (vs ! i)"
proof -
  let ?p = "pack_uint64 vs"
  have off: "32 * (i div 4) + 8 * (i mod 4) = 8 * i" by presburger
  have k: "i div 4 < length (BytesToChunks ?p)" using assms by (simp add: length_BytesToChunks)
  have "8 * (i mod 4) + 8 \<le> (32 :: nat)" by presburger
  then have "take 8 (drop (8 * (i mod 4)) (take 32 (drop (32 * (i div 4)) ?p @ replicate 32 0)))
      = take 8 (drop (8 * (i mod 4)) (drop (32 * (i div 4)) ?p @ replicate 32 0))"
    by (rule take_drop_take)
  also have "drop (8 * (i mod 4)) (drop (32 * (i div 4)) ?p @ replicate 32 0)
      = drop (8 * i) ?p @ replicate 32 0"
  proof -
    have "8 * (i mod 4) \<le> length (drop (32 * (i div 4)) ?p)" using assms off by simp
    then show ?thesis by (simp only: drop_append drop_drop add.commute [of "8 * _"] off) simp
  qed
  also have "take 8 (drop (8 * i) ?p @ replicate 32 0) = take 8 (drop (8 * i) ?p)"
    using assms by simp
  finally show ?thesis using k assms by (simp add: chunk_bytes take_drop_pack)
qed

subsection \<open>The roots\<close>

lemma HashUint64List_root:
  "HashUint64List vs (4 * 2 ^ k) =
     Inr (node_hash (mroot k (BytesToChunks (pack_uint64 vs))) (UintToHash (of_nat (length vs))))"
proof -
  have "(4 * 2 ^ k :: int) sdiv 4 = 2 ^ k" by (simp add: signed_divide_int_def)
  then show ?thesis
    by (simp add: HashUint64List_def NewPackedListMerkleTree_def MerkleTree_Hash_def merkle_pow2 node_hash_def)
qed

lemma HashUint8List_root:
  "HashUint8List vs (32 * 2 ^ k) =
     Inr (node_hash (mroot k (BytesToChunks vs)) (UintToHash (of_nat (length vs))))"
proof -
  have "(32 * 2 ^ k :: int) sdiv 32 = 2 ^ k" by (simp add: signed_divide_int_def)
  then show ?thesis
    by (simp add: HashUint8List_def NewPackedListMerkleTree_def MerkleTree_Hash_def merkle_pow2 node_hash_def)
qed

lemma HashRootsVector_root:
  "length rs \<le> 2 ^ 62 \<Longrightarrow>
   HashRootsVector L rs = Inr (mroot (log2_up (length rs)) (map (BytesToHash L) rs))"
  by (simp add: HashRootsVector_def NewVectorMerkleTree_Hash)

lemma HashRootsList_root:
  "length rs \<le> 2 ^ k \<Longrightarrow>
   HashRootsList L rs (2 ^ k) = Inr (node_hash (mroot k (map (BytesToHash L) rs)) (UintToHash (of_nat (length rs))))"
proof -
  assume le: "length rs \<le> 2 ^ k"
  have pow: "(2 ^ k :: int) AND (2 ^ k - 1) = 0"
    unfolding mask_eq_exp_minus_1 [symmetric] by (rule bit_eqI) (auto simp: bit_and_iff bit_exp_iff bit_mask_iff)
  have "\<not> (2 ^ k :: int) < int (length rs)" using le by (simp flip: of_nat_power)
  then show ?thesis
    by (simp add: HashRootsList_def NewListMerkleTree_def pow MerkleTree_Hash_def merkle_pow2 node_hash_def)
qed

lemma BytesToMerkleHash_chunk:
  assumes "bs \<noteq> []" and "length bs \<le> 32"
  shows "BytesToMerkleHash bs = Inr (copy_hash bs)"
proof -
  have "BytesToChunks bs = [copy_hash bs]" using assms by (simp add: BytesToChunks_step)
  then show ?thesis
    using NewVectorMerkleTree_Hash [of "[copy_hash bs]"] log2_up_pow2 [of 0]
    by (simp add: BytesToMerkleHash_def)
qed

subsection \<open>Roots bind the leaves\<close>

text \<open>The inputs hashed while a root is computed.\<close>

fun mroot_inputs :: "nat \<Rightarrow> hash list \<Rightarrow> byte list list" where
  "mroot_inputs 0 xs = []"
| "mroot_inputs (Suc k) xs =
     (Bytes (mroot k (take (2 ^ k) xs)) @ Bytes (mroot k (drop (2 ^ k) xs)))
     # mroot_inputs k (take (2 ^ k) xs) @ mroot_inputs k (drop (2 ^ k) xs)"

lemma length_mroot_inputs: "length (mroot_inputs k xs) = length (mroot_inputs k ys)"
  by (induction k arbitrary: xs ys) (auto, metis)

lemma mroot_binding:
  assumes "length xs = length ys" and "length xs \<le> 2 ^ k" and "mroot k xs = mroot k ys" and "xs \<noteq> ys"
  shows "\<exists>c \<in> set (zip (mroot_inputs k xs) (mroot_inputs k ys)). sha_collision c"
  using assms
proof (induction k arbitrary: xs ys)
  case 0
  then show ?case by (cases xs; cases ys) auto
next
  case (Suc k)
  let ?l = "mroot k (take (2 ^ k) xs)" and ?r = "mroot k (drop (2 ^ k) xs)"
  let ?l' = "mroot k (take (2 ^ k) ys)" and ?r' = "mroot k (drop (2 ^ k) ys)"
  have eq: "node_hash ?l ?r = node_hash ?l' ?r'" using Suc.prems(3) by simp
  have zip: "set (zip (mroot_inputs (Suc k) xs) (mroot_inputs (Suc k) ys)) =
      insert (Bytes ?l @ Bytes ?r, Bytes ?l' @ Bytes ?r')
        (set (zip (mroot_inputs k (take (2 ^ k) xs)) (mroot_inputs k (take (2 ^ k) ys)))
         \<union> set (zip (mroot_inputs k (drop (2 ^ k) xs)) (mroot_inputs k (drop (2 ^ k) ys))))"
    by (simp add: zip_append length_mroot_inputs)
  show ?case
  proof (cases "(?l, ?r) = (?l', ?r')")
    case False
    then show ?thesis using node_hash_collision [OF eq] zip by auto
  next
    case True
    show ?thesis
    proof (cases "take (2 ^ k) xs = take (2 ^ k) ys")
      case False
      then have "\<exists>c \<in> set (zip (mroot_inputs k (take (2 ^ k) xs)) (mroot_inputs k (take (2 ^ k) ys))). sha_collision c"
        using True Suc.prems(1) by (intro Suc.IH) auto
      then show ?thesis unfolding zip by blast
    next
      case same: True
      then have "drop (2 ^ k) xs \<noteq> drop (2 ^ k) ys"
        using Suc.prems(4) by (metis append_take_drop_id)
      then have "\<exists>c \<in> set (zip (mroot_inputs k (drop (2 ^ k) xs)) (mroot_inputs k (drop (2 ^ k) ys))). sha_collision c"
        using True Suc.prems(1,2) by (intro Suc.IH) auto
      then show ?thesis unfolding zip by blast
    qed
  qed
qed

end
