(* ===== verification/Bls_Points.thy ===== *)
theory Bls_Points
  imports Ssz_Hash
begin

section \<open>BLS12-381 points as the contracts read them (oracle/crypto/bls.go)\<close>

text \<open>
  The oracle leaves the curve arithmetic to prysm and blst; what it does itself is to cut blst's
  big-endian serialisation into the integers that the contracts take. The library is the record
  \<open>bls\<close>, over abstract types of public keys and signatures: decoding from bytes, the compressed
  encoding (\<^verbatim>\<open>Marshal\<close>), aggregation, and \<^verbatim>\<open>Uncompress(\<dots>).Serialize()\<close> of the two groups.
  The model reads the value that \<^verbatim>\<open>Aggregate\<close> returns.
\<close>

record ('pk, 'sig) bls =
  PublicKeyFromBytes :: "byte list \<Rightarrow> 'pk go"
  PkMarshal :: "'pk \<Rightarrow> byte list"
  PkAggregate :: "'pk \<Rightarrow> 'pk \<Rightarrow> 'pk"
  SignatureFromBytes :: "byte list \<Rightarrow> 'sig go"
  SigMarshal :: "'sig \<Rightarrow> byte list"
  SigVerify :: "'sig \<Rightarrow> 'pk \<Rightarrow> byte list \<Rightarrow> bool"
  P1Serialize :: "byte list \<Rightarrow> byte list go"
  P2Serialize :: "byte list \<Rightarrow> byte list go"

record Fp =
  fp_A :: int
  fp_B :: int

record 'pk G1Point =
  g1_raw :: 'pk
  g1_X :: Fp
  g1_Y :: Fp

record 'pk G1PointCompressed =
  g1c_raw :: 'pk
  g1c_A :: int
  g1c_XB :: int
  g1c_YB :: int

record Fp2 =
  fp2_A :: Fp
  fp2_B :: Fp

record 'sig G2Point =
  g2_raw :: 'sig
  g2_X :: Fp2
  g2_Y :: Fp2

text \<open>\<^verbatim>\<open>big.NewInt(0).SetBytes(b)\<close>\<close>

definition SetBytes :: "byte list \<Rightarrow> int" where
  "SetBytes bs = int (be_nat bs)"

text \<open>\<^verbatim>\<open>Fp{A: SetBytes(b[lo:lo+16]), B: SetBytes(b[lo+16:lo+48])}\<close>\<close>

definition fp_at :: "byte list \<Rightarrow> int \<Rightarrow> Fp go" where
  "fp_at b lo = bind (subslice b lo (lo + 16)) (\<lambda>a. bind (subslice b (lo + 16) (lo + 48)) (\<lambda>c.
     Inr \<lparr>fp_A = SetBytes a, fp_B = SetBytes c\<rparr>))"

definition PkToG1 :: "('pk, 'sig) bls \<Rightarrow> 'pk \<Rightarrow> 'pk G1Point go" where
  "PkToG1 B pk =
     bind (P1Serialize B (PkMarshal B pk)) (\<lambda>b.
     bind (fp_at b 0) (\<lambda>x. bind (fp_at b 48) (\<lambda>y.
     Inr \<lparr>g1_raw = pk, g1_X = x, g1_Y = y\<rparr>)))"

definition PkToG1Compressed :: "('pk, 'sig) bls \<Rightarrow> 'pk \<Rightarrow> 'pk G1PointCompressed go" where
  "PkToG1Compressed B pk =
     bind (P1Serialize B (PkMarshal B pk)) (\<lambda>b.
     bind (subslice b 48 64) (\<lambda>ya. bind (subslice b 0 16) (\<lambda>xa.
     bind (subslice b 16 48) (\<lambda>xb. bind (subslice b 64 96) (\<lambda>yb.
     Inr \<lparr>g1c_raw = pk, g1c_A = SetBytes (ya @ xa), g1c_XB = SetBytes xb, g1c_YB = SetBytes yb\<rparr>)))))"

definition SigToG2 :: "('pk, 'sig) bls \<Rightarrow> 'sig \<Rightarrow> 'sig G2Point go" where
  "SigToG2 B sig =
     bind (P2Serialize B (SigMarshal B sig)) (\<lambda>b.
     bind (fp_at b 0) (\<lambda>xb. bind (fp_at b 48) (\<lambda>xa.
     bind (fp_at b 96) (\<lambda>yb. bind (fp_at b 144) (\<lambda>ya.
     Inr \<lparr>g2_raw = sig, g2_X = \<lparr>fp2_A = xa, fp2_B = xb\<rparr>, g2_Y = \<lparr>fp2_A = ya, fp2_B = yb\<rparr>\<rparr>)))))"

definition MustDecodePK :: "('pk, 'sig) bls \<Rightarrow> byte list \<Rightarrow> 'pk G1Point go" where
  "MustDecodePK B b = bind (must (PublicKeyFromBytes B b)) (PkToG1 B)"

definition MustDecodePKCompressed :: "('pk, 'sig) bls \<Rightarrow> byte list \<Rightarrow> 'pk G1PointCompressed go" where
  "MustDecodePKCompressed B b = bind (must (PublicKeyFromBytes B b)) (PkToG1Compressed B)"

definition MustDecodeSig :: "('pk, 'sig) bls \<Rightarrow> byte list \<Rightarrow> 'sig G2Point go" where
  "MustDecodeSig B b = bind (must (SignatureFromBytes B b)) (SigToG2 B)"

definition Verify :: "('pk, 'sig) bls \<Rightarrow> hash \<Rightarrow> hash \<Rightarrow> 'pk G1Point \<Rightarrow> 'sig G2Point \<Rightarrow> bool" where
  "Verify B h domainRoot pk sig =
     (let root = Sha256Hash [Bytes h, Bytes domainRoot] in SigVerify B (g2_raw sig) (g1_raw pk) (Bytes root))"

definition AddG1Points ::
  "('pk, 'sig) bls \<Rightarrow> 'pk G1Point option \<Rightarrow> 'pk G1PointCompressed \<Rightarrow> 'pk G1Point go"
where
  "AddG1Points B a b =
     (case a of None \<Rightarrow> PkToG1 B (g1c_raw b)
      | Some a \<Rightarrow> PkToG1 B (PkAggregate B (g1_raw a) (g1c_raw b)))"

definition HashG1PointCompressed :: "lib \<Rightarrow> ('pk, 'sig) bls \<Rightarrow> 'pk G1PointCompressed \<Rightarrow> hash" where
  "HashG1PointCompressed L B p = Sha256Hash [PadTo L (PkMarshal B (g1c_raw p)) 64]"

text \<open>\<^verbatim>\<open>(*G1Point).String\<close>; on a nil receiver the field access panics.\<close>

definition G1Point_String :: "lib \<Rightarrow> ('pk, 'sig) bls \<Rightarrow> 'pk G1Point option \<Rightarrow> string go" where
  "G1Point_String L B p =
     (case p of None \<Rightarrow> Inl (Panic ''nil pointer dereference'')
      | Some p \<Rightarrow> Inr (EncodeHex L (PkMarshal B (g1_raw p))))"

subsection \<open>Splitting loses nothing\<close>

lemma subslice_num [simp]:
  "numeral hi \<le> length b \<Longrightarrow> numeral lo \<le> (numeral hi :: nat) \<Longrightarrow>
     subslice b (numeral lo) (numeral hi) = Inr (take (numeral hi - numeral lo) (drop (numeral lo) b))"
  "numeral hi \<le> length b \<Longrightarrow> subslice b 0 (numeral hi) = Inr (take (numeral hi) b)"
  using subslice_nat [of "numeral lo" "numeral hi" b] subslice_nat [of 0 "numeral hi" b] by simp_all

definition fp_of :: "byte list \<Rightarrow> Fp" where
  "fp_of l = \<lparr>fp_A = SetBytes (take 16 l), fp_B = SetBytes (take 32 (drop 16 l))\<rparr>"

lemma fp_at_of: "n + 48 \<le> length b \<Longrightarrow> fp_at b (int n) = Inr (fp_of (take 48 (drop n b)))"
proof -
  assume n: "n + 48 \<le> length b"
  have "subslice b (int n) (int n + 16) = Inr (take 16 (drop n b))"
    using n subslice_nat [of n "n + 16" b] by (simp add: add.commute)
  moreover have "subslice b (int n + 16) (int n + 48) = Inr (take 32 (drop (n + 16) b))"
    using n subslice_nat [of "n + 16" "n + 48" b] by (simp add: add.commute)
  ultimately show ?thesis by (simp add: fp_at_def fp_of_def drop_take add.commute)
qed

text \<open>A field element of 48 bytes is \<open>A * 2 ^ 256 + B\<close>, with \<open>A\<close> below \<open>2 ^ 128\<close>.\<close>

lemma fp_of_value:
  assumes "length l = 48"
  shows "fp_A (fp_of l) * 2 ^ 256 + fp_B (fp_of l) = SetBytes l"
    and "fp_A (fp_of l) < 2 ^ 128" and "fp_B (fp_of l) < 2 ^ 256"
    and "0 \<le> fp_A (fp_of l)" and "0 \<le> fp_B (fp_of l)"
proof -
  have l: "l = take 16 l @ take 32 (drop 16 l)" using assms by simp
  have "be_nat l = be_nat (take 16 l) * 256 ^ 32 + be_nat (take 32 (drop 16 l))"
    by (subst l, subst be_nat_append) (simp add: assms)
  then show "fp_A (fp_of l) * 2 ^ 256 + fp_B (fp_of l) = SetBytes l"
    by (simp add: fp_of_def SetBytes_def)
  show "fp_A (fp_of l) < 2 ^ 128"
    using be_nat_less [of "take 16 l"] assms by (simp add: fp_of_def SetBytes_def)
  show "fp_B (fp_of l) < 2 ^ 256"
    using be_nat_less [of "take 32 (drop 16 l)"] assms by (simp add: fp_of_def SetBytes_def)
qed (simp_all add: fp_of_def SetBytes_def)

lemma PkToG1_Inr:
  assumes "P1Serialize B (PkMarshal B pk) = Inr b" and "length b = 96"
  shows "PkToG1 B pk = Inr \<lparr>g1_raw = pk, g1_X = fp_of (take 48 b), g1_Y = fp_of (drop 48 b)\<rparr>"
  using assms fp_at_of [of 0 b] fp_at_of [of 48 b] by (simp add: PkToG1_def)

lemma PkToG1Compressed_Inr:
  assumes "P1Serialize B (PkMarshal B pk) = Inr b" and "length b = 96"
  shows "PkToG1Compressed B pk = Inr \<lparr>g1c_raw = pk,
     g1c_A = fp_A (fp_of (drop 48 b)) * 2 ^ 128 + fp_A (fp_of (take 48 b)),
     g1c_XB = fp_B (fp_of (take 48 b)), g1c_YB = fp_B (fp_of (drop 48 b))\<rparr>"
  using assms
  by (simp add: PkToG1Compressed_def SetBytes_def fp_of_def be_nat_append drop_take)

end
