(* ===== verification/Config.thy ===== *)
theory Config
  imports Go_Values
begin

section \<open>Configuration (oracle/config/config.go)\<close>

text \<open>
  The configuration structs, with \<open>None\<close> for an absent optional section. The chain parameters may
  also come from a beacon node (\<open>ModelSpecData\<close> of the theory \<open>Beacon_Client\<close>). An address is its
  20 bytes, a \<^verbatim>\<open>time.Time\<close> its Unix seconds. Opening the file and decoding YAML (with unknown
  fields refused) are parameters.
\<close>

record HTTPClientConfig =
  URL :: string

record Eth1Config =
  e1_Client :: HTTPClientConfig
  e1_Contract :: "byte list"
  e1_Keystore :: string
  e1_KeystorePassword :: string

record GenesisConfig =
  GenesisTime :: int
  GenesisValidatorsRoot :: hash

record SpecConfig =
  SecondsPerSlot :: u64
  SlotsPerEpoch :: u64
  AltairForkEpoch :: u64
  AltairForkVersion :: string
  BellatrixForkEpoch :: u64
  BellatrixForkVersion :: string
  EpochsPerSyncCommitteePeriod :: u64
  SyncCommitteeSize :: int
  ValidatorRegistryLimit :: int
  HistoricalRootsLimit :: int
  EpochsPerEth1VotingPeriod :: u64
  SlotsPerHistoricalRoot :: u64

record Eth2Config =
  e2_Client :: HTTPClientConfig
  e2_Genesis :: "GenesisConfig option"
  e2_Spec :: "SpecConfig option"

record Config =
  Eth1 :: "Eth1Config option"
  Eth2 :: Eth2Config

definition ReadFromFile ::
  "(string \<Rightarrow> byte list go) \<Rightarrow> (byte list \<Rightarrow> Config go) \<Rightarrow> string \<Rightarrow> Config go"
where
  "ReadFromFile open_file decode_yaml file =
     bind (wrap_err ''can't open config file'' (open_file file)) (\<lambda>f.
     wrap_err ''can't decode yaml config'' (decode_yaml f))"

text \<open>\<^verbatim>\<open>strconv.ParseInt(s, 10, 64)\<close>\<close>

definition ParseInt :: "string \<Rightarrow> int go" where
  "ParseInt s =
     (let neg = (s \<noteq> [] \<and> hd s = CHR ''-'');
          ds = (if s \<noteq> [] \<and> (hd s = CHR ''-'' \<or> hd s = CHR ''+'') then tl s else s);
          n = int (digits_value 0 ds)
      in if ds = [] \<or> \<not> list_all (\<lambda>c. 48 \<le> (of_char c :: nat) \<and> (of_char c :: nat) < 58) ds
         then Inl (Err (Msg ''invalid syntax''))
         else if neg then (if 2 ^ 63 < n then Inl (Err (Msg ''value out of range'')) else Inr (- n))
         else (if 2 ^ 63 \<le> n then Inl (Err (Msg ''value out of range'')) else Inr n))"

lemma ParseInt_decimal: "n < 2 ^ 63 \<Longrightarrow> ParseInt (decimal n) = Inr (int n)"
proof -
  assume n: "n < 2 ^ 63"
  have digits: "list_all (\<lambda>c. 48 \<le> (of_char c :: nat) \<and> (of_char c :: nat) < 58) (decimal n)"
    using decimal_digits by (auto simp: list_all_iff)
  obtain c cs where d: "decimal n = c # cs" by (cases "decimal n") auto
  have "48 \<le> (of_char c :: nat)" using digits d by simp
  then have "c \<noteq> CHR ''-''" "c \<noteq> CHR ''+''" by auto
  then show ?thesis
    using n digits d digits_value_decimal [of n] by (simp add: ParseInt_def)
qed

end
