(* ===== verification/Beacon_Client.thy ===== *)
theory Beacon_Client
  imports Config Externals
begin

section \<open>The beacon node API client (oracle/beaconclient)\<close>

text \<open>
  \<^verbatim>\<open>BeaconClient\<close> turns four HTTP endpoints into the interface \<^verbatim>\<open>Eth2Client\<close>. The HTTP
  transport and the decoders (JSON of the standard library's reflection, SSZ of prysm) are
  parameters; a node's answer is a function of the request, so all requests of one run see one
  state of the node. The status codes 404 and 400 become the sentinel \<^verbatim>\<open>NotFoundError\<close>, which
  callers test with \<^verbatim>\<open>errors.Is\<close> through the wrappings added on the way.
\<close>

subsection \<open>model.go\<close>

record ModelGenesisData =
  mg_GenesisTime :: string
  mg_GenesisValidatorsRoot :: string

record ModelGenesis =
  mg_Data :: ModelGenesisData

record ModelSpecData =
  ms_SecondsPerSlot :: u64
  ms_SlotsPerEpoch :: u64
  ms_AltairForkEpoch :: u64
  ms_AltairForkVersion :: string
  ms_BellatrixForkEpoch :: u64
  ms_BellatrixForkVersion :: string
  ms_EpochsPerSyncCommitteePeriod :: u64
  ms_SyncCommitteeSize :: int
  ms_ValidatorRegistryLimit :: int
  ms_HistoricalRootsLimit :: int
  ms_EpochsPerEth1VotingPeriod :: u64
  ms_SlotsPerHistoricalRoot :: u64

record ModelSpec =
  ms_Data :: ModelSpecData

subsection \<open>client.go\<close>

record http_response =
  StatusCode :: int
  Body :: "byte list go"        \<comment> \<open>reading the body may fail\<close>

record http =
  NewRequest :: "string \<Rightarrow> unit go"
  DoRequest :: "string \<Rightarrow> bool \<Rightarrow> http_response go"   \<comment> \<open>the flag: the octet-stream Accept header\<close>

text \<open>The argument \<^verbatim>\<open>out\<close> with the flag \<^verbatim>\<open>ssz\<close>: how the body is decoded.\<close>

datatype 'a decoder =
    SSZ "byte list \<Rightarrow> 'a go"
  | JSON string "byte list go \<Rightarrow> 'a go"

record codecs =
  SpecJSON :: "byte list go \<Rightarrow> ModelSpec go"
  GenesisJSON :: "byte list go \<Rightarrow> ModelGenesis go"
  BlockSSZ :: "byte list \<Rightarrow> BeaconBlock go"
  StateSSZ :: "byte list \<Rightarrow> BeaconState go"

record BeaconClient =
  baseUrl :: string
  transport :: http
  decoders :: codecs

record Eth2Client =
  GetSpec :: "ModelSpecData go"
  GetGenesis :: "ModelGenesisData go"
  GetBlock :: "string \<Rightarrow> BeaconBlock go"
  GetState :: "u64 \<Rightarrow> BeaconState go"

definition BeaconClient_get :: "BeaconClient \<Rightarrow> string \<Rightarrow> 'a decoder \<Rightarrow> 'a go" where
  "BeaconClient_get b url out =
     (let fullUrl = baseUrl b @ url; ssz = (case out of SSZ _ \<Rightarrow> True | JSON _ _ \<Rightarrow> False) in
      bind (wrap_err ''can't make request from url'' (NewRequest (transport b) fullUrl)) (\<lambda>_.
      bind (wrap_err ''can't fetch from url'' (DoRequest (transport b) fullUrl ssz)) (\<lambda>res.
      if StatusCode res \<noteq> 200
      then (if StatusCode res = 404 \<or> StatusCode res = 400 then Inl (Err NotFoundError)
            else Inl (Err (Msg (''got error status code: '' @ fmt_int (StatusCode res)))))
      else (case out of
          SSZ unmarshal \<Rightarrow> bind (wrap_err ''can't read ssz'' (Body res)) (\<lambda>data.
            wrap_err ''can't unmarshal ssz'' (unmarshal data))
        | JSON ty decode \<Rightarrow> wrap_err (''can't parse json into '' @ ty) (decode (Body res))))))"

definition BeaconClient_GetSpec :: "BeaconClient \<Rightarrow> ModelSpecData go" where
  "BeaconClient_GetSpec b =
     bind (wrap_err ''can't fetch spec''
       (BeaconClient_get b ''/eth/v1/config/spec'' (JSON ''*beaconclient.ModelSpec'' (SpecJSON (decoders b)))))
     (\<lambda>data. Inr (ms_Data data))"

definition BeaconClient_GetGenesis :: "BeaconClient \<Rightarrow> ModelGenesisData go" where
  "BeaconClient_GetGenesis b =
     bind (wrap_err ''can't fetch genesis''
       (BeaconClient_get b ''/eth/v1/beacon/genesis'' (JSON ''*beaconclient.ModelGenesis'' (GenesisJSON (decoders b)))))
     (\<lambda>data. Inr (mg_Data data))"

definition BeaconClient_GetBlock :: "BeaconClient \<Rightarrow> string \<Rightarrow> BeaconBlock go" where
  "BeaconClient_GetBlock b i =
     wrap_err ''can't fetch block''
       (BeaconClient_get b (''/eth/v2/beacon/blocks/'' @ i) (SSZ (BlockSSZ (decoders b))))"

definition BeaconClient_GetState :: "BeaconClient \<Rightarrow> u64 \<Rightarrow> BeaconState go" where
  "BeaconClient_GetState b slot =
     wrap_err ''can't fetch block state''
       (BeaconClient_get b (''/eth/v2/debug/beacon/states/'' @ FormatUint slot) (SSZ (StateSSZ (decoders b))))"

definition NewClient :: "http \<Rightarrow> codecs \<Rightarrow> string \<Rightarrow> Eth2Client" where
  "NewClient H C url =
     (let b = \<lparr>baseUrl = url, transport = H, decoders = C\<rparr> in
      \<lparr>GetSpec = BeaconClient_GetSpec b, GetGenesis = BeaconClient_GetGenesis b,
       GetBlock = BeaconClient_GetBlock b, GetState = BeaconClient_GetState b\<rparr>)"

subsection \<open>Classification of errors\<close>

definition not_found :: "'a go \<Rightarrow> bool" where
  "not_found m = (case m of Inl (Err e) \<Rightarrow> errors_Is e NotFoundError | _ \<Rightarrow> False)"

lemma not_found_simps [simp]:
  "not_found (Inr a) = False" "not_found (Inl (Err e)) = errors_Is e NotFoundError"
  "not_found (Inl (Panic s)) = False" "not_found (Inl (Fatal s)) = False"
  by (simp_all add: not_found_def)

lemma errors_Is_Wrap [simp]: "errors_Is (Wrap s e) NotFoundError = errors_Is e NotFoundError"
  by simp

lemma not_found_wrap_err [simp]: "not_found (wrap_err s m) = not_found m"
  by (auto simp: not_found_def wrap_err_def split: sum.splits failure.splits)

lemma not_found_bind: "not_found (bind m f) \<longleftrightarrow> not_found m \<or> (\<exists>a. m = Inr a \<and> not_found (f a))"
  by (cases m) (auto simp: not_found_def)

text \<open>The sentinel is private to the package: no library returns it.\<close>

definition foreign_errors :: "BeaconClient \<Rightarrow> bool" where
  "foreign_errors b \<longleftrightarrow>
     (\<forall>url. \<not> not_found (NewRequest (transport b) url)) \<and>
     (\<forall>url a. \<not> not_found (DoRequest (transport b) url a)) \<and>
     (\<forall>url a res. DoRequest (transport b) url a = Inr res \<longrightarrow> \<not> not_found (Body res)) \<and>
     (\<forall>bs. \<not> not_found (BlockSSZ (decoders b) bs)) \<and> (\<forall>bs. \<not> not_found (StateSSZ (decoders b) bs))"

lemma get_SSZ_not_found:
  assumes "foreign_errors b" and "\<And>bs. \<not> not_found (unmarshal bs)"
  shows "not_found (BeaconClient_get b url (SSZ unmarshal)) \<longleftrightarrow>
     (\<exists>u res. NewRequest (transport b) (baseUrl b @ url) = Inr u
        \<and> DoRequest (transport b) (baseUrl b @ url) True = Inr res \<and> StatusCode res \<in> {404, 400})"
  using assms
  by (auto simp: BeaconClient_get_def foreign_errors_def Let_def not_found_bind)

text \<open>C29. \<^verbatim>\<open>GetBlock\<close> and \<^verbatim>\<open>GetState\<close> report "not found" (an error that \<^verbatim>\<open>errors.Is\<close>
  recognises as \<^verbatim>\<open>NotFoundError\<close> through the two layers of wrapping) exactly when the node answered
  the request with status 404 or 400; a transport, decoding or other status error is never mistaken
  for a missing block.\<close>

theorem not_found_iff_status:
  assumes "foreign_errors b"
  shows "(not_found (BeaconClient_GetBlock b i) \<longleftrightarrow>
      (\<exists>u res. NewRequest (transport b) (baseUrl b @ ''/eth/v2/beacon/blocks/'' @ i) = Inr u
         \<and> DoRequest (transport b) (baseUrl b @ ''/eth/v2/beacon/blocks/'' @ i) True = Inr res
         \<and> StatusCode res \<in> {404, 400}))
    \<and> (not_found (BeaconClient_GetState b slot) \<longleftrightarrow>
      (\<exists>u res. NewRequest (transport b) (baseUrl b @ ''/eth/v2/debug/beacon/states/'' @ FormatUint slot) = Inr u
         \<and> DoRequest (transport b) (baseUrl b @ ''/eth/v2/debug/beacon/states/'' @ FormatUint slot) True = Inr res
         \<and> StatusCode res \<in> {404, 400}))"
  using assms get_SSZ_not_found [OF assms, of "BlockSSZ (decoders b)"]
    get_SSZ_not_found [OF assms, of "StateSSZ (decoders b)"]
  by (simp add: BeaconClient_GetBlock_def BeaconClient_GetState_def foreign_errors_def)

definition silent_node :: "int \<Rightarrow> BeaconClient" where
  "silent_node code =
     \<lparr>baseUrl = ''http://node'',
      transport = \<lparr>NewRequest = \<lambda>_. Inr (), DoRequest = \<lambda>_ _. Inr \<lparr>StatusCode = code, Body = Inr []\<rparr>\<rparr>,
      decoders = \<lparr>SpecJSON = \<lambda>_. Inl (Err (Msg ''EOF'')), GenesisJSON = \<lambda>_. Inl (Err (Msg ''EOF'')),
                  BlockSSZ = \<lambda>_. Inl (Err (Msg ''size'')), StateSSZ = \<lambda>_. Inl (Err (Msg ''size''))\<rparr>\<rparr>"

theorem not_found_iff_status_witness:
  "not_found (BeaconClient_GetBlock (silent_node 404) ''7'')
   \<and> not_found (BeaconClient_GetState (silent_node 400) 7)
   \<and> \<not> not_found (BeaconClient_GetBlock (silent_node 500) ''7'')
   \<and> \<not> not_found (BeaconClient_GetState (silent_node 200) 7)"
proof -
  have "foreign_errors (silent_node code)" for code
    by (simp add: foreign_errors_def silent_node_def)
  then show ?thesis
    using not_found_iff_status [of "silent_node 404" "''7''" 7] not_found_iff_status [of "silent_node 400" "''7''" 7]
      not_found_iff_status [of "silent_node 500" "''7''" 7] not_found_iff_status [of "silent_node 200" "''7''" 7]
    by (simp add: silent_node_def)
qed

end
