(* ===== verification/Merkle_Queue.thy ===== *)
theory Merkle_Queue
  imports Merkle_Spec
begin

section \<open>The queue algorithm behind multiproofs, over any heap\<close>

text \<open>
  A multiproof opens several leaves at once. The verifier keeps a queue of known nodes in
  descending index order, starting from the opened leaves; it takes the first, hashes it with its
  sibling (the next queue element, or the next decommitment) and appends the parent, until the
  root is at the front. The prover lists, pair by pair from the last leaf to the root, the sibling
  of every pair of which exactly one node is known.

  Both sides are stated here over an arbitrary heap (\<open>hash_heap\<close>) and an arbitrary marking \<open>K\<close> of
  known nodes that is closed upwards; the Go and Solidity loops are refined to \<open>queue_run\<close> in the
  theories that model them.
\<close>

subsection \<open>The verifier\<close>

function queue_run :: "('h \<Rightarrow> 'h \<Rightarrow> 'h) \<Rightarrow> (nat \<times> 'h) list \<Rightarrow> 'h list \<Rightarrow> 'h option" where
  "queue_run node [] ds = None"
| "queue_run node ((i, h) # q) ds =
     (if i = 1 then Some h
      else if even i then
        (case ds of [] \<Rightarrow> None | d # ds' \<Rightarrow> queue_run node (q @ [(i div 2, node h d)]) ds')
      else if q \<noteq> [] \<and> fst (hd q) = i - 1 then
        queue_run node (tl q @ [(i div 2, node (snd (hd q)) h)]) ds
      else
        (case ds of [] \<Rightarrow> None | d # ds' \<Rightarrow> queue_run node (q @ [(i div 2, node d h)]) ds'))"
  by pat_completeness auto
termination
  by (relation "measure (\<lambda>(node, q, ds). length q + length ds)") (auto simp: Suc_le_eq)

declare queue_run.simps(2) [simp del]

subsection \<open>The prover\<close>

text \<open>The decommitments from the pair \<open>(2 * m, 2 * m + 1)\<close> down to the pair \<open>(2, 3)\<close>.\<close>

fun decommit :: "(nat \<Rightarrow> 'h) \<Rightarrow> (nat \<Rightarrow> bool) \<Rightarrow> nat \<Rightarrow> 'h list" where
  "decommit H K 0 = []"
| "decommit H K (Suc m) =
     (let i = 2 * Suc m in
      (if K i \<and> \<not> K (i + 1) then [H (i + 1)] else if \<not> K i \<and> K (i + 1) then [H i] else [])
      @ decommit H K m)"

declare decommit.simps(2) [simp del]

text \<open>The queue when the pairs above \<open>(2 * m, 2 * m + 1)\<close> have been hashed.\<close>

definition level_queue :: "(nat \<Rightarrow> 'h) \<Rightarrow> (nat \<Rightarrow> bool) \<Rightarrow> nat \<Rightarrow> (nat \<times> 'h) list" where
  "level_queue H K m = map (\<lambda>j. (j, H j)) (filter K (rev [Suc m ..< 2 * m + 2]))"

lemma level_queue_0: "K 1 \<Longrightarrow> level_queue H K 0 = [(1, H 1)]"
  by (simp add: level_queue_def)

text \<open>The part of it that one more pair leaves alone.\<close>

definition level_rest :: "(nat \<Rightarrow> 'h) \<Rightarrow> (nat \<Rightarrow> bool) \<Rightarrow> nat \<Rightarrow> (nat \<times> 'h) list" where
  "level_rest H K m = map (\<lambda>j. (j, H j)) (filter K (rev [Suc (Suc m) ..< 2 * Suc m]))"

lemma level_queue_Suc:
  shows "level_queue H K (Suc m) =
           (if K (2 * m + 3) then [(2 * m + 3, H (2 * m + 3))] else [])
           @ (if K (2 * m + 2) then [(2 * m + 2, H (2 * m + 2))] else []) @ level_rest H K m"
    and "level_queue H K m = level_rest H K m @ (if K (Suc m) then [(Suc m, H (Suc m))] else [])"
proof -
  have "[Suc (Suc m) ..< 2 * Suc m + 2] = [Suc (Suc m) ..< 2 * Suc m] @ [2 * m + 2, 2 * m + 3]"
    by (simp add: numeral_3_eq_3)
  then show "level_queue H K (Suc m) =
           (if K (2 * m + 3) then [(2 * m + 3, H (2 * m + 3))] else [])
           @ (if K (2 * m + 2) then [(2 * m + 2, H (2 * m + 2))] else []) @ level_rest H K m"
    unfolding level_queue_def level_rest_def by (simp add: numeral_3_eq_3)
  have "[Suc m ..< 2 * m + 2] = Suc m # [Suc (Suc m) ..< 2 * Suc m]"
    by (simp add: upt_conv_Cons)
  then show "level_queue H K m = level_rest H K m @ (if K (Suc m) then [(Suc m, H (Suc m))] else [])"
    unfolding level_queue_def level_rest_def by simp
qed

subsection \<open>They meet at the root\<close>

locale marked_heap = hash_heap +
  fixes K :: "nat \<Rightarrow> bool"
  assumes marks: "inner i \<Longrightarrow> K i \<longleftrightarrow> K (2 * i) \<or> K (2 * i + 1)"
begin

lemma level_step:
  assumes "inner (Suc m)"
  shows "queue_run node (level_queue H K (Suc m)) (decommit H K (Suc m))
       = queue_run node (level_queue H K m) (decommit H K m)"
proof -
  let ?R = "level_rest H K m"
  note split = level_queue_Suc [where H = H and K = K and m = m]
  have parent: "H (Suc m) = node (H (2 * m + 2)) (H (2 * m + 3))"
    using law [OF assms] by (simp add: numeral_3_eq_3)
  have mark: "K (Suc m) \<longleftrightarrow> K (2 * m + 2) \<or> K (2 * m + 3)"
    using marks [OF assms] by (simp add: numeral_3_eq_3)
  have "\<forall>x \<in> set ?R. fst x < 2 * m + 2" by (auto simp: level_rest_def)
  then have other: "?R = [] \<or> fst (hd ?R) \<noteq> 2 * m + 2" by (cases ?R) auto
  have half: "(2 * m + 3) div 2 = Suc m" "(2 * m + 2) div 2 = Suc m" by simp_all
  have succ: "2 * Suc m = 2 * m + 2" "2 * Suc m + 1 = 2 * m + 3" by simp_all
  have odd: "odd (2 * m + 3)" by simp
  consider "K (2 * m + 3)" "K (2 * m + 2)" | "K (2 * m + 3)" "\<not> K (2 * m + 2)"
    | "\<not> K (2 * m + 3)" "K (2 * m + 2)" | "\<not> K (2 * m + 3)" "\<not> K (2 * m + 2)" by blast
  then show ?thesis
  proof cases
    case 1
    then show ?thesis
      by (simp add: split mark parent decommit.simps(2) Let_def succ queue_run.simps(2) half numeral_3_eq_3)
  next
    case 2
    then show ?thesis using other
      by (auto simp: split mark parent decommit.simps(2) Let_def queue_run.simps(2) numeral_3_eq_3)
  next
    case 3
    then show ?thesis
      by (simp add: split mark parent decommit.simps(2) Let_def queue_run.simps(2) numeral_3_eq_3)
  next
    case 4
    then show ?thesis by (simp add: split mark decommit.simps(2) Let_def numeral_3_eq_3)
  qed
qed

lemma queue_run_root:
  assumes "K 1" and "\<And>i. 0 < i \<Longrightarrow> i \<le> m \<Longrightarrow> inner i"
  shows "queue_run node (level_queue H K m) (decommit H K m) = Some (H 1)"
  using assms(2)
proof (induction m)
  case 0
  then show ?case using assms(1) by (simp add: level_queue_0 queue_run.simps(2))
next
  case (Suc m)
  then show ?case by (simp add: level_step)
qed

end

subsection \<open>Binding: two openings of the same indices with one result collide\<close>

text \<open>The pairs that are hashed while the queue runs.\<close>

function queue_pairs :: "('h \<Rightarrow> 'h \<Rightarrow> 'h) \<Rightarrow> (nat \<times> 'h) list \<Rightarrow> 'h list \<Rightarrow> ('h \<times> 'h) list" where
  "queue_pairs node [] ds = []"
| "queue_pairs node ((i, h) # q) ds =
     (if i = 1 then []
      else if even i then
        (case ds of [] \<Rightarrow> [] | d # ds' \<Rightarrow> (h, d) # queue_pairs node (q @ [(i div 2, node h d)]) ds')
      else if q \<noteq> [] \<and> fst (hd q) = i - 1 then
        (snd (hd q), h) # queue_pairs node (tl q @ [(i div 2, node (snd (hd q)) h)]) ds
      else
        (case ds of [] \<Rightarrow> [] | d # ds' \<Rightarrow> (d, h) # queue_pairs node (q @ [(i div 2, node d h)]) ds'))"
  by pat_completeness auto
termination
  by (relation "measure (\<lambda>(node, q, ds). length q + length ds)") (auto simp: Suc_le_eq)

declare queue_pairs.simps(2) [simp del]

definition pair_collision :: "('h \<Rightarrow> 'h \<Rightarrow> 'h) \<Rightarrow> ('h \<times> 'h) \<times> ('h \<times> 'h) \<Rightarrow> bool" where
  "pair_collision node c \<longleftrightarrow> fst c \<noteq> snd c \<and> case_prod node (fst c) = case_prod node (snd c)"

definition collide :: "('h \<Rightarrow> 'h \<Rightarrow> 'h) \<Rightarrow> ('h \<times> 'h) list \<Rightarrow> ('h \<times> 'h) list \<Rightarrow> bool" where
  "collide node xs ys \<longleftrightarrow> (\<exists>c \<in> set (zip xs ys). pair_collision node c)"

lemma collide_Cons [simp]:
  "collide node ((a, b) # xs) ((c, d) # ys) \<longleftrightarrow> (a, b) \<noteq> (c, d) \<and> node a b = node c d \<or> collide node xs ys"
  by (simp add: collide_def pair_collision_def)

text \<open>The indices in the queue are descending and span less than two levels.\<close>

definition level_ok :: "nat list \<Rightarrow> bool" where
  "level_ok is \<longleftrightarrow> is \<noteq> [] \<and> sorted_wrt (>) is \<and> 0 < last is \<and> hd is < 2 * last is"

lemma sorted_gt_last: "sorted_wrt (>) is \<Longrightarrow> i \<in> set is \<Longrightarrow> last is \<le> (i :: nat)"
  by (induction "is") (auto simp: less_imp_le last_in_set)

lemma level_ok_front: "level_ok (1 # is) \<Longrightarrow> is = []"
proof (rule ccontr)
  assume "level_ok (1 # is)" and "is \<noteq> []"
  then have "last is < 1" and "0 < last is" using last_in_set [of "is"] by (auto simp: level_ok_def)
  then show False by simp
qed

lemma level_ok_push:
  assumes "sorted_wrt (>) is" and "\<forall>j \<in> set is. j < 2 * (i div 2) \<and> i div 2 < j" and "1 < i"
  shows "level_ok (is @ [i div 2])"
  using assms by (cases "is") (auto simp: level_ok_def sorted_wrt_append div_greater_zero_iff)

lemma level_ok_step:
  assumes "level_ok (i # is)" and "i \<noteq> 1"
  shows "even i \<Longrightarrow> level_ok (is @ [i div 2])"
    and "odd i \<Longrightarrow> is \<noteq> [] \<Longrightarrow> hd is = i - 1 \<Longrightarrow> level_ok (tl is @ [i div 2])"
    and "odd i \<Longrightarrow> is = [] \<or> hd is \<noteq> i - 1 \<Longrightarrow> level_ok (is @ [i div 2])"
proof -
  have sorted: "sorted_wrt (>) is" and below: "\<forall>j \<in> set is. j < i"
    using assms by (auto simp: level_ok_def)
  have "0 < i" using assms(1) sorted_gt_last [of "i # is" i] by (simp add: level_ok_def)
  with assms(2) have i: "1 < i" by simp
  have above: "\<forall>j \<in> set is. i div 2 < j"
    using assms(1) sorted_gt_last [OF sorted] by (fastforce simp: level_ok_def split: if_splits)
  show "even i \<Longrightarrow> level_ok (is @ [i div 2])"
    using sorted below above i by (intro level_ok_push) auto
  have tl: "\<forall>j \<in> set (tl is). j < hd is" using sorted by (cases "is") auto
  show "odd i \<Longrightarrow> is \<noteq> [] \<Longrightarrow> hd is = i - 1 \<Longrightarrow> level_ok (tl is @ [i div 2])"
    using sorted above i tl by (intro level_ok_push) (auto dest: list.set_sel(2) elim!: oddE, cases "is", auto)
  show "odd i \<Longrightarrow> is = [] \<or> hd is \<noteq> i - 1 \<Longrightarrow> level_ok (is @ [i div 2])"
  proof (intro level_ok_push sorted i ballI conjI)
    fix j assume odd: "odd i" and no: "is = [] \<or> hd is \<noteq> i - 1" and j: "j \<in> set is"
    then have "j \<le> hd is" and "hd is < i" and "hd is \<noteq> i - 1" using sorted below by (cases "is"; auto)+
    with odd show "j < 2 * (i div 2)" by (auto elim!: oddE)
    show "i div 2 < j" using above j by blast
  qed
qed

lemma queue_binding:
  assumes "queue_run node q ds = Some r" and "queue_run node q' ds' = Some r"
    and "map fst q = map fst q'" and "level_ok (map fst q)"
  shows "map snd q = map snd q' \<or> collide node (queue_pairs node q ds) (queue_pairs node q' ds')"
  using assms
proof (induction node q ds arbitrary: q' ds' rule: queue_run.induct)
  case (2 node i h q ds)
  obtain h' p where q': "q' = (i, h') # p" and p: "map fst q = map fst p"
    using "2.prems"(3) by (cases q') auto
  have hd: "q \<noteq> [] \<longleftrightarrow> p \<noteq> []" "q \<noteq> [] \<Longrightarrow> fst (hd q) = fst (hd p)" "map fst (tl q) = map fst (tl p)"
    using p by (cases q; cases p; auto)+
  note defs = q' queue_run.simps(2) queue_pairs.simps(2)
  note ok = level_ok_step [of i "map fst q"]
  show ?case
  proof (cases "i = 1")
    case True
    then have "map fst q = []" using level_ok_front [of "map fst q"] "2.prems"(4) by simp
    then have "q = []" "p = []" using p by simp_all
    with True "2.prems" show ?thesis by (simp add: defs)
  next
    case i: False
    consider "even i" | "odd i" "q \<noteq> [] \<and> fst (hd q) = i - 1" | "odd i" "\<not> (q \<noteq> [] \<and> fst (hd q) = i - 1)"
      by blast
    then show ?thesis
    proof cases
      case 1
      then obtain d es d' es' where ds: "ds = d # es" "ds' = d' # es'"
        using "2.prems"(1,2) i by (auto simp: defs split: list.splits)
      have "map snd (q @ [(i div 2, node h d)]) = map snd (p @ [(i div 2, node h' d')])
          \<or> collide node (queue_pairs node (q @ [(i div 2, node h d)]) es)
              (queue_pairs node (p @ [(i div 2, node h' d')]) es')"
        using "2.prems" 1 i ds p ok(1) by (intro "2.IH"(1)) (simp_all add: defs)
      with 1 i ds show ?thesis by (auto simp: defs)
    next
      case 2
      obtain l k where "q = (i - 1, l) # tl q" "p = (i - 1, k) # tl p"
        using 2 hd by (metis list.collapse prod.collapse)
      then have lk: "snd (hd q) = l" "snd (hd p) = k" "map snd q = l # map snd (tl q)" "map snd p = k # map snd (tl p)"
        by (metis list.sel(1) snd_conv list.simps(9))+
      have "map snd (tl q @ [(i div 2, node l h)]) = map snd (tl p @ [(i div 2, node k h')])
          \<or> collide node (queue_pairs node (tl q @ [(i div 2, node l h)]) ds)
              (queue_pairs node (tl p @ [(i div 2, node k h')]) ds')"
        using "2.prems" 2 i p hd lk ok(2) unfolding lk(1)[symmetric]
        by (intro "2.IH"(2)) (simp_all add: defs map_tl hd_map)
      with 2 i hd lk show ?thesis by (auto simp: defs)
    next
      case 3
      then obtain d es d' es' where ds: "ds = d # es" "ds' = d' # es'"
        using "2.prems"(1,2) i hd by (auto simp: defs split: list.splits)
      have "map snd (q @ [(i div 2, node d h)]) = map snd (p @ [(i div 2, node d' h')])
          \<or> collide node (queue_pairs node (q @ [(i div 2, node d h)]) es)
              (queue_pairs node (p @ [(i div 2, node d' h')]) es')"
        using "2.prems" 3 i ds p hd ok(3) by (intro "2.IH"(3)) (auto simp add: defs hd_map)
      with 3 i ds hd show ?thesis by (auto simp: defs)
    qed
  qed
qed simp

subsection \<open>Marking the ancestors of a set of leaves\<close>

function opened :: "nat \<Rightarrow> nat list \<Rightarrow> nat \<Rightarrow> bool" where
  "opened d is i =
     (if i = 0 then False
      else if 2 ^ d \<le> i then i - 2 ^ d \<in> set is
      else opened d is (2 * i) \<or> opened d is (2 * i + 1))"
  by pat_completeness auto
termination
  by (relation "measure (\<lambda>(d, is, i). 2 ^ d - i)") auto

declare opened.simps [simp del]

lemma opened_leaf [simp]: "opened d is (2 ^ d + i) \<longleftrightarrow> i \<in> set is"
  by (subst opened.simps) simp

lemma opened_node: "0 < i \<Longrightarrow> i < 2 ^ d \<Longrightarrow>
  opened d is i \<longleftrightarrow> opened d is (2 * i) \<or> opened d is (2 * i + 1)"
  by (subst opened.simps) simp

lemma opened_half: "opened d is i \<Longrightarrow> 1 < i \<Longrightarrow> i < 2 ^ Suc d \<Longrightarrow> opened d is (i div 2)"
proof -
  assume i: "opened d is i" "1 < i" "i < 2 ^ Suc d"
  have "2 * (i div 2) = i \<or> 2 * (i div 2) + 1 = i" by presburger
  with i(1) have "opened d is (2 * (i div 2)) \<or> opened d is (2 * (i div 2) + 1)" by metis
  with i(2,3) show ?thesis by (subst opened_node) auto
qed

lemma opened_1: "opened d is i \<Longrightarrow> 0 < i \<Longrightarrow> i < 2 ^ Suc d \<Longrightarrow> opened d is 1"
proof (induction i rule: less_induct)
  case (less i)
  show ?case
  proof (cases "i = 1")
    case False
    with less show ?thesis
      by (intro less.IH [of "i div 2"] opened_half) auto
  qed (use less in simp)
qed

interpretation opened_heap: marked_heap node_hash "heap d xs" "\<lambda>i. 0 < i \<and> i < 2 ^ d" "opened d is"
  for d xs "is"
  by unfold_locales (simp add: opened_node)

lemma double_pred: "0 < n \<Longrightarrow> 2 * (n - 1) + 2 = n + (n :: nat)"
  by arith

text \<open>The queue the verifier starts with: the opened leaves, last one first.\<close>

lemma level_queue_leaves:
  assumes "sorted_wrt (<) is" and "\<forall>i \<in> set is. i < 2 ^ d"
  shows "level_queue H (opened d is) (2 ^ d - 1) = map (\<lambda>i. (2 ^ d + i, H (2 ^ d + i))) (rev is)"
proof -
  have "Suc (2 ^ d - 1) = 2 ^ d" and "2 * (2 ^ d - 1) + 2 = 2 ^ d + (2 ^ d :: nat)"
    by (simp, rule double_pred, simp)
  moreover have "map ((+) (2 ^ d)) [0 ..< 2 ^ d] = [2 ^ d ..< 2 ^ d + 2 ^ d]"
    by (rule nth_equalityI) simp_all
  ultimately have range: "[Suc (2 ^ d - 1) ..< 2 * (2 ^ d - 1) + 2] = map ((+) (2 ^ d)) [0 ..< 2 ^ d]"
    by simp
  have "filter (\<lambda>i. i \<in> set is) [0 ..< 2 ^ d] = is"
    using assms by (intro strict_sorted_equal) (auto intro: sorted_wrt_filter)
  then have "filter (opened d is) (map ((+) (2 ^ d)) [0 ..< 2 ^ d]) = map ((+) (2 ^ d)) is"
    by (simp add: filter_map o_def)
  then show ?thesis
    unfolding level_queue_def range rev_filter [symmetric] by (simp add: rev_map o_def)
qed

text \<open>Prover and verifier agree on every sorted, non-empty set of leaves.\<close>

lemma queue_run_leaves:
  assumes "sorted_wrt (<) is" and "\<forall>i \<in> set is. i < 2 ^ d" and "is \<noteq> []"
  shows "queue_run node_hash (map (\<lambda>i. (2 ^ d + i, heap d xs (2 ^ d + i))) (rev is))
           (decommit (heap d xs) (opened d is) (2 ^ d - 1)) = Some (heap d xs 1)"
proof -
  obtain i where i: "i \<in> set is" using assms(3) by (meson last_in_set)
  then have "opened d is 1"
    using assms(2) by (intro opened_1 [of d "is" "2 ^ d + i"]) auto
  then have "queue_run node_hash (level_queue (heap d xs) (opened d is) (2 ^ d - 1))
      (decommit (heap d xs) (opened d is) (2 ^ d - 1)) = Some (heap d xs 1)"
    by (intro opened_heap.queue_run_root) auto
  then show ?thesis unfolding level_queue_leaves [OF assms(1,2)] .
qed

end
