(* ===== verification/Merkle_Multi.thy ===== *)
theory Merkle_Multi
  imports Merkle_Tree Merkle_Queue
begin

section \<open>Multiproofs (oracle/crypto/merkleization.go)\<close>

text \<open>
  \<^verbatim>\<open>MakeMultiProof\<close> and \<^verbatim>\<open>MerkleMultiProof.ReconstructRoot\<close>. The prover's two Go maps are
  a function to \<open>bool\<close> (a missing key reads \<open>false\<close>) and a partial map read with the zero hash as
  default. The verifier's slices only grow, with \<open>head\<close> and \<open>tail\<close> as indices into them; every
  access that could panic does so in the model. Each iteration either uses up a decommitment or
  shortens the stretch between \<open>head\<close> and the end, which is why the loop, written
  \<^verbatim>\<open>for { ... }\<close>, ends on every input.
\<close>

subsection \<open>MakeMultiProof\<close>

record MerkleMultiProof =
  genIndices :: "int list"
  leavesHashes :: "hash list"
  Decommitments :: "hash list"

definition lookup_hash :: "(int \<rightharpoonup> hash) \<Rightarrow> int \<Rightarrow> hash" where
  "lookup_hash m k = (case m k of None \<Rightarrow> zero_hash | Some h \<Rightarrow> h)"

text \<open>The first loop: the hashes of all leaf slots.\<close>

definition init_hashes :: "MerkleTree \<Rightarrow> (int \<rightharpoonup> hash)" where
  "init_hashes t = foldl (\<lambda>m i. m(int i + limit t \<mapsto>
     (if i < length (leaves t) then leaves t ! i else ZeroHash 0))) Map.empty [0 ..< nat (limit t)]"

text \<open>The second loop, over the indices from last to first.\<close>

fun collect_known ::
  "MerkleTree \<Rightarrow> int list \<Rightarrow> int list \<Rightarrow> hash list \<Rightarrow> (int \<Rightarrow> bool) \<Rightarrow> (int list \<times> hash list \<times> (int \<Rightarrow> bool)) go"
where
  "collect_known t [] gs hs known = Inr (gs, hs, known)"
| "collect_known t (idx # rest) gs hs known =
     (if idx < 0 \<or> idx \<ge> int (length (leaves t)) then Inl (Panic ''index out of bounds'')
      else bind (index (leaves t) idx) (\<lambda>h.
        collect_known t rest (gs @ [idx + limit t]) (hs @ [h]) (known(idx + limit t := True))))"

text \<open>The third loop, over the pairs \<open>(i - 1, i)\<close> from the last to the first.\<close>

function pair_loop :: "int \<Rightarrow> hash list \<Rightarrow> (int \<Rightarrow> bool) \<Rightarrow> (int \<rightharpoonup> hash) \<Rightarrow> hash list" where
  "pair_loop i decommitments known hashes =
     (if i > 1 then
        (let left = known (i - 1);
             right = known i;
             ds1 = (if left \<and> \<not> right then decommitments @ [lookup_hash hashes i] else decommitments);
             ds2 = (if \<not> left \<and> right then ds1 @ [lookup_hash hashes (i - 1)] else ds1)
         in pair_loop (i - 2) ds2
              (known(i sdiv 2 := left \<or> right))
              (hashes(i sdiv 2 \<mapsto>
                 Sha256Hash [Bytes (lookup_hash hashes (i - 1)), Bytes (lookup_hash hashes i)])))
      else decommitments)"
  by pat_completeness auto
termination
  by (relation "measure (\<lambda>(i, ds, known, hashes). nat i)") auto

declare pair_loop.simps [simp del]

definition MerkleTree_MakeMultiProof :: "MerkleTree \<Rightarrow> int list \<Rightarrow> MerkleMultiProof go" where
  "MerkleTree_MakeMultiProof t indices =
     (if indices = []
      then bind (MerkleTree_Hash t) (\<lambda>h. Inr \<lparr>genIndices = [], leavesHashes = [], Decommitments = [h]\<rparr>)
      else bind (collect_known t (rev indices) [] [] (\<lambda>_. False)) (\<lambda>(gs, hs, known).
        Inr \<lparr>genIndices = gs, leavesHashes = hs,
             Decommitments = pair_loop (limit t * 2 - 1) [] known (init_hashes t)\<rparr>))"

subsection \<open>MerkleMultiProof.ReconstructRoot\<close>

function multi_loop ::
  "int list \<Rightarrow> hash list \<Rightarrow> hash list \<Rightarrow> int \<Rightarrow> int \<Rightarrow> int \<Rightarrow> hash go"
where
  "multi_loop indices hashes ds head tail di =
     bind (index indices head) (\<lambda>idx. bind (index hashes head) (\<lambda>h.
       if idx = 1 then Inr h
       else if idx AND 1 = 0 then
         bind (index ds di) (\<lambda>d.
           multi_loop (indices @ [idx sdiv 2]) (hashes @ [Sha256Hash [Bytes h, Bytes d]]) ds
             (head + 1) (tail + 1) (di + 1))
       else bind (if head + 1 \<noteq> tail
                  then bind (index indices (head + 1)) (\<lambda>j. Inr (j = idx - 1)) else Inr False) (\<lambda>sib.
         if sib then
           bind (index hashes (head + 1)) (\<lambda>l.
             multi_loop (indices @ [idx sdiv 2]) (hashes @ [Sha256Hash [Bytes l, Bytes h]]) ds
               (head + 1 + 1) (tail + 1) di)
         else
           bind (index ds di) (\<lambda>d.
             multi_loop (indices @ [idx sdiv 2]) (hashes @ [Sha256Hash [Bytes d, Bytes h]]) ds
               (head + 1) (tail + 1) (di + 1)))))"
  by pat_completeness auto
termination
  by (relation "measure (\<lambda>(indices, hashes, ds, head, tail, di).
        nat (int (length indices) - head) + nat (int (length ds) - di))")
    (auto simp: index_def split: if_splits)

declare multi_loop.simps [simp del]

definition MerkleMultiProof_ReconstructRoot :: "MerkleMultiProof \<Rightarrow> hash go" where
  "MerkleMultiProof_ReconstructRoot p =
     (if genIndices p = [] then index (Decommitments p) 0
      else multi_loop (genIndices p) (leavesHashes p) (Decommitments p) 0 (int (length (genIndices p))) 0)"

subsection \<open>The verifier's loop runs the queue\<close>

lemma and_1_eq_0: "int n AND 1 = 0 \<longleftrightarrow> even n"
  by (simp add: and_one_eq) presburger

text \<open>
  The Go state represents the queue \<open>q\<close> and the unused decommitments \<open>ds\<close>: the slices hold what
  has been consumed, then the queue; \<open>head\<close>, \<open>tail\<close> and \<open>di\<close> are the positions.
\<close>

definition loop_repr ::
  "int list \<Rightarrow> hash list \<Rightarrow> hash list \<Rightarrow> int \<Rightarrow> int \<Rightarrow> int \<Rightarrow> (nat \<times> hash) list \<Rightarrow> hash list \<Rightarrow> bool"
where
  "loop_repr indices hashes dall head tail di q ds \<longleftrightarrow>
     (\<exists>is0 hs0 ds0. indices = is0 @ map (int \<circ> fst) q \<and> hashes = hs0 @ map snd q \<and> dall = ds0 @ ds
        \<and> length is0 = length hs0 \<and> head = int (length hs0) \<and> tail = int (length indices)
        \<and> di = int (length ds0))"

lemma index_append [simp]: "index (xs @ y # ys) (int (length xs)) = Inr y"
  using index_nat [of "length xs" "xs @ y # ys"] by simp

lemma loop_repr_head:
  assumes "loop_repr indices hashes dall head tail di ((i, h) # q) ds"
  shows "index indices head = Inr (int i)" and "index hashes head = Inr h"
    and "head + 1 = tail \<longleftrightarrow> q = []"
proof -
  obtain is0 hs0 where st: "indices = is0 @ int i # map (int \<circ> fst) q" "hashes = hs0 @ h # map snd q"
    "length is0 = length hs0" "head = int (length hs0)" "tail = int (length indices)"
    using assms by (auto simp: loop_repr_def)
  then show "index indices head = Inr (int i)" and "index hashes head = Inr h"
    by (metis index_append)+
  show "head + 1 = tail \<longleftrightarrow> q = []" using st by auto
qed

lemma loop_repr_next:
  assumes "loop_repr indices hashes dall head tail di ((i, h) # q) ds" and "q \<noteq> []"
  shows "index indices (head + 1) = Inr (int (fst (hd q)))" and "index hashes (head + 1) = Inr (snd (hd q))"
proof -
  obtain j k q' where q: "q = (j, k) # q'" using assms(2) by (cases q) auto
  obtain is0 hs0 where "indices = (is0 @ [int i]) @ int j # map (int \<circ> fst) q'"
    and "hashes = (hs0 @ [h]) @ k # map snd q'" and "head + 1 = int (length (hs0 @ [h]))"
    and "length (is0 @ [int i]) = length (hs0 @ [h])"
    using assms(1) by (auto simp: loop_repr_def q)
  then show "index indices (head + 1) = Inr (int (fst (hd q)))" and "index hashes (head + 1) = Inr (snd (hd q))"
    by (metis index_append list.sel(1) fst_conv snd_conv q)+
qed

lemma loop_repr_decommit:
  assumes "loop_repr indices hashes dall head tail di q (d # ds)"
  shows "index dall di = Inr d" and "loop_repr indices hashes dall head tail (di + 1) q ds"
proof -
  obtain is0 hs0 ds0 where st: "indices = is0 @ map (int \<circ> fst) q" "hashes = hs0 @ map snd q"
    "dall = ds0 @ d # ds" "length is0 = length hs0" "head = int (length hs0)"
    "tail = int (length indices)" "di = int (length ds0)"
    using assms by (auto simp: loop_repr_def)
  then show "index dall di = Inr d" by simp
  have "dall = (ds0 @ [d]) @ ds" and "di + 1 = int (length (ds0 @ [d]))" using st by simp_all
  with st show "loop_repr indices hashes dall head tail (di + 1) q ds"
    unfolding loop_repr_def by blast
qed

lemma loop_repr_pop:
  "loop_repr indices hashes dall head tail di ((i, h) # q) ds \<Longrightarrow>
   loop_repr indices hashes dall (head + 1) tail di q ds"
  unfolding loop_repr_def
  by (elim exE, rule_tac x = "is0 @ [int i]" in exI, rule_tac x = "hs0 @ [h]" in exI) auto

lemma loop_repr_push:
  "loop_repr indices hashes dall head tail di q ds \<Longrightarrow>
   loop_repr (indices @ [int j]) (hashes @ [k]) dall head (tail + 1) di (q @ [(j, k)]) ds"
  unfolding loop_repr_def by auto

text \<open>When the decommitments are used up the code indexes past the end of the slice.\<close>

definition of_queue :: "'a option \<Rightarrow> 'a go" where
  "of_queue m = (case m of None \<Rightarrow> Inl (Panic ''index out of range'') | Some r \<Rightarrow> Inr r)"

lemma of_queue_simps [simp]: "of_queue None = Inl (Panic ''index out of range'')" "of_queue (Some r) = Inr r"
  by (simp_all add: of_queue_def)

lemma loop_repr_empty:
  "loop_repr indices hashes dall head tail di q [] \<Longrightarrow> index dall di = Inl (Panic ''index out of range'')"
  by (auto simp: loop_repr_def index_def)

lemma multi_loop_queue:
  assumes "loop_repr indices hashes dall head tail di q ds" and "q \<noteq> []"
  shows "multi_loop indices hashes dall head tail di = of_queue (queue_run node_hash q ds)"
  using assms
proof (induction node_hash q ds arbitrary: indices hashes head tail di rule: queue_run.induct)
  case (2 i h q ds)
  note repr = "2.prems"(1)
  note hd = loop_repr_head [OF repr]
  show ?case
  proof (cases "i = 1")
    case True
    with hd show ?thesis by (subst multi_loop.simps) (simp add: queue_run.simps(2))
  next
    case i: False
    have big: "int i \<noteq> 1" and half: "int i sdiv 2 = int (i div 2)" using i by auto
    note popped = loop_repr_pop [OF repr]
    note pushed = loop_repr_push [OF popped]
    show ?thesis
    proof (cases "even i")
      case True
      show ?thesis
      proof (cases ds)
        case Nil
        then have "index dall di = Inl (Panic ''index out of range'')"
          using loop_repr_empty repr by blast
        with True i big hd Nil show ?thesis
          by (subst multi_loop.simps) (simp add: and_1_eq_0 queue_run.simps(2))
      next
        case (Cons d ds')
        note dd = loop_repr_decommit [OF pushed [of "i div 2" "node_hash h d", unfolded Cons]]
        have "multi_loop (indices @ [int (i div 2)]) (hashes @ [node_hash h d]) dall (head + 1) (tail + 1) (di + 1)
            = of_queue (queue_run node_hash (q @ [(i div 2, node_hash h d)]) ds')"
          using True i Cons dd(2) by (intro "2.hyps"(1)) auto
        with True i hd(1,2) big dd(1) Cons show ?thesis
          by (subst multi_loop.simps)
            (simp add: and_1_eq_0 half node_hash_def [symmetric] queue_run.simps(2) del: of_nat_div)
      qed
    next
      case odd: False
      then have i0: "0 < i" by (cases i) auto
      show ?thesis
      proof (cases "q \<noteq> [] \<and> fst (hd q) = i - 1")
        case True
        then have q: "q \<noteq> []" and sib: "int (fst (hd q)) = int i - 1" using i0 by auto
        obtain l q' where ql: "q = (i - 1, l) # q'" using True by (cases q) auto
        note nx = loop_repr_next [OF repr q]
        have "loop_repr indices hashes dall (head + 1 + 1) tail di (tl q) ds"
          using loop_repr_pop [OF popped [unfolded ql]] by (simp add: ql)
        note pushed2 = loop_repr_push [OF this, of "i div 2" "node_hash (snd (hd q)) h"]
        have "multi_loop (indices @ [int (i div 2)]) (hashes @ [node_hash (snd (hd q)) h]) dall (head + 1 + 1) (tail + 1) di
            = of_queue (queue_run node_hash (tl q @ [(i div 2, node_hash (snd (hd q)) h)]) ds)"
          using i odd True pushed2 by (intro "2.hyps"(2)) auto
        with odd i hd big nx q sib True show ?thesis
          by (subst multi_loop.simps)
            (simp add: and_1_eq_0 half node_hash_def [symmetric] queue_run.simps(2) del: of_nat_div)
      next
        case nosib: False
        then have sib: "(if head + 1 \<noteq> tail then bind (index indices (head + 1)) (\<lambda>j. Inr (j = int i - 1))
            else Inr False) = Inr False"
          using hd(3) loop_repr_next(1) [OF repr] i0 by (cases "q = []") auto
        show ?thesis
        proof (cases ds)
          case Nil
          then have "index dall di = Inl (Panic ''index out of range'')"
            using loop_repr_empty repr by blast
          with odd i big hd(1,2) sib Nil nosib show ?thesis
            by (subst multi_loop.simps) (simp only: bind_Inr bind_Inl and_1_eq_0 if_True if_False,
              auto simp: queue_run.simps(2))
        next
          case (Cons d ds')
          note dd = loop_repr_decommit [OF pushed [of "i div 2" "node_hash d h", unfolded Cons]]
          have "multi_loop (indices @ [int (i div 2)]) (hashes @ [node_hash d h]) dall (head + 1) (tail + 1) (di + 1)
              = of_queue (queue_run node_hash (q @ [(i div 2, node_hash d h)]) ds')"
            using odd i nosib Cons dd(2) by (intro "2.hyps"(3)) auto
          with odd i hd(1,2) big dd(1) sib Cons nosib show ?thesis
            by (subst multi_loop.simps) (simp only: bind_Inr and_1_eq_0 if_True if_False half
              node_hash_def [symmetric], auto simp: queue_run.simps(2))
        qed
      qed
    qed
  qed
qed simp

text \<open>Hence the whole verifier, on any non-empty list of indices and leaves.\<close>

lemma MultiProof_ReconstructRoot_queue:
  assumes "gis \<noteq> []" and "length hs = length gis"
  shows "MerkleMultiProof_ReconstructRoot
           \<lparr>genIndices = map int gis, leavesHashes = hs, Decommitments = ds\<rparr>
       = of_queue (queue_run node_hash (zip gis hs) ds)"
proof -
  have "map (int \<circ> fst) (zip gis hs) = map int gis"
    using assms(2) by (simp only: map_map [symmetric] map_fst_zip)
  then have "loop_repr (map int gis) hs ds 0 (int (length gis)) 0 (zip gis hs) ds"
    unfolding loop_repr_def using assms by (intro exI [of _ "[]"]) simp
  moreover have "zip gis hs \<noteq> []" using assms by (cases gis; cases hs) auto
  ultimately show ?thesis
    using assms(1) by (simp add: MerkleMultiProof_ReconstructRoot_def multi_loop_queue)
qed

subsection \<open>The prover's loops\<close>

lemma foldl_update:
  assumes "inj f" and "i \<in> set xs"
  shows "foldl (\<lambda>m i. m(f i \<mapsto> g i)) m0 xs (f i) = Some (g i)"
  using assms(2)
proof (induction xs rule: rev_induct)
  case (snoc x xs)
  then show ?case using injD [OF assms(1), of i x] by auto
qed simp

lemma lookup_init_hashes:
  assumes "tree_wf t" and "b < 2 ^ tree_depth t"
  shows "lookup_hash (init_hashes t) (int (2 ^ tree_depth t + b)) = leaf_at (leaves t) b"
proof -
  have lim: "limit t = int (2 ^ tree_depth t)" using tree_wf_limit [OF assms(1)] .
  have "init_hashes t (int b + limit t) = Some (if b < length (leaves t) then leaves t ! b else ZeroHash 0)"
    unfolding init_hashes_def using assms(2)
    by (intro foldl_update) (auto simp: inj_def lim nat_power_eq)
  moreover have "int (2 ^ tree_depth t + b) = int b + limit t" by (simp add: lim)
  ultimately show ?thesis by (simp only: lookup_hash_def leaf_at_def option.case) simp
qed

lemma collect_known_map:
  assumes "\<forall>j \<in> set js. j < length (leaves t)"
  shows "collect_known t (map int js) gs hs known =
     Inr (gs @ map (\<lambda>j. int j + limit t) js, hs @ map ((!) (leaves t)) js,
          \<lambda>k. known k \<or> k \<in> (\<lambda>j. int j + limit t) ` set js)"
  using assms
proof (induction js arbitrary: gs hs known)
  case (Cons j js)
  then have j: "j < length (leaves t)" by simp
  have "collect_known t (map int (j # js)) gs hs known
      = collect_known t (map int js) (gs @ [int j + limit t]) (hs @ [leaves t ! j]) (known(int j + limit t := True))"
    using j by simp
  then show ?case using Cons by (auto simp: fun_eq_iff)
qed (simp add: fun_eq_iff)

lemma pair_loop_decommit:
  assumes "m < 2 ^ d"
    and "\<And>j. m < j \<Longrightarrow> j < 2 ^ Suc d \<Longrightarrow>
          known (int j) = opened d is j \<and> lookup_hash hashes (int j) = heap d xs j"
  shows "pair_loop (int (2 * m + 1)) dec known hashes = dec @ decommit (heap d xs) (opened d is) m"
  using assms
proof (induction m arbitrary: dec known hashes)
  case 0
  show ?case by (subst pair_loop.simps) simp
next
  case (Suc m)
  let ?i = "2 * Suc m"
  let ?dec = "dec @ (if opened d is ?i \<and> \<not> opened d is (?i + 1) then [heap d xs (?i + 1)]
                     else if \<not> opened d is ?i \<and> opened d is (?i + 1) then [heap d xs ?i] else [])"
  let ?known = "known(int (Suc m) := opened d is ?i \<or> opened d is (?i + 1))"
  let ?hashes = "hashes(int (Suc m) \<mapsto> node_hash (heap d xs ?i) (heap d xs (?i + 1)))"
  have i: "int (2 * Suc m + 1) > 1" "int (2 * Suc m + 1) - 1 = int ?i"
    "int (2 * Suc m + 1) - 2 = int (2 * m + 1)" "int (2 * Suc m + 1) sdiv 2 = int (Suc m)"
    using sdiv_2_nat [of "2 * Suc m + 1"] by simp_all
  have "known (int ?i) = opened d is ?i" "known (int (?i + 1)) = opened d is (?i + 1)"
    "lookup_hash hashes (int ?i) = heap d xs ?i" "lookup_hash hashes (int (?i + 1)) = heap d xs (?i + 1)"
    using Suc.prems(2) [of ?i] Suc.prems(2) [of "?i + 1"] Suc.prems(1) by auto
  then have "pair_loop (int (2 * Suc m + 1)) dec known hashes = pair_loop (int (2 * m + 1)) ?dec ?known ?hashes"
    by (subst pair_loop.simps) (simp only: i Let_def node_hash_def if_True, simp split: if_splits)
  also have "\<dots> = ?dec @ decommit (heap d xs) (opened d is) m"
  proof (rule Suc.IH)
    fix j assume j: "m < j" "j < 2 ^ Suc d"
    show "?known (int j) = opened d is j \<and> lookup_hash ?hashes (int j) = heap d xs j"
    proof (cases "j = Suc m")
      case True
      then show ?thesis
        using Suc.prems(1) opened_node [of "Suc m" d "is"] heap_node [of "Suc m" d xs]
        by (simp add: lookup_hash_def)
    next
      case False
      then show ?thesis using j Suc.prems(2) [of j] by (simp add: lookup_hash_def)
    qed
  qed (use Suc.prems(1) in simp)
  finally show ?case by (simp add: decommit.simps(2) Let_def)
qed

subsection \<open>The multiproof of sorted indices\<close>

lemma MakeMultiProof_Inr:
  assumes "tree_wf t" and "js \<noteq> []" and "\<forall>j \<in> set js. j < length (leaves t)"
  defines "d \<equiv> tree_depth t"
  shows "MerkleTree_MakeMultiProof t (map int js) = Inr
     \<lparr>genIndices = map (\<lambda>j. int (2 ^ d + j)) (rev js),
      leavesHashes = map ((!) (leaves t)) (rev js),
      Decommitments = decommit (heap d (leaves t)) (opened d js) (2 ^ d - 1)\<rparr>"
proof -
  have lim: "limit t = int (2 ^ d)" using tree_wf_limit [OF assms(1)] by (simp add: d_def)
  let ?known = "\<lambda>k. k \<in> (\<lambda>j. int j + limit t) ` set (rev js)"
  have "collect_known t (rev (map int js)) [] [] (\<lambda>_. False)
      = Inr (map (\<lambda>j. int j + limit t) (rev js), map ((!) (leaves t)) (rev js), ?known)"
    using collect_known_map [of "rev js" t "[]" "[]" "\<lambda>_. False"] assms(3) by (simp add: rev_map)
  moreover have "pair_loop (limit t * 2 - 1) [] ?known (init_hashes t)
      = decommit (heap d (leaves t)) (opened d js) (2 ^ d - 1)"
  proof -
    have "pair_loop (int (2 * (2 ^ d - 1) + 1)) [] ?known (init_hashes t)
        = [] @ decommit (heap d (leaves t)) (opened d js) (2 ^ d - 1)"
    proof (rule pair_loop_decommit)
      fix k :: nat assume k: "2 ^ d - 1 < k" "k < 2 ^ Suc d"
      then obtain b where b: "k = 2 ^ d + b" "b < 2 ^ d"
        by (intro that [of "k - 2 ^ d"]) auto
      have "heap d (leaves t) k = leaf_at (leaves t) b"
        by (subst heap.simps) (simp add: b)
      moreover have "int k = int b + limit t" by (simp add: b lim)
      ultimately show "?known (int k) = opened d js k \<and> lookup_hash (init_hashes t) (int k) = heap d (leaves t) k"
        using lookup_init_hashes [OF assms(1), of b] b by (auto simp: d_def simp del: of_nat_add)
    qed simp
    moreover have "limit t * 2 - 1 = int (2 * (2 ^ d - 1) + 1)"
      by (simp add: lim of_nat_diff)
    ultimately show ?thesis by (simp only: append_Nil)
  qed
  ultimately show ?thesis
    using assms(2) by (simp add: MerkleTree_MakeMultiProof_def lim add.commute)
qed

lemma multi_proof_root:
  assumes "tree_wf t" and "sorted_wrt (<) js" and "js \<noteq> []" and "\<forall>j \<in> set js. j < length (leaves t)"
  shows "bind (MerkleTree_MakeMultiProof t (map int js)) MerkleMultiProof_ReconstructRoot
       = Inr (mroot (tree_depth t) (leaves t))"
proof -
  let ?d = "tree_depth t" and ?h = "heap (tree_depth t) (leaves t)"
  let ?gis = "map (\<lambda>j. 2 ^ ?d + j) (rev js)" and ?hs = "map ((!) (leaves t)) (rev js)"
  let ?ds = "decommit ?h (opened ?d js) (2 ^ ?d - 1)"
  have lt: "\<forall>j \<in> set js. j < 2 ^ ?d" using assms(4) tree_wf_leaves [OF assms(1)] by fastforce
  have "zip ?gis ?hs = map (\<lambda>i. (2 ^ ?d + i, ?h (2 ^ ?d + i))) (rev js)"
    using assms(4) by (simp add: zip_map_map zip_same_conv_map o_def split_beta)
  then have "queue_run node_hash (zip ?gis ?hs) ?ds = Some (mroot ?d (leaves t))"
    using queue_run_leaves [OF assms(2) lt assms(3), of "leaves t"] heap_root [OF tree_wf_leaves [OF assms(1)]]
    by simp
  then have "MerkleMultiProof_ReconstructRoot \<lparr>genIndices = map int ?gis, leavesHashes = ?hs, Decommitments = ?ds\<rparr>
      = Inr (mroot ?d (leaves t))"
    using assms(3) by (subst MultiProof_ReconstructRoot_queue) simp_all
  then show ?thesis
    using MakeMultiProof_Inr [OF assms(1,3,4)] by (simp add: o_def del: of_nat_add)
qed

subsection \<open>Properties of multiproofs\<close>

lemma level_ok_leaves:
  fixes js :: "nat list"
  assumes "sorted_wrt (<) js" and "js \<noteq> []" and "\<forall>j \<in> set js. j < 2 ^ d"
  shows "level_ok (map (\<lambda>j. 2 ^ d + j) (rev js))"
proof -
  have "last js < 2 ^ d" using assms(2,3) by simp
  then have "2 ^ d + last js < 2 * (2 ^ d + hd js)" by (simp add: trans_less_add1)
  then show ?thesis
    using assms(1,2) by (simp add: level_ok_def sorted_wrt_map sorted_wrt_rev hd_map hd_rev last_map last_rev)
qed

lemma collide_sha:
  "collide node_hash xs ys \<Longrightarrow>
   \<exists>((a, b), (c, d)) \<in> set (zip xs ys). sha_collision (Bytes a @ Bytes b, Bytes c @ Bytes d)"
  unfolding collide_def pair_collision_def
  by (fastforce intro: node_hash_collision)

text \<open>C9. A multiproof over any set of leaf indices of a vector tree (ascending, as the oracle builds
  them; the empty set included) makes the verifier return the root that \<^verbatim>\<open>Hash\<close> computes.\<close>

theorem MakeMultiProof_ReconstructRoot:
  assumes "tree_wf t" and "\<not> isList t" and "sorted_wrt (<) js" and "\<forall>j \<in> set js. j < length (leaves t)"
  shows "bind (MerkleTree_MakeMultiProof t (map int js)) MerkleMultiProof_ReconstructRoot = MerkleTree_Hash t"
proof (cases "js = []")
  case True
  then show ?thesis
    by (simp add: MerkleTree_MakeMultiProof_def MerkleMultiProof_ReconstructRoot_def MerkleTree_Hash_root assms(1))
next
  case False
  then show ?thesis
    using multi_proof_root [OF assms(1,3) _ assms(4)] assms(2)
    by (simp add: MerkleTree_Hash_root assms(1) tree_root_def Let_def)
qed

theorem MakeMultiProof_ReconstructRoot_witness:
  "bind (MerkleTree_MakeMultiProof \<lparr>isList = False, tlen = 0, limit = 4, leaves = map UintToHash [5, 6, 7, 8]\<rparr> [0, 3])
     MerkleMultiProof_ReconstructRoot
   = MerkleTree_Hash \<lparr>isList = False, tlen = 0, limit = 4, leaves = map UintToHash [5, 6, 7, 8]\<rparr>"
  using MakeMultiProof_ReconstructRoot [of "\<lparr>isList = False, tlen = 0, limit = 4, leaves = map UintToHash [5, 6, 7, 8]\<rparr>" "[0, 3]"]
    tree_wfI [of "\<lparr>isList = False, tlen = 0, limit = 4, leaves = map UintToHash [5, 6, 7, 8]\<rparr>" 2]
  by simp

text \<open>C11. Soundness of multiproofs: if the verifier returns the root of a vector tree for the indices
  \<open>js\<close> (as generalized indices, last first), then the leaf hashes it was given are the tree's leaves at
  \<open>js\<close>, or its run and the honest run contain a collision of SHA-256. Decommitments are arbitrary.\<close>

theorem MultiProof_sound:
  assumes "tree_wf t" and "\<not> isList t" and "sorted_wrt (<) js" and "js \<noteq> []"
    and "\<forall>j \<in> set js. j < length (leaves t)"
    and "length hs = length js"
    and "MerkleMultiProof_ReconstructRoot
           \<lparr>genIndices = map (\<lambda>j. int (2 ^ tree_depth t + j)) (rev js), leavesHashes = hs, Decommitments = ds\<rparr>
         = MerkleTree_Hash t"
  defines "gis \<equiv> map (\<lambda>j. 2 ^ tree_depth t + j) (rev js)"
  shows "hs = map ((!) (leaves t)) (rev js)
    \<or> (\<exists>((a, b), (c, d)) \<in> set (zip (queue_pairs node_hash (zip gis hs) ds)
          (queue_pairs node_hash (zip gis (map ((!) (leaves t)) (rev js)))
             (decommit (heap (tree_depth t) (leaves t)) (opened (tree_depth t) js) (2 ^ tree_depth t - 1)))).
         sha_collision (Bytes a @ Bytes b, Bytes c @ Bytes d))"
proof -
  let ?d = "tree_depth t" and ?hs = "map ((!) (leaves t)) (rev js)"
  let ?ds = "decommit (heap ?d (leaves t)) (opened ?d js) (2 ^ ?d - 1)"
  have ne: "gis \<noteq> []" and ints: "map (\<lambda>j. int (2 ^ ?d + j)) (rev js) = map int gis"
    and len: "length hs = length gis" "length ?hs = length gis"
    using assms(4,6) by (simp_all add: gis_def o_def)
  have root: "MerkleTree_Hash t = Inr (mroot ?d (leaves t))"
    using assms(1,2) by (simp add: MerkleTree_Hash_root tree_root_def Let_def)
  have "of_queue (queue_run node_hash (zip gis hs) ds) = Inr (mroot ?d (leaves t))"
    using assms(7) MultiProof_ReconstructRoot_queue [OF ne len(1), of ds] root ints by simp
  then have run: "queue_run node_hash (zip gis hs) ds = Some (mroot ?d (leaves t))"
    by (cases "queue_run node_hash (zip gis hs) ds") auto
  have "of_queue (queue_run node_hash (zip gis ?hs) ?ds) = Inr (mroot ?d (leaves t))"
    using multi_proof_root [OF assms(1,3,4,5)] MultiProof_ReconstructRoot_queue [OF ne len(2), of ?ds]
    unfolding MakeMultiProof_Inr [OF assms(1,4,5)] bind_Inr ints by simp
  then have honest: "queue_run node_hash (zip gis ?hs) ?ds = Some (mroot ?d (leaves t))"
    by (cases "queue_run node_hash (zip gis ?hs) ?ds") auto
  have "\<forall>j \<in> set js. j < 2 ^ ?d" using assms(5) tree_wf_leaves [OF assms(1)] by fastforce
  then have "level_ok (map fst (zip gis hs))"
    using level_ok_leaves [OF assms(3,4)] len by (simp add: gis_def)
  then have "map snd (zip gis hs) = map snd (zip gis ?hs)
      \<or> collide node_hash (queue_pairs node_hash (zip gis hs) ds) (queue_pairs node_hash (zip gis ?hs) ?ds)"
    using len by (intro queue_binding [OF run honest]) (simp_all only: map_fst_zip)
  moreover have "map snd (zip gis hs) = hs" "map snd (zip gis ?hs) = ?hs"
    using len by (simp_all only: map_snd_zip)
  ultimately show ?thesis using collide_sha by metis
qed

theorem MultiProof_sound_witness:
  "[UintToHash 6] = [UintToHash 6]
   \<or> (\<exists>((a, b), (c, d)) \<in> set (zip (queue_pairs node_hash (zip [3] [UintToHash 6]) [UintToHash 5])
        (queue_pairs node_hash (zip [3] [UintToHash 6])
           (decommit (heap 1 [UintToHash 5, UintToHash 6]) (opened 1 [1]) (2 ^ 1 - 1)))).
        sha_collision (Bytes a @ Bytes b, Bytes c @ Bytes d))"
proof -
  let ?t = "\<lparr>isList = False, tlen = 0, limit = 2, leaves = [UintToHash 5, UintToHash 6]\<rparr>"
  have wf: "tree_wf ?t" and depth: "tree_depth ?t = 1" using tree_wfI [of ?t 1] by simp_all
  have "MerkleMultiProof_ReconstructRoot
      \<lparr>genIndices = map int [3], leavesHashes = [UintToHash 6], Decommitments = [UintToHash 5]\<rparr> = MerkleTree_Hash ?t"
    using MultiProof_ReconstructRoot_queue [of "[3]" "[UintToHash 6]" "[UintToHash 5]"]
    by (simp add: MerkleTree_Hash_root [OF wf] tree_root_def depth queue_run.simps(2))
  then show ?thesis
    using MultiProof_sound [OF wf, of "[1]" "[UintToHash 6]" "[UintToHash 5]"] by (simp add: depth)
qed

text \<open>C28. For a list tree the two functions disagree: a multiproof of at least one leaf reconstructs
  the root of the leaves without the length, while \<^verbatim>\<open>Hash\<close> mixes the length in.\<close>

theorem MakeMultiProof_list_root:
  assumes "tree_wf t" and "isList t" and "sorted_wrt (<) js" and "js \<noteq> []"
    and "\<forall>j \<in> set js. j < length (leaves t)"
  shows "\<exists>r. bind (MerkleTree_MakeMultiProof t (map int js)) MerkleMultiProof_ReconstructRoot = Inr r
           \<and> MerkleTree_Hash t = Inr (node_hash r (UintToHash (of_int (tlen t))))"
  using multi_proof_root [OF assms(1,3,4,5)] assms(2)
  by (simp add: MerkleTree_Hash_root assms(1) tree_root_def Let_def)

theorem MakeMultiProof_list_root_witness:
  "\<exists>r. bind (MerkleTree_MakeMultiProof \<lparr>isList = True, tlen = 1, limit = 4, leaves = [UintToHash 5]\<rparr> [0])
         MerkleMultiProof_ReconstructRoot = Inr r
     \<and> MerkleTree_Hash \<lparr>isList = True, tlen = 1, limit = 4, leaves = [UintToHash 5]\<rparr>
         = Inr (node_hash r (UintToHash 1))"
  using MakeMultiProof_list_root [of "\<lparr>isList = True, tlen = 1, limit = 4, leaves = [UintToHash 5]\<rparr>" "[0]"]
    tree_wfI [of "\<lparr>isList = True, tlen = 1, limit = 4, leaves = [UintToHash 5]\<rparr>" 2]
  by simp

end
