(* ===== verification/Merkle_Contract.thy ===== *)
theory Merkle_Contract
  imports Merkle_Multi
begin

unbundle bit_operations_syntax

section \<open>The verifier on chain (contracts/light\_client/libraries/Merkle.sol)\<close>

text \<open>
  The contracts check the oracle's proofs with their own code: \<^verbatim>\<open>restoreMerkleRoot\<close> climbs one
  branch with the bits of a 256-bit generalized index, \<^verbatim>\<open>restoreMerkleMultiRoot\<close> runs the queue of a
  multiproof inside the argument arrays, as a ring buffer. \<open>None\<close> is a reverted transaction: a
  failed \<^verbatim>\<open>require\<close>, an index past the end of an array, or a loop that uses up its gas.
  Both are shown equal to the oracle's verifiers.
\<close>

type_synonym u256 = "256 word"

definition hashPair :: "hash \<Rightarrow> hash \<Rightarrow> hash" where
  "hashPair a b = Sha256Hash [Bytes a, Bytes b]"

lemma hashPair_node [simp]: "hashPair = node_hash"
  by (simp add: fun_eq_iff hashPair_def node_hash_def)

subsection \<open>restoreMerkleRoot\<close>

fun restore_loop :: "u256 \<Rightarrow> hash list \<Rightarrow> nat \<Rightarrow> hash \<Rightarrow> hash" where
  "restore_loop gi [] i leaf = leaf"
| "restore_loop gi (p # ps) i leaf =
     restore_loop gi ps (i + 1) (if gi AND push_bit i 1 = 0 then hashPair leaf p else hashPair p leaf)"

definition restoreMerkleRoot :: "hash \<Rightarrow> u256 \<Rightarrow> hash list \<Rightarrow> hash option" where
  "restoreMerkleRoot leaf gi branch =
     (if drop_bit (length branch) gi = 1 then Some (restore_loop gi branch 0 leaf) else None)"

lemma bit_unat: "bit (unat w) i \<longleftrightarrow> bit w i" for w :: u256
  by (auto simp: bit_unsigned_iff possible_bit_def dest: bit_imp_le_length)

lemma and_push_bit_1: "gi AND push_bit i 1 = 0 \<longleftrightarrow> even (unat gi div 2 ^ i)" for gi :: u256
proof -
  have "gi AND push_bit i 1 = 0 \<longleftrightarrow> \<not> bit gi i"
    by (simp add: push_bit_of_1 and_exp_eq_0_iff_not_bit)
  also have "bit gi i \<longleftrightarrow> bit (unat gi) i" by (simp only: bit_unat)
  finally show ?thesis by (simp add: bit_iff_odd)
qed

lemma unat_drop_bit_1: "drop_bit n gi = 1 \<longleftrightarrow> unat gi div 2 ^ n = 1" for gi :: u256
proof -
  have "unat (drop_bit n gi) = unat gi div 2 ^ n" by (simp only: unat_drop_bit_eq drop_bit_eq_div [of n "unat gi"])
  then show ?thesis by (simp add: word_unat_eq_iff)
qed

lemma restore_loop_climb: "restore_loop gi ps i leaf = climb node_hash (unat gi div 2 ^ i) ps leaf"
proof (induction ps arbitrary: i leaf)
  case (Cons p ps)
  have "unat gi div 2 ^ i div 2 = unat gi div 2 ^ (i + 1)"
    by (simp add: div_mult2_eq [symmetric] mult.commute)
  then show ?case by (simp only: restore_loop.simps climb.simps Cons.IH and_push_bit_1 hashPair_node if_not_P) simp
qed simp

lemma restoreMerkleRoot_climb:
  "restoreMerkleRoot leaf gi branch =
     (if unat gi div 2 ^ length branch = 1 then Some (climb node_hash (unat gi) branch leaf) else None)"
  by (simp add: restoreMerkleRoot_def restore_loop_climb unat_drop_bit_1)

subsection \<open>restoreMerkleMultiRoot\<close>

partial_function (option) restore_multi_loop ::
  "hash list \<Rightarrow> u256 list \<Rightarrow> hash list \<Rightarrow> nat \<Rightarrow> nat \<Rightarrow> nat \<Rightarrow> hash option"
where
  "restore_multi_loop ds indices hashes head tail di =
     (let n = length indices; idx = indices ! head; h = hashes ! head; head = (head + 1) mod n in
      if idx = 1 then Some h
      else if idx AND 1 = 0 then
        (if di < length ds
         then restore_multi_loop ds (indices[tail := idx div 2]) (hashes[tail := hashPair h (ds ! di)])
                head ((tail + 1) mod n) (di + 1)
         else None)
      else if indices ! head = idx - 1 \<and> head \<noteq> tail then
        restore_multi_loop ds (indices[tail := idx div 2]) (hashes[tail := hashPair (hashes ! head) h])
          ((head + 1) mod n) ((tail + 1) mod n) di
      else
        (if di < length ds
         then restore_multi_loop ds (indices[tail := idx div 2]) (hashes[tail := hashPair (ds ! di) h])
                head ((tail + 1) mod n) (di + 1)
         else None))"

definition restoreMerkleMultiRoot :: "u256 list \<Rightarrow> hash list \<Rightarrow> hash list \<Rightarrow> hash option" where
  "restoreMerkleMultiRoot indices hashes ds =
     (if length indices \<noteq> length hashes then None
      else if length indices = 0 then (case ds of [] \<Rightarrow> None | d # _ \<Rightarrow> Some d)
      else restore_multi_loop ds indices hashes 0 0 0)"

text \<open>The ring buffer: the queue starts at \<open>head\<close> and ends before \<open>tail\<close>, modulo the array length.\<close>

definition ring :: "u256 list \<Rightarrow> hash list \<Rightarrow> nat \<Rightarrow> nat \<Rightarrow> (nat \<times> hash) list \<Rightarrow> bool" where
  "ring indices hashes head tail q \<longleftrightarrow>
     (let n = length indices in
      length hashes = n \<and> head < n \<and> length q \<le> n \<and> tail = (head + length q) mod n \<and>
      (\<forall>k < length q. unat (indices ! ((head + k) mod n)) = fst (q ! k)
                    \<and> hashes ! ((head + k) mod n) = snd (q ! k)))"

lemma ring_front:
  assumes "ring indices hashes head tail ((i, h) # q)"
  shows "unat (indices ! head) = i" and "hashes ! head = h"
  using assms by (auto simp: ring_def Let_def dest: spec [of _ 0])

lemma ring_pop:
  assumes "ring indices hashes head tail (x # q)"
  shows "ring indices hashes ((head + 1) mod length indices) tail q"
proof -
  let ?n = "length indices"
  have pos: "0 < ?n" and tail: "tail = (head + Suc (length q)) mod ?n"
    and cells: "\<And>k. k < Suc (length q) \<Longrightarrow> unat (indices ! ((head + k) mod ?n)) = fst ((x # q) ! k)
        \<and> hashes ! ((head + k) mod ?n) = snd ((x # q) ! k)"
    using assms by (auto simp: ring_def Let_def)
  have shift: "((head + 1) mod ?n + k) mod ?n = (head + Suc k) mod ?n" for k
    by (simp add: mod_add_left_eq)
  have "unat (indices ! ((head + Suc k) mod ?n)) = fst (q ! k) \<and> hashes ! ((head + Suc k) mod ?n) = snd (q ! k)"
    if "k < length q" for k
    using cells [of "Suc k"] that by simp
  then show ?thesis
    using assms pos tail unfolding ring_def Let_def shift by auto
qed

lemma ring_empty:
  assumes "ring indices hashes head tail q" and "length q < length indices"
  shows "head = tail \<longleftrightarrow> q = []"
proof
  assume eq: "head = tail"
  from assms have n: "head < length indices" "tail = (head + length q) mod length indices"
    by (auto simp: ring_def Let_def)
  show "q = []"
  proof (cases "head + length q < length indices")
    case True
    then have "tail = head + length q" using n(2) by simp
    with eq show ?thesis by simp
  next
    case False
    have "tail = (head + length q - length indices) mod length indices"
      using n(2) False le_mod_geq [of "length indices" "head + length q"] by simp
    moreover have "head + length q - length indices < head" using n(1) assms(2) False by linarith
    ultimately have "tail \<le> head + length q - length indices" and "head + length q - length indices < head"
      by simp_all
    with eq show ?thesis by simp
  qed
next
  assume "q = []"
  then show "head = tail" using assms by (auto simp: ring_def Let_def)
qed

lemma ring_push:
  assumes "ring indices hashes head tail q" and "length q < length indices" and "unat w = j"
  shows "ring (indices[tail := w]) (hashes[tail := h]) head ((tail + 1) mod length indices) (q @ [(j, h)])"
proof -
  let ?n = "length indices"
  from assms have st: "length hashes = ?n" "head < ?n" "tail = (head + length q) mod ?n"
    and cells: "\<And>k. k < length q \<Longrightarrow> unat (indices ! ((head + k) mod ?n)) = fst (q ! k)
        \<and> hashes ! ((head + k) mod ?n) = snd (q ! k)"
    by (auto simp: ring_def Let_def)
  have tail: "tail < ?n" unfolding st(3) using st(2) by (intro mod_less_divisor) linarith
  have other: "tail \<noteq> (head + k) mod ?n" if "k < length q" for k
  proof -
    have "(head + k) mod ?n = (if head + k < ?n then head + k else head + k - ?n)"
      and "tail = (if head + length q < ?n then head + length q else head + length q - ?n)"
      using that st(2,3) assms(2) by (auto simp: le_mod_geq)
    with that st(2) assms(2) show ?thesis by (auto split: if_splits)
  qed
  have next_tail: "(head + Suc (length q)) mod ?n = Suc tail mod ?n"
    using mod_Suc_eq [of "head + length q" ?n] by (simp add: st(3))
  show ?thesis
    unfolding ring_def Let_def
    using st(1,2) tail cells assms(2,3) other next_tail
    by (auto simp: nth_append less_Suc_eq st(3) [symmetric])
qed

lemma restore_multi_loop_queue:
  assumes "ring indices hashes head tail q" and "q \<noteq> []"
  shows "restore_multi_loop ds indices hashes head tail di = queue_run node_hash q (drop di ds)"
  using assms
proof (induction node_hash q "drop di ds" arbitrary: indices hashes head tail di rule: queue_run.induct)
  case (2 i h q)
  let ?n = "length indices" and ?head = "(head + 1) mod length indices"
  let ?idx = "indices ! head"
  have idx: "unat ?idx = i" and h: "hashes ! head = h" using ring_front "2.prems"(1) by blast+
  have room: "length q < ?n" using "2.prems"(1) by (simp add: ring_def Let_def)
  have popped: "ring indices hashes ?head tail q" using ring_pop "2.prems"(1) by blast
  have half: "unat (?idx div 2) = i div 2" by (simp add: unat_div idx)
  note pushed = ring_push [OF popped room half]
  have one: "?idx = 1 \<longleftrightarrow> i = 1" by (metis idx unat_1 word_unat_eq_iff)
  have even: "?idx AND 1 = 0 \<longleftrightarrow> even i"
    using and_push_bit_1 [of ?idx 0] by (simp add: idx)
  have ds: "drop di ds = (if di < length ds then ds ! di # drop (di + 1) ds else [])"
    by (simp add: Cons_nth_drop_Suc)
  note loop = restore_multi_loop.simps [of ds indices hashes head tail di, unfolded Let_def one even h hashPair_node]
  show ?case
  proof (cases "i = 1")
    case True
    then show ?thesis by (simp add: loop queue_run.simps(2))
  next
    case i: False
    consider "even i" | "odd i" "q \<noteq> [] \<and> fst (hd q) = i - 1" | "odd i" "\<not> (q \<noteq> [] \<and> fst (hd q) = i - 1)"
      by blast
    then show ?thesis
    proof cases
      case 1
      have "restore_multi_loop ds (indices[tail := ?idx div 2]) (hashes[tail := node_hash h (ds ! di)])
              ?head ((tail + 1) mod ?n) (di + 1)
          = queue_run node_hash (q @ [(i div 2, node_hash h (ds ! di))]) (drop (di + 1) ds)"
        if "di < length ds"
        using i 1 pushed that by (intro "2.hyps"(1)) (simp_all add: ds)
      with i 1 show ?thesis by (subst loop, subst ds) (simp add: queue_run.simps(2))
    next
      case 2
      then obtain l q' where q: "q = (i - 1, l) # q'" by (cases q) auto
      note front = ring_front [OF popped [unfolded q]]
      have sib: "indices ! ?head = ?idx - 1" and ne: "?head \<noteq> tail"
      proof -
        have "0 < ?idx" using 2 idx by (cases "?idx = 0") (auto simp: word_gt_0)
        then have "unat (?idx - 1) = i - 1" by (metis idx word_gt_0 unat_minus_one)
        then show "indices ! ?head = ?idx - 1" using front(1) by (metis word_unat_eq_iff)
        show "?head \<noteq> tail" using ring_empty [OF popped room] 2 by blast
      qed
      have "ring indices hashes ((?head + 1) mod ?n) tail q'" using ring_pop popped q by blast
      then have "ring (indices[tail := ?idx div 2]) (hashes[tail := node_hash l h])
          ((?head + 1) mod ?n) ((tail + 1) mod ?n) (q' @ [(i div 2, node_hash l h)])"
        using room q by (intro ring_push half) auto
      then have "restore_multi_loop ds (indices[tail := ?idx div 2]) (hashes[tail := node_hash l h])
              ((?head + 1) mod ?n) ((tail + 1) mod ?n) di
          = queue_run node_hash (tl q @ [(i div 2, node_hash (snd (hd q)) h)]) (drop di ds)"
        using i 2 by (intro "2.hyps"(2)) (simp_all add: q)
      with i 2 sib ne front(2) show ?thesis by (subst loop) (simp add: queue_run.simps(2) q)
    next
      case 3
      have "restore_multi_loop ds (indices[tail := ?idx div 2]) (hashes[tail := node_hash (ds ! di) h])
              ?head ((tail + 1) mod ?n) (di + 1)
          = queue_run node_hash (q @ [(i div 2, node_hash (ds ! di) h)]) (drop (di + 1) ds)"
        if "di < length ds"
        using i 3 pushed that by (intro "2.hyps"(3)) (auto simp: ds)
      moreover have "\<not> (indices ! ?head = ?idx - 1 \<and> ?head \<noteq> tail)"
      proof
        assume sib: "indices ! ?head = ?idx - 1 \<and> ?head \<noteq> tail"
        then obtain j l q' where q: "q = (j, l) # q'" using ring_empty [OF popped room] by (cases q) auto
        have "0 < ?idx" using 3 idx by (cases "?idx = 0") (auto simp: word_gt_0)
        then have "j = i - 1"
          using ring_front(1) [OF popped [unfolded q]] sib idx by (metis word_gt_0 unat_minus_one)
        with 3 q show False by simp
      qed
      ultimately show ?thesis using i 3 by (subst loop, subst ds) (auto simp: queue_run.simps(2))
    qed
  qed
qed simp

lemma restoreMerkleMultiRoot_queue:
  assumes "indices \<noteq> []" and "length hashes = length indices"
  shows "restoreMerkleMultiRoot indices hashes ds = queue_run node_hash (zip (map unat indices) hashes) ds"
proof -
  have "ring indices hashes 0 0 (zip (map unat indices) hashes)"
    using assms by (simp add: ring_def Let_def)
  moreover have "zip (map unat indices) hashes \<noteq> []" using assms by (cases indices; cases hashes) auto
  ultimately show ?thesis
    using assms restore_multi_loop_queue [of indices hashes 0 0 _ ds 0] by (simp add: restoreMerkleMultiRoot_def)
qed

subsection \<open>The oracle's and the contract's verifiers agree\<close>

text \<open>C24. The contract's \<^verbatim>\<open>restoreMerkleRoot\<close> and the oracle's \<^verbatim>\<open>MerkleProof.ReconstructRoot\<close>
  accept the same proofs and compute the same root; where the oracle panics the contract reverts.\<close>

theorem restoreMerkleRoot_eq_ReconstructRoot:
  assumes "0 \<le> genIndex p" and "genIndex p < 2 ^ 63"
  shows "restoreMerkleRoot leaf (of_int (genIndex p)) (Path p) =
     (case MerkleProof_ReconstructRoot p leaf of Inl _ \<Rightarrow> None | Inr r \<Rightarrow> Some r)"
proof -
  have "unat (of_int (genIndex p) :: u256) = nat (genIndex p)"
    using assms by (simp add: unat_eq_nat_uint word_of_int_inverse [of "genIndex p"] uint_word_of_int
      take_bit_int_eq_self flip: of_int_eq_iff)
  moreover have "nat (genIndex p) div 2 ^ length (Path p) = 1 \<longleftrightarrow> genIndex p div 2 ^ length (Path p) = 1"
  proof -
    have "int (nat (genIndex p) div 2 ^ length (Path p)) = genIndex p div 2 ^ length (Path p)"
      using assms(1) by (simp add: zdiv_int)
    then show ?thesis by linarith
  qed
  ultimately show ?thesis by (simp add: restoreMerkleRoot_climb ReconstructRoot_climb)
qed

theorem restoreMerkleRoot_eq_ReconstructRoot_witness:
  "restoreMerkleRoot (UintToHash 7) 2 [UintToHash 8] =
     (case MerkleProof_ReconstructRoot \<lparr>genIndex = 2, Path = [UintToHash 8]\<rparr> (UintToHash 7) of
        Inl _ \<Rightarrow> None | Inr r \<Rightarrow> Some r)"
  using restoreMerkleRoot_eq_ReconstructRoot [of "\<lparr>genIndex = 2, Path = [UintToHash 8]\<rparr>" "UintToHash 7"] by simp

text \<open>C17. The contract's ring-buffer verifier \<^verbatim>\<open>restoreMerkleMultiRoot\<close> and the oracle's growing
  slices compute the same result on every multiproof with as many hashes as indices: the same root,
  or a revert where the oracle runs out of decommitments.\<close>

theorem restoreMerkleMultiRoot_eq_ReconstructRoot:
  assumes "length hs = length gis" and "\<forall>g \<in> set gis. g < 2 ^ 63"
  shows "restoreMerkleMultiRoot (map of_nat gis) hs ds =
     (case MerkleMultiProof_ReconstructRoot
             \<lparr>genIndices = map int gis, leavesHashes = hs, Decommitments = ds\<rparr> of
        Inl _ \<Rightarrow> None | Inr r \<Rightarrow> Some r)"
proof (cases "gis = []")
  case True
  with assms show ?thesis
    by (cases ds) (simp_all add: restoreMerkleMultiRoot_def MerkleMultiProof_ReconstructRoot_def index_def)
next
  case False
  have "map unat (map of_nat gis :: u256 list) = gis"
    using assms(2) by (auto intro!: map_idI simp: o_def unat_of_nat take_bit_nat_eq_self)
  then have "restoreMerkleMultiRoot (map of_nat gis) hs ds = queue_run node_hash (zip gis hs) ds"
    using False assms(1) restoreMerkleMultiRoot_queue [of "map of_nat gis" hs ds] by simp
  with False assms(1) show ?thesis
    by (simp add: MultiProof_ReconstructRoot_queue of_queue_def split: option.splits)
qed

theorem restoreMerkleMultiRoot_eq_ReconstructRoot_witness:
  "restoreMerkleMultiRoot [5, 4] [UintToHash 1, UintToHash 2] [UintToHash 3] =
     (case MerkleMultiProof_ReconstructRoot
             \<lparr>genIndices = [5, 4], leavesHashes = [UintToHash 1, UintToHash 2], Decommitments = [UintToHash 3]\<rparr> of
        Inl _ \<Rightarrow> None | Inr r \<Rightarrow> Some r)"
  using restoreMerkleMultiRoot_eq_ReconstructRoot [of "[UintToHash 1, UintToHash 2]" "[5, 4]" "[UintToHash 3]"] by simp

end
