(* ===== verification/Light_Client.thy ===== *)
theory Light_Client
  imports Bls_Points Beacon_Client Merkle_Contract
begin

section \<open>The light client: types, construction, state trees and proofs (oracle/lightclient)\<close>

text \<open>
  \<^verbatim>\<open>types.go\<close> and, of \<^verbatim>\<open>light_client.go\<close>, the constructor, the tree of a beacon state, the proofs of
  execution payload fields and of sync committees. A \<^verbatim>\<open>*ethpb2.BeaconStateBellatrix\<close> is hashed
  field by field into a vector tree of 25 leaves (depth 5), an execution payload header into one
  of 14 leaves (depth 4). The search for a beacon block and \<^verbatim>\<open>MakeUpdate\<close> have theories of their own.
\<close>

subsection \<open>types.go\<close>

record BeaconBlockHeader =
  hd_Slot :: u64
  hd_ProposerIndex :: u64
  hd_ParentRoot :: hash
  hd_StateRoot :: hash
  hd_BodyRoot :: hash

definition empty_header :: BeaconBlockHeader where
  "empty_header = \<lparr>hd_Slot = 0, hd_ProposerIndex = 0, hd_ParentRoot = zero_hash,
                   hd_StateRoot = zero_hash, hd_BodyRoot = zero_hash\<rparr>"

record ('pk, 'sig) Update =
  up_ForkVersion :: "byte list"
  up_SignatureSlot :: u64
  up_AttestedHeader :: BeaconBlockHeader
  up_FinalizedHeader :: BeaconBlockHeader
  up_MissedSyncCommitteeParticipants :: "'pk G1PointCompressed list"
  up_SyncCommitteeRootDecommitments :: "hash list"
  up_SyncAggregatePubkey :: "'pk G1Point"
  up_SyncAggregateSignature :: "'sig G2Point"
  up_SyncAggregateBitList :: "hash list"
  up_SyncCommitteeBranch :: "hash list"
  up_FinalityBranch :: "hash list"

record 'pk SyncCommittee =
  PublicKeys :: "'pk G1PointCompressed list"
  AggregateKey :: "'pk G1Point"

definition ConvertToSyncCommittee :: "('pk, 'sig) bls \<Rightarrow> SyncCommitteeMsg \<Rightarrow> 'pk SyncCommittee go" where
  "ConvertToSyncCommittee B cm =
     bind (MustDecodePK B (sc_AggregatePubkey cm)) (\<lambda>agg.
     bind (map_go (MustDecodePKCompressed B) (sc_Pubkeys cm)) (\<lambda>pks.
     Inr \<lparr>PublicKeys = pks, AggregateKey = agg\<rparr>))"

definition ConvertToHeader :: "lib \<Rightarrow> BeaconBlock \<Rightarrow> BeaconBlockHeader go" where
  "ConvertToHeader L b =
     bind (MustHashTreeRoot L (BodyObj (bk_Body b))) (\<lambda>body.
     Inr \<lparr>hd_Slot = bk_Slot b, hd_ProposerIndex = bk_ProposerIndex b,
          hd_ParentRoot = BytesToHash L (bk_ParentRoot b), hd_StateRoot = BytesToHash L (bk_StateRoot b),
          hd_BodyRoot = body\<rparr>)"

subsection \<open>NewLightClient\<close>

record LightClient =
  Client :: Eth2Client
  Spec :: SpecConfig
  Genesis :: GenesisConfig
  WithFinality :: bool

definition spec_of_model :: "ModelSpecData \<Rightarrow> SpecConfig" where
  "spec_of_model s =
     \<lparr>SecondsPerSlot = ms_SecondsPerSlot s, SlotsPerEpoch = ms_SlotsPerEpoch s,
      AltairForkEpoch = ms_AltairForkEpoch s, AltairForkVersion = ms_AltairForkVersion s,
      BellatrixForkEpoch = ms_BellatrixForkEpoch s, BellatrixForkVersion = ms_BellatrixForkVersion s,
      EpochsPerSyncCommitteePeriod = ms_EpochsPerSyncCommitteePeriod s,
      SyncCommitteeSize = ms_SyncCommitteeSize s, ValidatorRegistryLimit = ms_ValidatorRegistryLimit s,
      HistoricalRootsLimit = ms_HistoricalRootsLimit s,
      EpochsPerEth1VotingPeriod = ms_EpochsPerEth1VotingPeriod s,
      SlotsPerHistoricalRoot = ms_SlotsPerHistoricalRoot s\<rparr>"

definition NewLightClient :: "lib \<Rightarrow> http \<Rightarrow> codecs \<Rightarrow> Eth2Config \<Rightarrow> bool \<Rightarrow> LightClient go" where
  "NewLightClient L H C cfg finality =
     (let cl = NewClient H C (URL (e2_Client cfg)) in
      bind (case e2_Spec cfg of Some s \<Rightarrow> Inr s
            | None \<Rightarrow> bind (wrap_err ''can't initialize light client'' (GetSpec cl)) (\<lambda>s. Inr (spec_of_model s))) (\<lambda>spec.
      bind (case e2_Genesis cfg of Some g \<Rightarrow> Inr g
            | None \<Rightarrow>
                bind (wrap_err ''can't initialize light client'' (GetGenesis cl)) (\<lambda>g.
                bind (wrap_err ''can't parse genesis time'' (ParseInt (mg_GenesisTime g))) (\<lambda>seconds.
                Inr \<lparr>GenesisTime = seconds, GenesisValidatorsRoot = HexToHash L (mg_GenesisValidatorsRoot g)\<rparr>))) (\<lambda>genesis.
      Inr \<lparr>Client = cl, Spec = spec, Genesis = genesis, WithFinality = finality\<rparr>)))"

subsection \<open>GetBeaconState\<close>

text \<open>The arguments of the call of \<^verbatim>\<open>NewVectorMerkleTree\<close>, in order.\<close>

definition state_fields :: "lib \<Rightarrow> LightClient \<Rightarrow> BeaconState \<Rightarrow> hash go list" where
  "state_fields L c state =
     [Inr (UintToHash (st_GenesisTime state)),
      Inr (BytesToHash L (st_GenesisValidatorsRoot state)),
      Inr (UintToHash (st_Slot state)),
      MustHashTreeRoot L (ForkObj (st_Fork state)),
      MustHashTreeRoot L (BlockHeaderObj (st_LatestBlockHeader state)),
      HashRootsVector L (st_BlockRoots state),
      HashRootsVector L (st_StateRoots state),
      HashRootsList L (st_HistoricalRoots state) (HistoricalRootsLimit (Spec c)),
      MustHashTreeRoot L (Eth1DataObj (st_Eth1Data state)),
      HashEth1Datas L (st_Eth1DataVotes state) (sint (SlotsPerEpoch (Spec c) * EpochsPerEth1VotingPeriod (Spec c))),
      Inr (UintToHash (st_Eth1DepositIndex state)),
      HashValidators L (st_Validators state) (ValidatorRegistryLimit (Spec c)),
      HashUint64List (st_Balances state) (ValidatorRegistryLimit (Spec c)),
      HashRootsVector L (st_RandaoMixes state),
      HashUint64Vector (st_Slashings state),
      HashUint8List (st_PreviousEpochParticipation state) (ValidatorRegistryLimit (Spec c)),
      HashUint8List (st_CurrentEpochParticipation state) (ValidatorRegistryLimit (Spec c)),
      BytesToMerkleHash (Bits4Bytes L (st_JustificationBits state)),
      MustHashTreeRoot L (CheckpointObj (st_PreviousJustifiedCheckpoint state)),
      MustHashTreeRoot L (CheckpointObj (st_CurrentJustifiedCheckpoint state)),
      MustHashTreeRoot L (CheckpointObj (st_FinalizedCheckpoint state)),
      HashUint64List (st_InactivityScores state) (ValidatorRegistryLimit (Spec c)),
      MustHashTreeRoot L (SyncCommitteeObj (st_CurrentSyncCommittee state)),
      MustHashTreeRoot L (SyncCommitteeObj (st_NextSyncCommittee state)),
      MustHashTreeRoot L (PayloadHeaderObj (st_LatestExecutionPayloadHeader state))]"

definition GetBeaconState :: "lib \<Rightarrow> LightClient \<Rightarrow> u64 \<Rightarrow> (BeaconState \<times> MerkleTree) go" where
  "GetBeaconState L c slot =
     bind (GetState (Client c) slot) (\<lambda>state.
     bind (args_go (state_fields L c state)) (\<lambda>ls.
     bind (NewVectorMerkleTree ls) (\<lambda>stateTree. Inr (state, stateTree))))"

subsection \<open>Execution payload proofs\<close>

definition payload_fields :: "lib \<Rightarrow> ExecutionPayloadHeader \<Rightarrow> hash go list" where
  "payload_fields L p =
     [Inr (BytesToHash L (ep_ParentHash p)),
      Inr (BytesToHash L (PadTo L (ep_FeeRecipient p) 32)),
      Inr (BytesToHash L (ep_StateRoot p)),
      Inr (BytesToHash L (ep_ReceiptsRoot p)),
      BytesToMerkleHash (ep_LogsBloom p),
      Inr (BytesToHash L (ep_PrevRandao p)),
      Inr (UintToHash (ep_BlockNumber p)),
      Inr (UintToHash (ep_GasLimit p)),
      Inr (UintToHash (ep_GasUsed p)),
      Inr (UintToHash (ep_Timestamp p)),
      HashUint8List (ep_ExtraData p) 32,
      Inr (BytesToHash L (ep_BaseFeePerGas p)),
      Inr (BytesToHash L (ep_BlockHash p)),
      Inr (BytesToHash L (ep_TransactionsRoot p))]"

definition makeExecutionPayloadTree :: "lib \<Rightarrow> ExecutionPayloadHeader \<Rightarrow> MerkleTree go" where
  "makeExecutionPayloadTree L p = bind (args_go (payload_fields L p)) NewVectorMerkleTree"

definition MakeExecutionPayloadStateRootProof :: "lib \<Rightarrow> LightClient \<Rightarrow> u64 \<Rightarrow> hash list go" where
  "MakeExecutionPayloadStateRootProof L c slot =
     bind (wrap_err ''can't get beacon state'' (GetBeaconState L c slot)) (\<lambda>(state, stateTree).
     bind (MerkleTree_MakeProof stateTree 24) (\<lambda>proof1.
     bind (makeExecutionPayloadTree L (st_LatestExecutionPayloadHeader state)) (\<lambda>payloadTree.
     bind (MerkleTree_MakeProof payloadTree 2) (\<lambda>proof2.
     Inr (Path proof2 @ Path proof1)))))"

text \<open>\<^verbatim>\<open>int(v) % len(xs)\<close>\<close>

definition mod_len :: "u64 \<Rightarrow> 'a list \<Rightarrow> int go" where
  "mod_len v xs = (if xs = [] then Inl (Panic ''integer divide by zero'')
                   else Inr (sint v smod int (length xs)))"

text \<open>The branch from the state root of \<open>targetSlot\<close> up to the state root of \<open>sourceSlot\<close>: nothing, or
  through \<^verbatim>\<open>state_roots\<close>, or through \<^verbatim>\<open>historical_roots\<close>.\<close>

definition receipts_link ::
  "lib \<Rightarrow> LightClient \<Rightarrow> u64 \<Rightarrow> u64 \<Rightarrow> BeaconState \<Rightarrow> MerkleTree \<Rightarrow> hash list go"
where
  "receipts_link L c sourceSlot targetSlot sourceState sourceStateTree =
     (if sourceSlot = targetSlot then Inr []
      else if targetSlot + SlotsPerHistoricalRoot (Spec c) > sourceSlot then
        (let hashes = map (BytesToHash L) (st_StateRoots sourceState) in
         bind (NewVectorMerkleTree hashes) (\<lambda>t.
         bind (mod_len targetSlot (st_StateRoots sourceState)) (\<lambda>i.
         bind (MerkleTree_MakeProof t i) (\<lambda>proof1.
         bind (MerkleTree_MakeProof sourceStateTree 6) (\<lambda>proof2.
         Inr (Path proof1 @ Path proof2))))))
      else if SlotsPerHistoricalRoot (Spec c) = 0 then Inl (Panic ''integer divide by zero'')
      else
        (let historicalRootIndex = targetSlot div SlotsPerHistoricalRoot (Spec c);
             historicalBatchSlot = historicalRootIndex * SlotsPerHistoricalRoot (Spec c) + SlotsPerHistoricalRoot (Spec c)
         in
         bind (wrap_err ''can't get beacon state'' (GetBeaconState L c historicalBatchSlot)) (\<lambda>(historicalState, _).
         (let stateRoots = map (BytesToHash L) (st_StateRoots historicalState);
              historicalRoots = map (BytesToHash L) (st_HistoricalRoots sourceState) in
         bind (map_go (\<lambda>i. bind (index (st_BlockRoots historicalState) (int i)) (\<lambda>h. Inr (BytesToHash L h)))
                 [0 ..< length (st_StateRoots historicalState)]) (\<lambda>blockRoots.
         bind (NewVectorMerkleTree stateRoots) (\<lambda>t1.
         bind (mod_len targetSlot (st_StateRoots historicalState)) (\<lambda>i.
         bind (MerkleTree_MakeProof t1 i) (\<lambda>proof1.
         bind (NewListMerkleTree historicalRoots (HistoricalRootsLimit (Spec c))) (\<lambda>t2.
         bind (MerkleTree_MakeProof t2 (sint historicalRootIndex)) (\<lambda>proof2.
         bind (MerkleTree_MakeProof sourceStateTree 7) (\<lambda>proof3.
         bind (bind (NewVectorMerkleTree blockRoots) MerkleTree_Hash) (\<lambda>b.
         Inr ((Path proof1 @ [b]) @ Path proof2 @ Path proof3)))))))))))))"

definition MakeExecutionPayloadReceiptsRootProof :: "lib \<Rightarrow> LightClient \<Rightarrow> u64 \<Rightarrow> u64 \<Rightarrow> hash list go" where
  "MakeExecutionPayloadReceiptsRootProof L c sourceSlot targetSlot =
     (if sourceSlot < targetSlot
      then Inl (Err (Msg (''can't make proof for sourceSlot '' @ FormatUint sourceSlot
                          @ '' < targetSlot '' @ FormatUint targetSlot)))
      else
      bind (wrap_err ''can't get beacon state'' (GetBeaconState L c sourceSlot)) (\<lambda>(sourceState, sourceStateTree).
      bind (wrap_err ''can't get beacon state'' (GetBeaconState L c targetSlot)) (\<lambda>(targetState, targetStateTree).
      bind (receipts_link L c sourceSlot targetSlot sourceState sourceStateTree) (\<lambda>link.
      bind (makeExecutionPayloadTree L (st_LatestExecutionPayloadHeader targetState)) (\<lambda>payloadTree.
      bind (MerkleTree_MakeProof targetStateTree 24) (\<lambda>proof1.
      bind (MerkleTree_MakeProof payloadTree 3) (\<lambda>proof2.
      Inr (Path proof2 @ Path proof1 @ link))))))))"

subsection \<open>proveNewSyncCommittee and syncDomainRoot\<close>

definition proveNewSyncCommittee ::
  "lib \<Rightarrow> ('pk, 'sig) bls \<Rightarrow> LightClient \<Rightarrow> u64 \<Rightarrow> hash \<Rightarrow> bool \<Rightarrow> ('pk SyncCommittee \<times> MerkleProof) go"
where
  "proveNewSyncCommittee L B c slot stateRoot nxt =
     bind (wrap_err ''can't get beacon state'' (GetBeaconState L c slot)) (\<lambda>(state, stateTree).
     (let i = (if nxt then 23 else 22);
          cmt = (if nxt then st_NextSyncCommittee state else st_CurrentSyncCommittee state) in
      bind (MerkleTree_MakeProof stateTree i) (\<lambda>prf.
      bind (MustHashTreeRoot L (SyncCommitteeObj cmt)) (\<lambda>h.
      bind (MerkleProof_ReconstructRoot prf h) (\<lambda>root.
      if root \<noteq> stateRoot then Inl (Err (Msg ''failed to verify merkle proof against state_root''))
      else bind (ConvertToSyncCommittee B cmt) (\<lambda>cm. Inr (cm, prf)))))))"

definition syncDomainRoot :: "lib \<Rightarrow> LightClient \<Rightarrow> hash go" where
  "syncDomainRoot L c =
     bind (HexToMerkleHash L (BellatrixForkVersion (Spec c))) (\<lambda>forkVersion.
     (let res = copy_hash [7, 0, 0, 0];
          forkRoot = Sha256Hash [Bytes forkVersion, Bytes (GenesisValidatorsRoot (Genesis c))]
      in Inr (copy_hash_at 4 res (take 28 (Bytes forkRoot)))))"

lemma length_state_fields [simp]: "length (state_fields L c st) = 25"
  by (simp add: state_fields_def)

end
