(* ===== verification/Ssz_Spec.thy ===== *)
theory Ssz_Spec
  imports Ssz_Hash
begin

section \<open>Simple serialize: the hash tree roots the oracle relies on\<close>

text \<open>
  The SSZ specification of the consensus layer, as far as the oracle's trees meet it: the roots of
  byte vectors, of an execution payload header, of a checkpoint, of a sync committee and of a
  historical batch, written with the reference root \<open>mroot\<close>. prysm's generated \<^verbatim>\<open>HashTreeRoot\<close>
  is documented to compute them (\<open>ssz_doc\<close>); \<open>doc_lib\<close> is a library that behaves as documented.
\<close>

subsection \<open>Roots\<close>

definition ssz_bytes :: "byte list \<Rightarrow> hash" where
  "ssz_bytes bs = mroot (log2_up (length (BytesToChunks bs))) (BytesToChunks bs)"

definition ssz_payload_leaves :: "ExecutionPayloadHeader \<Rightarrow> hash list" where
  "ssz_payload_leaves p =
     [ssz_bytes (ep_ParentHash p), ssz_bytes (ep_FeeRecipient p), ssz_bytes (ep_StateRoot p),
      ssz_bytes (ep_ReceiptsRoot p), ssz_bytes (ep_LogsBloom p), ssz_bytes (ep_PrevRandao p),
      UintToHash (ep_BlockNumber p), UintToHash (ep_GasLimit p), UintToHash (ep_GasUsed p),
      UintToHash (ep_Timestamp p),
      node_hash (mroot 0 (BytesToChunks (ep_ExtraData p))) (UintToHash (of_nat (length (ep_ExtraData p)))),
      ssz_bytes (ep_BaseFeePerGas p), ssz_bytes (ep_BlockHash p), ssz_bytes (ep_TransactionsRoot p)]"

definition ssz_payload_root :: "ExecutionPayloadHeader \<Rightarrow> hash" where
  "ssz_payload_root p = mroot 4 (ssz_payload_leaves p)"

definition payload_sizes :: "ExecutionPayloadHeader \<Rightarrow> bool" where
  "payload_sizes p \<longleftrightarrow>
     list_all (\<lambda>bs. length bs = 32) [ep_ParentHash p, ep_StateRoot p, ep_ReceiptsRoot p, ep_PrevRandao p,
        ep_BaseFeePerGas p, ep_BlockHash p, ep_TransactionsRoot p]
     \<and> length (ep_FeeRecipient p) = 20 \<and> length (ep_LogsBloom p) = 256 \<and> length (ep_ExtraData p) \<le> 32"

definition ssz_checkpoint_root :: "Checkpoint \<Rightarrow> hash" where
  "ssz_checkpoint_root cp = node_hash (UintToHash (cp_Epoch cp)) (ssz_bytes (cp_Root cp))"

definition ssz_committee_root :: "SyncCommitteeMsg \<Rightarrow> hash" where
  "ssz_committee_root cm =
     node_hash (mroot (log2_up (length (sc_Pubkeys cm))) (map ssz_bytes (sc_Pubkeys cm)))
       (ssz_bytes (sc_AggregatePubkey cm))"

definition committee_sizes :: "SyncCommitteeMsg \<Rightarrow> bool" where
  "committee_sizes cm \<longleftrightarrow>
     length (sc_Pubkeys cm) = 512 \<and> list_all (\<lambda>k. length k = 48) (sc_Pubkeys cm) \<and> length (sc_AggregatePubkey cm) = 48"

definition ssz_batch_root :: "byte list list \<Rightarrow> byte list list \<Rightarrow> hash" where
  "ssz_batch_root block_roots state_roots =
     node_hash (mroot (log2_up (length block_roots)) (map ssz_bytes block_roots))
       (mroot (log2_up (length state_roots)) (map ssz_bytes state_roots))"

definition ssz_doc :: "lib \<Rightarrow> bool" where
  "ssz_doc L \<longleftrightarrow>
     (\<forall>p. payload_sizes p \<longrightarrow> HashTreeRoot L (PayloadHeaderObj p) = Inr (ssz_payload_root p)) \<and>
     (\<forall>cp. length (cp_Root cp) = 32 \<longrightarrow> HashTreeRoot L (CheckpointObj cp) = Inr (ssz_checkpoint_root cp)) \<and>
     (\<forall>cm. committee_sizes cm \<longrightarrow> HashTreeRoot L (SyncCommitteeObj cm) = Inr (ssz_committee_root cm))"

lemma log2_up_1 [simp]: "log2_up (Suc 0) = 0"
  using log2_up_pow2 [of 0] by simp

lemma ssz_bytes_32 [simp]: "length bs = 32 \<Longrightarrow> ssz_bytes bs = copy_hash bs"
  by (cases "bs = []") (auto simp: ssz_bytes_def BytesToChunks_step)

lemma ssz_bytes_short: "bs \<noteq> [] \<Longrightarrow> length bs \<le> 32 \<Longrightarrow> ssz_bytes bs = copy_hash bs"
  by (simp add: ssz_bytes_def BytesToChunks_step)

lemma BytesToMerkleHash_ssz: "length bs \<le> 2 ^ 62 \<Longrightarrow> BytesToMerkleHash bs = Inr (ssz_bytes bs)"
proof -
  assume "length bs \<le> 2 ^ 62"
  then have "length (BytesToChunks bs) \<le> 2 ^ 62"
    unfolding length_BytesToChunks by linarith
  then show ?thesis by (simp add: BytesToMerkleHash_def NewVectorMerkleTree_Hash ssz_bytes_def)
qed

lemma BytesToHash_copy: "BytesToHash_doc L \<Longrightarrow> length bs = 32 \<Longrightarrow> BytesToHash L bs = copy_hash bs"
  by (simp add: Bytes_eq_iff [symmetric] BytesToHash_32 copy_hash_32)

lemma BytesToHash_PadTo:
  "BytesToHash_doc L \<Longrightarrow> PadTo_doc L \<Longrightarrow> length bs \<le> 32 \<Longrightarrow> BytesToHash L (PadTo L bs 32) = copy_hash bs"
  by (simp add: Bytes_eq_iff [symmetric] BytesToHash_32 PadTo_doc_def Bytes_copy_hash)

lemma MustHashTreeRoot_Inr:
  "BytesToHash_doc L \<Longrightarrow> HashTreeRoot L x = Inr h \<Longrightarrow> MustHashTreeRoot L x = Inr h"
  by (simp add: MustHashTreeRoot_def)

subsection \<open>A library that behaves as documented\<close>

definition doc_HashTreeRoot :: "ssz_object \<Rightarrow> hash go" where
  "doc_HashTreeRoot x =
     (case x of PayloadHeaderObj p \<Rightarrow> Inr (ssz_payload_root p)
      | CheckpointObj cp \<Rightarrow> Inr (ssz_checkpoint_root cp)
      | SyncCommitteeObj cm \<Rightarrow> Inr (ssz_committee_root cm)
      | _ \<Rightarrow> Inr zero_hash)"

definition doc_lib :: lib where
  "doc_lib =
     \<lparr>BytesToHash = (\<lambda>bs. Hash (if 32 < length bs then drop (length bs - 32) bs
                               else replicate (32 - length bs) 0 @ bs)),
      FromHex = (\<lambda>s. map of_char s),
      HexToHash = (\<lambda>s. copy_hash (map of_char s)),
      HashString = (\<lambda>h. ''0x'' @ map (char_of \<circ> unat) (Bytes h)),
      EncodeHex = (\<lambda>bs. ''0x'' @ map (char_of \<circ> unat) bs),
      PadTo = (\<lambda>bs n. bs @ replicate (n - length bs) 0),
      HashTreeRoot = doc_HashTreeRoot,
      BitsCount = (\<lambda>bs. of_nat (length (filter (bits_nth bs) [0 ..< 512]))),
      BitAt = (\<lambda>bs i. bits_nth bs (unat i)),
      BitsBytes = (\<lambda>bs. bs), Bits4Bytes = (\<lambda>bs. bs)\<rparr>"

lemma doc_lib_doc: "BytesToHash_doc doc_lib" "PadTo_doc doc_lib" "ssz_doc doc_lib"
  by (simp_all add: doc_lib_def BytesToHash_doc_def PadTo_doc_def ssz_doc_def doc_HashTreeRoot_def)

lemma doc_lib_bits: "Bitvector_doc doc_lib"
proof -
  have "length (filter (bits_nth bs) [0 ..< 512]) < 2 ^ 64" for bs
    using length_filter_le [of "bits_nth bs" "[0 ..< 512]"] by simp
  then show ?thesis by (simp add: doc_lib_def Bitvector_doc_def unat_of_nat)
qed

text \<open>A 48-byte vector, such as a public key, fills two chunks.\<close>

lemma ssz_bytes_48:
  assumes "length bs = 48"
  shows "ssz_bytes bs = Sha256Hash [bs @ replicate 16 0]"
proof -
  have "bs \<noteq> []" and "drop 32 bs \<noteq> []" and "copy_hash bs = copy_hash (take 32 bs)"
    using assms by (auto simp: Bytes_eq_iff [symmetric] Bytes_copy_hash)
  then have "BytesToChunks bs = [copy_hash (take 32 bs), copy_hash (drop 32 bs)]"
    using assms by (simp add: BytesToChunks_step)
  then have "ssz_bytes bs = node_hash (copy_hash (take 32 bs)) (copy_hash (drop 32 bs))"
    using log2_up_pow2 [of 1] by (simp add: ssz_bytes_def numeral_2_eq_2)
  moreover have "Bytes (copy_hash (take 32 bs)) @ Bytes (copy_hash (drop 32 bs)) = bs @ replicate 16 0"
    using assms by (simp add: Bytes_copy_hash)
  ultimately show ?thesis by (simp add: node_hash_def Sha256Hash_def)
qed

end
