(* ===== verification/Light_Proofs.thy ===== *)
theory Light_Proofs
  imports Light_Client Ssz_Spec
begin

section \<open>The light client's proofs are what the contracts accept\<close>

text \<open>
  The proofs that \<^verbatim>\<open>light_client.go\<close> concatenates from several trees, checked at the generalized
  indices that \<^verbatim>\<open>TrustlessAMB.sol\<close> and \<^verbatim>\<open>BeaconLightClientConfig.sol\<close> hard-code. The interface
  is the locale \<open>openings\<close>: openings of commitments compose, and the composed index is SSZ's
  \<^verbatim>\<open>concat_generalized_indices\<close>.
\<close>

subsection \<open>Openings\<close>

locale openings =
  fixes opens :: "nat \<Rightarrow> 'h list \<Rightarrow> 'h \<Rightarrow> 'h \<Rightarrow> bool"
  assumes trans: "opens gi ps leaf mid \<Longrightarrow> opens gi' qs mid root \<Longrightarrow>
    opens (concat_gi gi' (length ps) gi) (ps @ qs) leaf root"
begin

lemma trans3:
  assumes "opens g1 p1 leaf m1" and "opens g2 p2 m1 m2" and "opens g3 p3 m2 root"
  shows "opens (concat_gi (concat_gi g3 (length p2) g2) (length p1) g1) (p1 @ p2 @ p3) leaf root"
  by (rule trans [OF assms(1) trans [OF assms(2,3)]])

lemma trans4:
  assumes "opens g1 p1 leaf m1" and "opens g2 p2 m1 m2" and "opens g3 p3 m2 m3" and "opens g4 p4 m3 root"
  shows "opens (concat_gi (concat_gi (concat_gi g4 (length p3) g3) (length p2) g2) (length p1) g1)
    (p1 @ p2 @ p3 @ p4) leaf root"
  by (rule trans [OF assms(1) trans3 [OF assms(2-4)]])

lemma trans5:
  assumes "opens g1 p1 leaf m1" and "opens g2 p2 m1 m2" and "opens g3 p3 m2 m3" and "opens g4 p4 m3 m4"
    and "opens g5 p5 m4 root"
  shows "opens (concat_gi (concat_gi (concat_gi (concat_gi g5 (length p4) g4) (length p3) g3) (length p2) g2)
    (length p1) g1) (p1 @ p2 @ p3 @ p4 @ p5) leaf root"
  by (rule trans [OF assms(1) trans4 [OF assms(2-5)]])

end

definition opens :: "nat \<Rightarrow> hash list \<Rightarrow> hash \<Rightarrow> hash \<Rightarrow> bool" where
  "opens gi ps leaf root \<longleftrightarrow> gi div 2 ^ length ps = 1 \<and> climb node_hash gi ps leaf = root"

interpretation branch: openings opens
proof
  fix gi ps leaf mid gi' qs root
  assume a: "opens gi ps leaf mid" and b: "opens gi' qs mid root"
  have "concat_gi gi' (length ps) gi div 2 ^ length (ps @ qs) = gi' div 2 ^ length qs"
    by (simp add: concat_gi_def power_add div_mult2_eq)
  with a b show "opens (concat_gi gi' (length ps) gi) (ps @ qs) leaf root"
    by (simp add: opens_def climb_concat)
qed

lemma opens_contract:
  "opens gi ps leaf root \<Longrightarrow> gi < 2 ^ 256 \<Longrightarrow> restoreMerkleRoot leaf (of_nat gi) ps = Some root"
  by (simp add: restoreMerkleRoot_climb opens_def unat_of_nat)

lemma opens_oracle:
  "opens gi ps leaf root \<Longrightarrow> MerkleProof_ReconstructRoot \<lparr>genIndex = int gi, Path = ps\<rparr> leaf = Inr root"
proof -
  assume o: "opens gi ps leaf root"
  then have "int gi div 2 ^ length ps = 1"
    by (metis opens_def of_nat_1 of_nat_numeral of_nat_power zdiv_int)
  with o show ?thesis by (simp add: ReconstructRoot_climb opens_def)
qed

lemma tree_opens:
  assumes "tree_wf t" and "i < length (leaves t)"
  shows "MerkleTree_MakeProof t (int i) = Inr \<lparr>genIndex = int (tree_base t + i), Path = tree_branch t i\<rparr>"
    and "opens (tree_base t + i) (tree_branch t i) (leaves t ! i) (tree_root t)"
proof -
  have "i < 2 ^ tree_depth t" using assms tree_wf_leaves by fastforce
  then have "(tree_base t + i) div 2 ^ length (tree_branch t i) = 1"
    using tree_proof_index [of i t] by (metis of_nat_1 of_nat_eq_iff of_nat_numeral of_nat_power zdiv_int)
  then show "opens (tree_base t + i) (tree_branch t i) (leaves t ! i) (tree_root t)"
    using climb_tree_branch [OF assms] by (simp add: opens_def)
qed (rule MakeProof_Inr [OF assms])

text \<open>One step to the parent: the left child opens at 2, the right child at 3.\<close>

lemma opens_left: "opens 2 [b] a (node_hash a b)"
  and opens_right: "opens 3 [a] b (node_hash a b)"
  by (simp_all add: opens_def)

subsection \<open>The trees of a state and of a payload header\<close>

lemma log2_up_eqI: "n \<le> 2 ^ Suc k \<Longrightarrow> 2 ^ k < n \<Longrightarrow> log2_up n = Suc k"
  using log2_up_le_iff [of n "Suc k"] log2_up_le_iff [of n k] by linarith

lemma log2_up_25: "log2_up 25 = 5" and log2_up_14: "log2_up 14 = 4" and log2_up_8192: "log2_up 8192 = 13"
  using log2_up_eqI [of 25 4] log2_up_eqI [of 14 3] log2_up_pow2 [of 13] by simp_all

lemma GetBeaconState_tree:
  assumes "GetBeaconState L c slot = Inr (st, t)"
  shows "GetState (Client c) slot = Inr st" and "tree_wf t" and "tree_depth t = 5" and "\<not> isList t"
    and "tree_base t = 32" and "length (leaves t) = 25" and "state_fields L c st = map Inr (leaves t)"
proof -
  from assms obtain ls where st: "GetState (Client c) slot = Inr st" and ls: "state_fields L c st = map Inr ls"
    and t: "NewVectorMerkleTree ls = Inr t"
    by (auto simp: GetBeaconState_def bind_eq_Inr args_go_eq_Inr)
  have "length (state_fields L c st) = 25" by (simp add: state_fields_def)
  then have len: "length ls = 25" using ls by simp
  show "GetState (Client c) slot = Inr st" by (rule st)
  show "tree_wf t" and "\<not> isList t" and "tree_depth t = 5" and "length (leaves t) = 25"
    and "state_fields L c st = map Inr (leaves t)"
    using NewVectorMerkleTree_wf [OF t] len ls log2_up_25 by simp_all
  then show "tree_base t = 32" by (simp add: tree_base_def)
qed

lemma state_leaf:
  assumes "GetBeaconState L c slot = Inr (st, t)" and "i < 25"
  shows "state_fields L c st ! i = Inr (leaves t ! i)"
  using GetBeaconState_tree [OF assms(1)] assms(2) by simp

lemma state_opens:
  assumes "GetBeaconState L c slot = Inr (st, t)" and "i < 25"
  shows "MerkleTree_MakeProof t (int i) = Inr \<lparr>genIndex = int (32 + i), Path = tree_branch t i\<rparr>"
    and "opens (32 + i) (tree_branch t i) (leaves t ! i) (tree_root t)"
    and "length (tree_branch t i) = 5"
  using tree_opens [of t i] GetBeaconState_tree [OF assms(1)] assms(2) by (simp_all add: length_tree_branch)

lemma state_root:
  "GetBeaconState L c slot = Inr (st, t) \<Longrightarrow> MerkleTree_Hash t = Inr (tree_root t)"
  using GetBeaconState_tree by (blast intro: MerkleTree_Hash_root)

lemma payload_fields_ssz:
  assumes "BytesToHash_doc L" and "PadTo_doc L" and "payload_sizes p"
  shows "payload_fields L p = map Inr (ssz_payload_leaves p)"
proof -
  have "HashUint8List (ep_ExtraData p) 32 =
      Inr (node_hash (mroot 0 (BytesToChunks (ep_ExtraData p))) (UintToHash (of_nat (length (ep_ExtraData p)))))"
    using HashUint8List_root [of "ep_ExtraData p" 0] by simp
  moreover have "ssz_bytes (ep_FeeRecipient p) = copy_hash (ep_FeeRecipient p)"
    using assms(3) by (intro ssz_bytes_short) (auto simp: payload_sizes_def)
  ultimately show ?thesis
    using assms(3) BytesToMerkleHash_ssz [of "ep_LogsBloom p"]
    by (simp add: payload_fields_def ssz_payload_leaves_def payload_sizes_def
        BytesToHash_copy [OF assms(1)] BytesToHash_PadTo [OF assms(1,2)])
qed

lemma payload_tree:
  assumes "BytesToHash_doc L" and "PadTo_doc L" and "payload_sizes p"
  obtains t where "makeExecutionPayloadTree L p = Inr t" and "tree_wf t" and "tree_base t = 16"
    and "tree_depth t = 4" and "\<not> isList t" and "leaves t = ssz_payload_leaves p" and "tree_root t = ssz_payload_root p"
proof -
  let ?ls = "ssz_payload_leaves p"
  have len: "length ?ls = 14" by (simp add: ssz_payload_leaves_def)
  have "args_go (payload_fields L p) = Inr ?ls"
    by (simp add: payload_fields_ssz [OF assms] args_go_eq_Inr)
  then have "makeExecutionPayloadTree L p = NewVectorMerkleTree ?ls"
    by (simp add: makeExecutionPayloadTree_def)
  moreover obtain t where t: "NewVectorMerkleTree ?ls = Inr t"
    using NewVectorMerkleTree_Inr [of ?ls] len by simp
  moreover have facts: "tree_depth t = 4" "tree_wf t" "\<not> isList t" "leaves t = ?ls"
    using NewVectorMerkleTree_wf [OF t] len log2_up_14 by simp_all
  moreover have "tree_base t = 16" and "tree_root t = ssz_payload_root p"
    using facts by (simp_all add: tree_base_def tree_root_def ssz_payload_root_def)
  ultimately show ?thesis using that by metis
qed

lemma payload_opens:
  assumes "BytesToHash_doc L" and "PadTo_doc L" and "ssz_doc L" and "payload_sizes p"
    and "GetBeaconState L c slot = Inr (st, t)" and "st_LatestExecutionPayloadHeader st = p" and "i < 14"
  obtains pt where "makeExecutionPayloadTree L p = Inr pt"
    and "MerkleTree_MakeProof pt (int i) = Inr \<lparr>genIndex = int (16 + i), Path = tree_branch pt i\<rparr>"
    and "length (tree_branch pt i) = 4"
    and "opens (concat_gi 56 4 (16 + i)) (tree_branch pt i @ tree_branch t 24) (ssz_payload_leaves p ! i) (tree_root t)"
proof -
  obtain pt where pt: "makeExecutionPayloadTree L p = Inr pt" "tree_wf pt" "tree_base pt = 16"
    "tree_depth pt = 4" "\<not> isList pt" "leaves pt = ssz_payload_leaves p" "tree_root pt = ssz_payload_root p"
    using payload_tree [OF assms(1,2,4)] by blast
  have len: "length (leaves pt) = 14" by (simp add: pt(6) ssz_payload_leaves_def)
  have "state_fields L c st ! 24 = MustHashTreeRoot L (PayloadHeaderObj p)"
    using assms(6) by (simp add: state_fields_def)
  also have "\<dots> = Inr (ssz_payload_root p)"
    using assms(3,4) by (intro MustHashTreeRoot_Inr assms(1)) (simp add: ssz_doc_def)
  finally have "leaves t ! 24 = tree_root pt"
    using state_leaf [OF assms(5), of 24] pt(7) by simp
  then have outer: "opens 56 (tree_branch t 24) (tree_root pt) (tree_root t)"
    using state_opens(2) [OF assms(5), of 24] by simp
  have blen: "length (tree_branch pt i) = 4" by (simp add: length_tree_branch pt)
  have inner: "opens (16 + i) (tree_branch pt i) (ssz_payload_leaves p ! i) (tree_root pt)"
    using tree_opens(2) [OF pt(2), of i] assms(7) len pt by simp
  show ?thesis
    using that [OF pt(1) _ blen] tree_opens(1) [OF pt(2), of i] branch.trans [OF inner outer] blen assms(7) len pt(3)
    by simp
qed

subsection \<open>The indices hard-coded in the contracts\<close>

text \<open>\<^verbatim>\<open>TrustlessAMB.executeMessage\<close> and \<^verbatim>\<open>TrustlessAMB.executeMessageFromLog\<close>\<close>

definition executeMessage_index :: u256 where
  "executeMessage_index = (let i = 32 + 24 in i * 16 + 2)"

definition SLOTS_PER_HISTORICAL_ROOT :: u256 where
  "SLOTS_PER_HISTORICAL_ROOT = 8192"

definition HISTORICAL_ROOTS_LIMIT :: u256 where
  "HISTORICAL_ROOTS_LIMIT = 16777216"

text \<open>Solidity's arithmetic reverts on overflow. The index only grows while it is computed, so it is enough to
  look at the result.\<close>

definition checked_u256 :: "nat \<Rightarrow> u256 option" where
  "checked_u256 n = (if n < 2 ^ 256 then Some (of_nat n) else None)"

definition executeMessageFromLog_index :: "u256 \<Rightarrow> u256 \<Rightarrow> u256 option" where
  "executeMessageFromLog_index sourceSlot targetSlot =
     (let t = unat targetSlot; s = unat sourceSlot; n = unat SLOTS_PER_HISTORICAL_ROOT in
      if t = s then (let i = 32 + 24 in checked_u256 (i * 16 + 3))
      else if t + n \<ge> 2 ^ 256 then None
      else if t + n \<le> s then
        (let i = 32 + 7;
             i = i * 2 + 0;
             i = i * unat HISTORICAL_ROOTS_LIMIT + t div n;
             i = i * 2 + 1;
             i = i * n + t mod n;
             i = i * 32 + 24
         in checked_u256 (i * 16 + 3))
      else if t < s then
        (let i = 32 + 6;
             i = i * n + t mod n;
             i = i * 32 + 24
         in checked_u256 (i * 16 + 3))
      else None)"

text \<open>\<^verbatim>\<open>BeaconLightClientConfig\<close>\<close>

definition FINALIZED_ROOT_INDEX :: u256 where
  "FINALIZED_ROOT_INDEX = 105"

definition CURRENT_SYNC_COMMITTEE_INDEX :: u256 where
  "CURRENT_SYNC_COMMITTEE_INDEX = 54"

definition NEXT_SYNC_COMMITTEE_INDEX :: u256 where
  "NEXT_SYNC_COMMITTEE_INDEX = 55"

text \<open>The index of the target's state root under the source's, as a number.\<close>

definition link_gi :: "nat \<Rightarrow> nat \<Rightarrow> nat" where
  "link_gi s t =
     (if t = s then 1
      else if t + 8192 \<le> s then ((39 * 2 * 16777216 + t div 8192) * 2 + 1) * 8192 + t mod 8192
      else 38 * 8192 + t mod 8192)"

lemma ucast_u256: "unat (ucast w :: u256) = unat (w :: u64)"
  using unsigned_less [of w, where 'a = nat] by (simp add: unsigned_ucast_eq take_bit_nat_eq_self)

lemma executeMessageFromLog_index_link:
  assumes "unat t \<le> unat s"
  shows "executeMessageFromLog_index (ucast (s :: u64)) (ucast (t :: u64)) =
     Some (of_nat (concat_gi (link_gi (unat s) (unat t)) 9 (concat_gi 56 4 19)))"
proof -
  have "unat t < 2 ^ 64" using unsigned_less [of t, where 'a = nat] by simp
  moreover have "unat (SLOTS_PER_HISTORICAL_ROOT) = 8192" "unat HISTORICAL_ROOTS_LIMIT = 16777216"
    by (simp_all add: SLOTS_PER_HISTORICAL_ROOT_def HISTORICAL_ROOTS_LIMIT_def)
  moreover have "unat t div 8192 < 2 ^ 64" "unat t mod 8192 < 8192" using \<open>unat t < 2 ^ 64\<close> by simp_all
  ultimately show ?thesis
    using assms by (auto simp: executeMessageFromLog_index_def checked_u256_def ucast_u256 link_gi_def concat_gi_def Let_def algebra_simps)
qed

subsection \<open>The link from the target's to the source's state root\<close>

text \<open>What the chain guarantees: the state roots of the last 8192 slots are kept in \<^verbatim>\<open>state_roots\<close>, and
  older ones in the batches whose roots \<^verbatim>\<open>historical_roots\<close> lists.\<close>

definition state_roots_hold :: "BeaconState \<Rightarrow> nat \<Rightarrow> hash \<Rightarrow> bool" where
  "state_roots_hold s n h \<longleftrightarrow>
     length (st_StateRoots s) = 8192 \<and> list_all (\<lambda>r. length r = 32) (st_StateRoots s)
     \<and> st_StateRoots s ! (n mod 8192) = Bytes h"

definition batch_holds :: "BeaconState \<Rightarrow> BeaconState \<Rightarrow> nat \<Rightarrow> bool" where
  "batch_holds s hs n \<longleftrightarrow>
     length (st_BlockRoots hs) = 8192 \<and> list_all (\<lambda>r. length r = 32) (st_BlockRoots hs)
     \<and> n div 8192 < length (st_HistoricalRoots s)
     \<and> st_HistoricalRoots s ! (n div 8192) = Bytes (ssz_batch_root (st_BlockRoots hs) (st_StateRoots hs))"

lemma smod_nat: "int a smod int b = int (a mod b)"
  by (cases "a = 0") (simp_all add: signed_modulo_int_def zmod_int minus_div_mult_eq_mod)

lemma sint_small: "unat w < 2 ^ 63 \<Longrightarrow> sint (w :: u64) = int (unat w)"
proof -
  assume w: "unat w < 2 ^ 63"
  have "sint w = signed_take_bit 63 (uint w)" by (subst sint_uint) simp
  also have "\<dots> = uint w"
  proof (rule signed_take_bit_int_eq_self)
    show "uint w < 2 ^ 63" using w of_nat_less_iff [of "unat w" "2 ^ 63", where 'a = int] by simp
  qed (rule order_trans [OF _ uint_ge_0], simp)
  also have "\<dots> = int (unat w)" by (simp only: uint_nat)
  finally show ?thesis .
qed

lemma mod_len_8192:
  "unat t < 2 ^ 63 \<Longrightarrow> length xs = 8192 \<Longrightarrow> mod_len t xs = Inr (int (unat t mod 8192))"
  using smod_nat [of "unat t" 8192] by (auto simp: mod_len_def sint_small)

lemma map_BytesToHash:
  "BytesToHash_doc L \<Longrightarrow> list_all (\<lambda>r. length r = 32) rs \<Longrightarrow> map (BytesToHash L) rs = map ssz_bytes rs"
  by (auto simp: list_all_iff BytesToHash_copy)

lemma roots_opens:
  assumes "length hs = 8192" and "i < 8192"
  obtains t where "NewVectorMerkleTree hs = Inr t"
    and "MerkleTree_MakeProof t (int i) = Inr \<lparr>genIndex = int (8192 + i), Path = tree_branch t i\<rparr>"
    and "length (tree_branch t i) = 13"
    and "opens (8192 + i) (tree_branch t i) (hs ! i) (mroot 13 hs)"
proof -
  obtain t where t: "NewVectorMerkleTree hs = Inr t"
    using NewVectorMerkleTree_Inr [of hs] assms(1) by simp
  have facts: "tree_wf t" "leaves t = hs" "\<not> isList t" "tree_depth t = 13"
    using NewVectorMerkleTree_wf [OF t] assms(1) log2_up_8192 by simp_all
  moreover have "tree_base t = 8192" "tree_root t = mroot 13 hs"
    using facts by (simp_all add: tree_base_def tree_root_def)
  moreover have "length (tree_branch t i) = 13" using facts by (simp add: length_tree_branch)
  ultimately show ?thesis
    using that [OF t] tree_opens [of t i] assms by simp
qed

lemma receipts_link_recent:
  assumes doc: "BytesToHash_doc L" and spec: "SlotsPerHistoricalRoot (Spec c) = 8192"
    and src: "GetBeaconState L c s = Inr (ss, st)"
    and slots: "unat t < unat s" "unat s < unat t + 8192" "unat s < 2 ^ 63"
    and roots: "state_roots_hold ss (unat t) h"
  shows "\<exists>link. receipts_link L c s t ss st = Inr link \<and> opens (link_gi (unat s) (unat t)) link h (tree_root st)"
proof -
  let ?r = "unat t mod 8192" and ?hs = "map (BytesToHash L) (st_StateRoots ss)"
  have len: "length ?hs = 8192" and leaf: "?hs ! ?r = h"
    using roots doc by (simp_all add: state_roots_hold_def)
  obtain vt where vt: "NewVectorMerkleTree ?hs = Inr vt"
    "MerkleTree_MakeProof vt (int ?r) = Inr \<lparr>genIndex = int (8192 + ?r), Path = tree_branch vt ?r\<rparr>"
    "length (tree_branch vt ?r) = 13" "opens (8192 + ?r) (tree_branch vt ?r) (?hs ! ?r) (mroot 13 ?hs)"
    using roots_opens [OF len, of ?r] by auto
  have "state_fields L c ss ! 6 = HashRootsVector L (st_StateRoots ss)" by (simp add: state_fields_def)
  also have "\<dots> = Inr (mroot 13 ?hs)"
    using roots HashRootsVector_root [of "st_StateRoots ss" L] log2_up_8192 by (simp add: state_roots_hold_def)
  finally have up: "leaves st ! 6 = mroot 13 ?hs" using state_leaf [OF src, of 6] by simp
  have outer: "opens 38 (tree_branch st 6) (mroot 13 ?hs) (tree_root st)"
    and mk: "MerkleTree_MakeProof st 6 = Inr \<lparr>genIndex = 38, Path = tree_branch st 6\<rparr>"
    using state_opens [OF src, of 6] up by simp_all
  have big: "unat (t + 8192) = unat t + 8192"
    using slots by (subst unat_add_lem [THEN iffD1]) simp_all
  have mod: "mod_len t (st_StateRoots ss) = Inr (int ?r)"
    using roots slots by (intro mod_len_8192) (simp_all add: state_roots_hold_def)
  have ne: "s \<noteq> t" and gt: "t + 8192 > s"
    using slots big by (auto simp: word_less_nat_alt)
  have "receipts_link L c s t ss st = Inr (tree_branch vt ?r @ tree_branch st 6)"
    using ne gt vt(1,2) mk mod by (simp add: receipts_link_def spec del: of_nat_add)
  moreover have "opens (concat_gi 38 13 (8192 + ?r)) (tree_branch vt ?r @ tree_branch st 6) h (tree_root st)"
    using branch.trans [OF vt(4) [unfolded leaf] outer] vt(3) by simp
  moreover have "concat_gi 38 13 (8192 + ?r) = link_gi (unat s) (unat t)"
    using slots by (simp add: concat_gi_def link_gi_def)
  ultimately show ?thesis by auto
qed

lemma receipts_link_ancient:
  assumes doc: "BytesToHash_doc L"
    and spec: "SlotsPerHistoricalRoot (Spec c) = 8192" "HistoricalRootsLimit (Spec c) = 16777216"
    and src: "GetBeaconState L c s = Inr (ss, st)"
    and slots: "unat t + 8192 \<le> unat s" "unat s < 2 ^ 63"
    and batch: "GetBeaconState L c (t div 8192 * 8192 + 8192) = Inr (hs, ht)"
    and roots: "state_roots_hold hs (unat t) h" "batch_holds ss hs (unat t)"
  shows "\<exists>link. receipts_link L c s t ss st = Inr link \<and> opens (link_gi (unat s) (unat t)) link h (tree_root st)"
proof -
  let ?r = "unat t mod 8192" and ?k = "unat t div 8192"
  let ?ss = "map (BytesToHash L) (st_StateRoots hs)" and ?bs = "map (BytesToHash L) (st_BlockRoots hs)"
  let ?hr = "map (BytesToHash L) (st_HistoricalRoots ss)"
  have len: "length ?ss = 8192" "length ?bs = 8192" and leaf: "?ss ! ?r = h"
    using roots doc by (simp_all add: state_roots_hold_def batch_holds_def)
  obtain t1 where t1: "NewVectorMerkleTree ?ss = Inr t1"
    "MerkleTree_MakeProof t1 (int ?r) = Inr \<lparr>genIndex = int (8192 + ?r), Path = tree_branch t1 ?r\<rparr>"
    "length (tree_branch t1 ?r) = 13" "opens (8192 + ?r) (tree_branch t1 ?r) (?ss ! ?r) (mroot 13 ?ss)"
    using roots_opens [OF len(1), of ?r] by auto
  have bt: "bind (NewVectorMerkleTree ?bs) MerkleTree_Hash = Inr (mroot 13 ?bs)"
    using NewVectorMerkleTree_Hash [of ?bs] len log2_up_8192 by simp
  have batch_root: "ssz_batch_root (st_BlockRoots hs) (st_StateRoots hs) = node_hash (mroot 13 ?bs) (mroot 13 ?ss)"
  proof -
    have "?bs = map ssz_bytes (st_BlockRoots hs)" and "?ss = map ssz_bytes (st_StateRoots hs)"
      using roots by (intro map_BytesToHash [OF doc]; simp add: state_roots_hold_def batch_holds_def)+
    with len log2_up_8192 show ?thesis by (simp only: ssz_batch_root_def length_map)
  qed
  have "state_fields L c ss ! 7 = bind (NewListMerkleTree ?hr 16777216) MerkleTree_Hash"
    by (simp add: state_fields_def HashRootsList_def spec)
  then have "bind (NewListMerkleTree ?hr 16777216) MerkleTree_Hash = Inr (leaves st ! 7)"
    using state_leaf [OF src, of 7] by simp
  then obtain t2 where t2: "NewListMerkleTree ?hr 16777216 = Inr t2" and h2: "MerkleTree_Hash t2 = Inr (leaves st ! 7)"
    by (elim bind_InrE)
  have wf2: "tree_wf t2" "leaves t2 = ?hr" "isList t2" "limit t2 = 16777216"
    using NewListMerkleTree_wf [OF t2] by simp_all
  have d2: "tree_depth t2 = 24" and b2: "tree_base t2 = 33554432"
    using log2_up_pow2 [of 24] wf2 by (simp_all add: tree_depth_def tree_base_def)
  have r2: "tree_root t2 = leaves st ! 7" using h2 MerkleTree_Hash_root [OF wf2(1)] by simp
  have k: "?k < length (leaves t2)" using roots(2) wf2 by (simp add: batch_holds_def)
  have leaf2: "leaves t2 ! ?k = node_hash (mroot 13 ?bs) (mroot 13 ?ss)"
    using k roots(2) doc wf2(2) batch_root by (simp add: batch_holds_def)
  note op2 = tree_opens [OF wf2(1) k]
  have len2: "length (tree_branch t2 ?k) = 25" by (simp add: length_tree_branch d2 wf2)
  have outer: "opens 39 (tree_branch st 7) (leaves st ! 7) (tree_root st)"
    and mk: "MerkleTree_MakeProof st 7 = Inr \<lparr>genIndex = 39, Path = tree_branch st 7\<rparr>"
    using state_opens [OF src, of 7] by simp_all
  have half: "unat (t div 8192) = ?k" by (simp add: unat_div)
  have mod: "mod_len t (st_StateRoots hs) = Inr (int ?r)"
    using roots slots by (intro mod_len_8192) (simp_all add: state_roots_hold_def)
  have hist: "sint (t div 8192) = int ?k"
    using slots sint_small [of "t div 8192"] by (simp add: half)
  have blocks: "map_go (\<lambda>i. bind (index (st_BlockRoots hs) (int i)) (\<lambda>h. Inr (BytesToHash L h)))
      [0 ..< length (st_StateRoots hs)] = Inr ?bs"
  proof -
    have "map_go (\<lambda>i. bind (index (st_BlockRoots hs) (int i)) (\<lambda>h. Inr (BytesToHash L h)))
        [0 ..< length (st_StateRoots hs)] = Inr (map (\<lambda>i. BytesToHash L (st_BlockRoots hs ! i)) [0 ..< 8192])"
      using len by (subst map_go_total [where g = "\<lambda>i. BytesToHash L (st_BlockRoots hs ! i)"]) simp_all
    also have "map (\<lambda>i. BytesToHash L (st_BlockRoots hs ! i)) [0 ..< 8192] = ?bs"
      using len by (intro nth_equalityI) simp_all
    finally show ?thesis .
  qed
  have big: "unat (t + 8192) = unat t + 8192"
    using slots by (subst unat_add_lem [THEN iffD1]) simp_all
  have ne: "s \<noteq> t" and le: "\<not> t + 8192 > s"
    using slots big by (auto simp: word_less_nat_alt)
  let ?link = "(tree_branch t1 ?r @ [mroot 13 ?bs]) @ tree_branch t2 ?k @ tree_branch st 7"
  have "receipts_link L c s t ss st = Inr ?link"
    using ne le batch t1(1,2) t2 op2(1) mk mod hist blocks bt
    by (simp add: receipts_link_def spec Let_def del: of_nat_add)
  moreover have "opens (concat_gi (concat_gi (concat_gi 39 25 (33554432 + ?k)) 1 3) 13 (8192 + ?r))
      (tree_branch t1 ?r @ [mroot 13 ?bs] @ tree_branch t2 ?k @ tree_branch st 7) h (tree_root st)"
    using branch.trans4 [OF t1(4) [unfolded leaf] opens_right op2(2) [unfolded leaf2 b2, unfolded r2] outer]
      t1(3) len2 by simp
  moreover have "?k < 16777216"
    using k wf2(1) tree_wf_leaves [OF wf2(1)] d2 by simp
  then have "concat_gi (concat_gi (concat_gi 39 25 (33554432 + ?k)) 1 3) 13 (8192 + ?r) = link_gi (unat s) (unat t)"
    using slots by (simp add: concat_gi_def link_gi_def)
  ultimately show ?thesis by auto
qed

subsection \<open>A node to instantiate the theorems with\<close>

definition sample_header :: ExecutionPayloadHeader where
  "sample_header = (let z = replicate 32 0 in
     \<lparr>ep_ParentHash = z, ep_FeeRecipient = replicate 20 1, ep_StateRoot = replicate 32 2,
      ep_ReceiptsRoot = replicate 32 3, ep_LogsBloom = replicate 256 0, ep_PrevRandao = z,
      ep_BlockNumber = 9, ep_GasLimit = 30000000, ep_GasUsed = 21000, ep_Timestamp = 5,
      ep_ExtraData = [], ep_BaseFeePerGas = z, ep_BlockHash = z, ep_TransactionsRoot = z\<rparr>)"

definition sample_checkpoint :: Checkpoint where
  "sample_checkpoint = \<lparr>cp_Epoch = 1, cp_Root = replicate 32 4\<rparr>"

definition sample_committee :: SyncCommitteeMsg where
  "sample_committee = \<lparr>sc_Pubkeys = replicate 512 (replicate 48 5), sc_AggregatePubkey = replicate 48 6\<rparr>"

definition sample_state :: "hash \<Rightarrow> BeaconState" where
  "sample_state h =
     \<lparr>st_GenesisTime = 0, st_GenesisValidatorsRoot = replicate 32 0, st_Slot = 7, st_Fork = [],
      st_LatestBlockHeader = [], st_BlockRoots = [], st_StateRoots = replicate 8192 (Bytes h),
      st_HistoricalRoots = [], st_Eth1Data = [], st_Eth1DataVotes = [], st_Eth1DepositIndex = 0,
      st_Validators = [], st_Balances = [], st_RandaoMixes = [], st_Slashings = [],
      st_PreviousEpochParticipation = [], st_CurrentEpochParticipation = [], st_JustificationBits = [],
      st_PreviousJustifiedCheckpoint = sample_checkpoint, st_CurrentJustifiedCheckpoint = sample_checkpoint,
      st_FinalizedCheckpoint = sample_checkpoint, st_InactivityScores = [],
      st_CurrentSyncCommittee = sample_committee, st_NextSyncCommittee = sample_committee,
      st_LatestExecutionPayloadHeader = sample_header\<rparr>"

definition sample_spec :: SpecConfig where
  "sample_spec =
     \<lparr>SecondsPerSlot = 12, SlotsPerEpoch = 32, AltairForkEpoch = 0, AltairForkVersion = ''a'',
      BellatrixForkEpoch = 0, BellatrixForkVersion = ''abcd'', EpochsPerSyncCommitteePeriod = 256,
      SyncCommitteeSize = 512, ValidatorRegistryLimit = 32, HistoricalRootsLimit = 16777216,
      EpochsPerEth1VotingPeriod = 64, SlotsPerHistoricalRoot = 8192\<rparr>"

definition sample_client :: "(u64 \<Rightarrow> hash) \<Rightarrow> LightClient" where
  "sample_client f =
     \<lparr>Client = \<lparr>GetSpec = Inl (Err NotFoundError), GetGenesis = Inl (Err NotFoundError),
                GetBlock = \<lambda>_. Inl (Err NotFoundError), GetState = \<lambda>slot. Inr (sample_state (f slot))\<rparr>,
      Spec = sample_spec, Genesis = \<lparr>GenesisTime = 0, GenesisValidatorsRoot = zero_hash\<rparr>, WithFinality = True\<rparr>"

lemma args_go_total: "list_all (\<lambda>m. \<exists>x. m = Inr x) ms \<Longrightarrow> \<exists>xs. args_go ms = Inr xs"
  by (induction ms) auto

lemma sample_lists:
  "HashRootsVector doc_lib [] = Inr (zero_root 0)"
  "\<exists>x. HashRootsList doc_lib [] 16777216 = Inr x"
  "\<exists>x. HashEth1Datas doc_lib [] 2048 = Inr x" "\<exists>x. HashValidators doc_lib [] 32 = Inr x"
  "\<exists>x. HashUint64List [] 32 = Inr x" "\<exists>x. HashUint64Vector [] = Inr x" "\<exists>x. HashUint8List [] 32 = Inr x"
  using HashRootsVector_root [of "[]" doc_lib] HashRootsList_root [of "[]" 24 doc_lib]
    HashUint64List_root [of "[]" 3] HashUint8List_root [of "[]" 0] CeilPow2_pow2 [of 0] log2_up.simps [of 0]
    merkle_Nil
  by (simp_all add: HashEth1Datas_def HashValidators_def NewListMerkleTree_def MerkleTree_Hash_def
      HashUint64Vector_def NewPackedVectorMerkleTree_def)

lemma sample_GetBeaconState:
  "\<exists>t. GetBeaconState doc_lib (sample_client f) slot = Inr (sample_state (f slot), t)"
proof -
  have roots: "\<exists>x. HashRootsVector doc_lib (replicate 8192 b) = Inr x" for b
    by (subst HashRootsVector_root) simp_all
  have trees: "\<exists>x. MustHashTreeRoot doc_lib y = Inr x" for y
    using MustHashTreeRoot_Inr [OF doc_lib_doc(1)]
    by (cases y) (force simp: doc_lib_def doc_HashTreeRoot_def)+
  have just: "\<exists>x. BytesToMerkleHash (Bits4Bytes doc_lib []) = Inr x"
    using BytesToMerkleHash_ssz [of "[]"] by (simp add: doc_lib_def)
  have "list_all (\<lambda>m. \<exists>x. m = Inr x) (state_fields doc_lib (sample_client f) (sample_state (f slot)))"
    unfolding state_fields_def
    using sample_lists roots trees just by (simp add: sample_client_def sample_spec_def sample_state_def)
  then obtain ls where ls: "args_go (state_fields doc_lib (sample_client f) (sample_state (f slot))) = Inr ls"
    using args_go_total by blast
  moreover have "length (state_fields doc_lib (sample_client f) (sample_state (f slot))) = 25"
    by (simp add: state_fields_def)
  ultimately have "length ls = 25" by (metis args_go_eq_Inr length_map)
  with ls show ?thesis
    by (simp add: GetBeaconState_def sample_client_def NewVectorMerkleTree_Inr)
qed

lemma sample_sizes: "payload_sizes (st_LatestExecutionPayloadHeader (sample_state h))"
  by (simp add: payload_sizes_def sample_state_def sample_header_def Let_def)

subsection \<open>Properties\<close>

text \<open>C30. The tree that \<^verbatim>\<open>makeExecutionPayloadTree\<close> builds has the SSZ hash tree root of the payload
  header as its root, for every header with fields of the specified sizes.\<close>

theorem makeExecutionPayloadTree_ssz:
  assumes "BytesToHash_doc L" and "PadTo_doc L" and "payload_sizes p"
  shows "bind (makeExecutionPayloadTree L p) MerkleTree_Hash = Inr (ssz_payload_root p)"
proof -
  obtain t where "makeExecutionPayloadTree L p = Inr t" "tree_wf t" "tree_root t = ssz_payload_root p"
    using payload_tree [OF assms] by blast
  then show ?thesis by (simp add: MerkleTree_Hash_root)
qed

theorem makeExecutionPayloadTree_ssz_witness:
  "bind (makeExecutionPayloadTree doc_lib sample_header) MerkleTree_Hash = Inr (ssz_payload_root sample_header)"
  using makeExecutionPayloadTree_ssz [OF doc_lib_doc(1,2), of sample_header] sample_sizes [of zero_hash]
  by (simp add: sample_state_def)

text \<open>The state root proof.\<close>

lemma state_root_branch:
  assumes "BytesToHash_doc L" and "PadTo_doc L" and "ssz_doc L"
    and "GetBeaconState L c slot = Inr (st, t)" and "payload_sizes (st_LatestExecutionPayloadHeader st)"
  shows "\<exists>branch root. MakeExecutionPayloadStateRootProof L c slot = Inr branch
    \<and> MerkleTree_Hash t = Inr root
    \<and> restoreMerkleRoot (BytesToHash L (ep_StateRoot (st_LatestExecutionPayloadHeader st))) executeMessage_index branch
        = Some root"
proof -
  let ?p = "st_LatestExecutionPayloadHeader st"
  obtain pt where pt: "makeExecutionPayloadTree L ?p = Inr pt"
    "MerkleTree_MakeProof pt (int 2) = Inr \<lparr>genIndex = int (16 + 2), Path = tree_branch pt 2\<rparr>"
    "opens (concat_gi 56 4 (16 + 2)) (tree_branch pt 2 @ tree_branch t 24) (ssz_payload_leaves ?p ! 2) (tree_root t)"
    using payload_opens [OF assms(1-3,5,4) refl, of 2] by auto
  have leaf: "ssz_payload_leaves ?p ! 2 = BytesToHash L (ep_StateRoot ?p)"
    using assms(5) by (simp add: ssz_payload_leaves_def payload_sizes_def BytesToHash_copy [OF assms(1)])
  have "restoreMerkleRoot (BytesToHash L (ep_StateRoot ?p)) executeMessage_index (tree_branch pt 2 @ tree_branch t 24)
      = Some (tree_root t)"
    using opens_contract [OF pt(3)] by (simp add: leaf concat_gi_def executeMessage_index_def)
  moreover have "MakeExecutionPayloadStateRootProof L c slot = Inr (tree_branch pt 2 @ tree_branch t 24)"
    using assms(4) state_opens(1) [OF assms(4), of 24] pt(1,2) by (simp add: MakeExecutionPayloadStateRootProof_def)
  ultimately show ?thesis using state_root [OF assms(4)] by blast
qed

text \<open>Whenever the state of a slot can be fetched and hashed,
  \<^verbatim>\<open>MakeExecutionPayloadStateRootProof\<close> returns a branch with which the contract, at the index
  that \<^verbatim>\<open>executeMessage\<close> hard-codes, restores the state root from the execution state root.\<close>

lemma StateRootProof_accepted:
  assumes "BytesToHash_doc L" and "PadTo_doc L" and "ssz_doc L"
    and "GetBeaconState L c slot = Inr (st, t)" and "payload_sizes (st_LatestExecutionPayloadHeader st)"
  shows "\<exists>branch root. MakeExecutionPayloadStateRootProof L c slot = Inr branch
    \<and> MerkleTree_Hash t = Inr root
    \<and> restoreMerkleRoot (BytesToHash L (ep_StateRoot (st_LatestExecutionPayloadHeader st))) executeMessage_index branch
        = Some root"
  using assms by (rule state_root_branch)

lemma StateRootProof_accepted_witness:
  "\<exists>t branch root. GetBeaconState doc_lib (sample_client (\<lambda>_. zero_hash)) 7 = Inr (sample_state zero_hash, t)
    \<and> MakeExecutionPayloadStateRootProof doc_lib (sample_client (\<lambda>_. zero_hash)) 7 = Inr branch
    \<and> MerkleTree_Hash t = Inr root
    \<and> restoreMerkleRoot (BytesToHash doc_lib (replicate 32 2)) executeMessage_index branch = Some root"
proof -
  obtain t where t: "GetBeaconState doc_lib (sample_client (\<lambda>_. zero_hash)) 7 = Inr (sample_state zero_hash, t)"
    using sample_GetBeaconState by blast
  have "ep_StateRoot (st_LatestExecutionPayloadHeader (sample_state zero_hash)) = replicate 32 2"
    by (simp add: sample_state_def sample_header_def Let_def)
  with StateRootProof_accepted [OF doc_lib_doc t sample_sizes] t show ?thesis by metis
qed

text \<open>The receipts root proof, in the three cases.\<close>

lemma receipts_branch:
  assumes "BytesToHash_doc L" and "PadTo_doc L" and "ssz_doc L"
    and "SlotsPerHistoricalRoot (Spec c) = 8192" and "HistoricalRootsLimit (Spec c) = 16777216"
    and "GetBeaconState L c s = Inr (ss, st)" and "GetBeaconState L c t = Inr (ts, tt)"
    and "payload_sizes (st_LatestExecutionPayloadHeader ts)"
    and "unat t \<le> unat s" and "unat s < 2 ^ 63"
    and "t \<noteq> s \<and> unat s < unat t + 8192 \<Longrightarrow> state_roots_hold ss (unat t) (tree_root tt)"
    and "unat t + 8192 \<le> unat s \<Longrightarrow> \<exists>hs ht. GetBeaconState L c (t div 8192 * 8192 + 8192) = Inr (hs, ht)
           \<and> state_roots_hold hs (unat t) (tree_root tt) \<and> batch_holds ss hs (unat t)"
  shows "\<exists>branch i root. MakeExecutionPayloadReceiptsRootProof L c s t = Inr branch
    \<and> executeMessageFromLog_index (ucast s) (ucast t) = Some i
    \<and> MerkleTree_Hash st = Inr root
    \<and> restoreMerkleRoot (BytesToHash L (ep_ReceiptsRoot (st_LatestExecutionPayloadHeader ts))) i branch = Some root"
proof -
  let ?p = "st_LatestExecutionPayloadHeader ts" and ?gi = "link_gi (unat s) (unat t)"
  have link: "\<exists>link. receipts_link L c s t ss st = Inr link \<and> opens ?gi link (tree_root tt) (tree_root st)"
  proof (cases "t = s")
    case True
    then have "tt = st" using assms(6,7) by simp
    with True show ?thesis by (simp add: receipts_link_def link_gi_def opens_def)
  next
    case False
    then have lt: "unat t < unat s" using assms(9) by (simp add: word_unat_eq_iff)
    show ?thesis
    proof (cases "unat s < unat t + 8192")
      case True
      then show ?thesis
        using receipts_link_recent [OF assms(1,4,6) lt True assms(10)] assms(11) False by blast
    next
      case old: False
      then show ?thesis
        using receipts_link_ancient [OF assms(1,4,5,6) _ assms(10)] assms(12) by fastforce
    qed
  qed
  then obtain link where link: "receipts_link L c s t ss st = Inr link" "opens ?gi link (tree_root tt) (tree_root st)"
    by blast
  obtain pt where pt: "makeExecutionPayloadTree L ?p = Inr pt"
    "MerkleTree_MakeProof pt (int 3) = Inr \<lparr>genIndex = int (16 + 3), Path = tree_branch pt 3\<rparr>"
    "length (tree_branch pt 3) = 4"
    "opens (concat_gi 56 4 (16 + 3)) (tree_branch pt 3 @ tree_branch tt 24) (ssz_payload_leaves ?p ! 3) (tree_root tt)"
    using payload_opens [OF assms(1-3,8,7) refl, of 3] by auto
  let ?branch = "(tree_branch pt 3 @ tree_branch tt 24) @ link" and ?i = "concat_gi ?gi 9 (concat_gi 56 4 19)"
  have leaf: "ssz_payload_leaves ?p ! 3 = BytesToHash L (ep_ReceiptsRoot ?p)"
    using assms(8) by (simp add: ssz_payload_leaves_def payload_sizes_def BytesToHash_copy [OF assms(1)])
  have op: "opens ?i ?branch (BytesToHash L (ep_ReceiptsRoot ?p)) (tree_root st)"
    using branch.trans [OF pt(4) link(2)] leaf pt(3) state_opens(3) [OF assms(7), of 24] by simp
  have "unat t < 2 ^ 64" using unsigned_less [of t, where 'a = nat] by simp
  moreover have "unat t mod 8192 \<le> unat t" and "16384 * (unat t div 8192) \<le> 2 * unat t" by simp_all
  ultimately have "?gi < 2 ^ 100" unfolding link_gi_def by auto
  then have "?i < 2 ^ 256" by (simp add: concat_gi_def)
  then have "restoreMerkleRoot (BytesToHash L (ep_ReceiptsRoot ?p)) (of_nat ?i) ?branch = Some (tree_root st)"
    by (rule opens_contract [OF op])
  moreover have "\<not> s < t" using assms(9) by (simp add: word_less_nat_alt)
  then have "MakeExecutionPayloadReceiptsRootProof L c s t = Inr ?branch"
    using assms(6,7) link(1) pt(1,2) state_opens(1) [OF assms(7), of 24]
    by (simp add: MakeExecutionPayloadReceiptsRootProof_def)
  ultimately show ?thesis
    using executeMessageFromLog_index_link [OF assms(9)] state_root [OF assms(6)] by blast
qed

text \<open>\<^verbatim>\<open>MakeExecutionPayloadReceiptsRootProof\<close> returns a branch from the receipts root of the
  target slot to the state root of the source slot that the contract accepts at the index which
  \<^verbatim>\<open>executeMessageFromLog\<close> computes from the two slots, in all three cases: same slot, a slot within
  the last 8192 (through state\_roots), and any older slot (through historical\_roots).\<close>

lemma ReceiptsRootProof_accepted:
  assumes "BytesToHash_doc L" and "PadTo_doc L" and "ssz_doc L"
    and "SlotsPerHistoricalRoot (Spec c) = 8192" and "HistoricalRootsLimit (Spec c) = 16777216"
    and "GetBeaconState L c s = Inr (ss, st)" and "GetBeaconState L c t = Inr (ts, tt)"
    and "payload_sizes (st_LatestExecutionPayloadHeader ts)"
    and "unat t \<le> unat s" and "unat s < 2 ^ 63"
    and "t \<noteq> s \<and> unat s < unat t + 8192 \<Longrightarrow> state_roots_hold ss (unat t) (tree_root tt)"
    and "unat t + 8192 \<le> unat s \<Longrightarrow> \<exists>hs ht. GetBeaconState L c (t div 8192 * 8192 + 8192) = Inr (hs, ht)
           \<and> state_roots_hold hs (unat t) (tree_root tt) \<and> batch_holds ss hs (unat t)"
  shows "\<exists>branch i root. MakeExecutionPayloadReceiptsRootProof L c s t = Inr branch
    \<and> executeMessageFromLog_index (ucast s) (ucast t) = Some i
    \<and> MerkleTree_Hash st = Inr root
    \<and> restoreMerkleRoot (BytesToHash L (ep_ReceiptsRoot (st_LatestExecutionPayloadHeader ts))) i branch = Some root"
  using assms by (rule receipts_branch)

lemma ReceiptsRootProof_accepted_witness:
  "\<exists>f ss st branch i root. GetBeaconState doc_lib (sample_client f) 9 = Inr (ss, st)
    \<and> MakeExecutionPayloadReceiptsRootProof doc_lib (sample_client f) 9 7 = Inr branch
    \<and> executeMessageFromLog_index 9 7 = Some i
    \<and> MerkleTree_Hash st = Inr root
    \<and> restoreMerkleRoot (BytesToHash doc_lib (replicate 32 3)) i branch = Some root"
proof -
  obtain tt where "GetBeaconState doc_lib (sample_client (\<lambda>_. zero_hash)) 7 = Inr (sample_state zero_hash, tt)"
    using sample_GetBeaconState by blast
  define f where "f = (\<lambda>slot :: u64. if slot = 7 then zero_hash else tree_root tt)"
  have tt: "GetBeaconState doc_lib (sample_client f) 7 = Inr (sample_state zero_hash, tt)"
    using \<open>GetBeaconState doc_lib (sample_client (\<lambda>_. zero_hash)) 7 = Inr (sample_state zero_hash, tt)\<close>
    by (simp add: GetBeaconState_def state_fields_def sample_client_def f_def)
  obtain st where st: "GetBeaconState doc_lib (sample_client f) 9 = Inr (sample_state (tree_root tt), st)"
    using sample_GetBeaconState [of f 9] by (auto simp: f_def)
  have hold: "state_roots_hold (sample_state (tree_root tt)) (unat (7 :: u64)) (tree_root tt)"
    by (simp add: state_roots_hold_def sample_state_def list_all_iff)
  have root: "ep_ReceiptsRoot (st_LatestExecutionPayloadHeader (sample_state zero_hash)) = replicate 32 3"
    by (simp add: sample_state_def sample_header_def Let_def)
  have "SlotsPerHistoricalRoot (Spec (sample_client f)) = 8192" "HistoricalRootsLimit (Spec (sample_client f)) = 16777216"
    by (simp_all add: sample_client_def sample_spec_def)
  then have "\<exists>branch i root. MakeExecutionPayloadReceiptsRootProof doc_lib (sample_client f) 9 7 = Inr branch
      \<and> executeMessageFromLog_index (ucast (9 :: u64)) (ucast (7 :: u64)) = Some i
      \<and> MerkleTree_Hash st = Inr root
      \<and> restoreMerkleRoot (BytesToHash doc_lib (replicate 32 3)) i branch = Some root"
    using hold by (intro ReceiptsRootProof_accepted [OF doc_lib_doc _ _ st tt sample_sizes, unfolded root]) simp_all
  then show ?thesis using st unfolding unsigned_numeral by fastforce
qed

lemma proveNewSyncCommittee_run:
  fixes B :: "('pk, 'sig) bls" and nxt :: bool
  assumes "BytesToHash_doc L" and "ssz_doc L" and "GetBeaconState L c slot = Inr (st, t)"
  defines "cm \<equiv> (if nxt then st_NextSyncCommittee st else st_CurrentSyncCommittee st)"
  assumes "committee_sizes cm"
  defines "k \<equiv> (if nxt then 23 else 22)"
  shows "proveNewSyncCommittee L B c slot root nxt =
      (if tree_root t \<noteq> root then Inl (Err (Msg ''failed to verify merkle proof against state_root''))
       else bind (ConvertToSyncCommittee B cm) (\<lambda>keys.
         Inr (keys, \<lparr>genIndex = int (32 + k), Path = tree_branch t k\<rparr>)))" (is ?run)
    and "restoreMerkleRoot (ssz_committee_root cm)
      (if nxt then NEXT_SYNC_COMMITTEE_INDEX else CURRENT_SYNC_COMMITTEE_INDEX) (tree_branch t k) = Some (tree_root t)" (is ?con)
proof -
  have mk: "MerkleTree_MakeProof t (if nxt then 23 else 22) = Inr \<lparr>genIndex = int (32 + k), Path = tree_branch t k\<rparr>"
    using state_opens(1) [OF assms(3), of k] unfolding k_def by (cases nxt) simp_all
  have field: "state_fields L c st ! k = MustHashTreeRoot L (SyncCommitteeObj cm)"
    by (simp add: state_fields_def cm_def k_def)
  have root: "MustHashTreeRoot L (SyncCommitteeObj cm) = Inr (ssz_committee_root cm)"
    using assms(2) \<open>committee_sizes cm\<close> by (intro MustHashTreeRoot_Inr assms(1)) (simp add: ssz_doc_def)
  have "leaves t ! k = ssz_committee_root cm"
    using state_leaf [OF assms(3), of k] field root by (cases nxt) (simp_all add: k_def)
  then have op: "opens (32 + k) (tree_branch t k) (ssz_committee_root cm) (tree_root t)"
    using state_opens(2) [OF assms(3), of k] by (cases nxt) (simp_all add: k_def)
  show ?con
    using opens_contract [OF op]
    by (cases nxt) (simp_all add: k_def NEXT_SYNC_COMMITTEE_INDEX_def CURRENT_SYNC_COMMITTEE_INDEX_def)
  show ?run
    using mk opens_oracle [OF op] root assms(3) unfolding cm_def k_def
    by (cases nxt) (simp_all add: proveNewSyncCommittee_def Let_def)
qed

text \<open>What \<^verbatim>\<open>proveNewSyncCommittee\<close> returns verifies on chain: the branch leads, at the index
  of the configuration (54 for the current, 55 for the next committee), from the SSZ root of the
  committee it returns the keys of to the state root it was given. When the state root is the one of
  the node's state and the keys decode, it does return.\<close>

lemma proveNewSyncCommittee_accepted:
  fixes B :: "('pk, 'sig) bls" and nxt :: bool
  assumes "BytesToHash_doc L" and "ssz_doc L" and "GetBeaconState L c slot = Inr (st, t)"
  defines "cm \<equiv> (if nxt then st_NextSyncCommittee st else st_CurrentSyncCommittee st)"
  assumes "committee_sizes cm"
  defines "i \<equiv> (if nxt then NEXT_SYNC_COMMITTEE_INDEX else CURRENT_SYNC_COMMITTEE_INDEX)"
  shows "(proveNewSyncCommittee L B c slot root nxt = Inr (keys, prf) \<longrightarrow>
      ConvertToSyncCommittee B cm = Inr keys
      \<and> restoreMerkleRoot (ssz_committee_root cm) i (Path prf) = Some root)
    \<and> (MerkleTree_Hash t = Inr root \<and> ConvertToSyncCommittee B cm = Inr keys \<longrightarrow>
      (\<exists>prf. proveNewSyncCommittee L B c slot root nxt = Inr (keys, prf)))"
  using proveNewSyncCommittee_run(1) [OF assms(1-3), where nxt = nxt and B = B and root = root]
    proveNewSyncCommittee_run(2) [OF assms(1-3), where nxt = nxt] state_root [OF assms(3)] \<open>committee_sizes cm\<close>
  unfolding cm_def i_def by (auto simp: bind_eq_Inr split: if_splits)

definition sample_bls :: "(byte list, byte list) bls" where
  "sample_bls =
     \<lparr>PublicKeyFromBytes = Inr, PkMarshal = (\<lambda>b. b), PkAggregate = (\<lambda>a b. map2 (XOR) a b),
      SignatureFromBytes = Inr, SigMarshal = (\<lambda>b. b), SigVerify = (\<lambda>_ _ _. True),
      P1Serialize = (\<lambda>b. Inr (replicate 96 1)), P2Serialize = (\<lambda>b. Inr (replicate 192 1))\<rparr>"

lemma sample_committee_facts:
  "committee_sizes sample_committee" "\<exists>keys. ConvertToSyncCommittee sample_bls sample_committee = Inr keys"
proof -
  show "committee_sizes sample_committee"
    by (simp add: committee_sizes_def sample_committee_def list_all_iff)
  have "\<exists>k. MustDecodePKCompressed sample_bls b = Inr k" and "\<exists>k. MustDecodePK sample_bls b = Inr k" for b
    by (simp_all add: MustDecodePK_def MustDecodePKCompressed_def sample_bls_def PkToG1_Inr PkToG1Compressed_Inr)
  then obtain f g where "MustDecodePKCompressed sample_bls b = Inr (f b)" and "MustDecodePK sample_bls b = Inr (g b)" for b
    by metis
  then show "\<exists>keys. ConvertToSyncCommittee sample_bls sample_committee = Inr keys"
    using map_go_total [of "sc_Pubkeys sample_committee" "MustDecodePKCompressed sample_bls" f]
    by (simp add: ConvertToSyncCommittee_def)
qed

lemma proveNewSyncCommittee_accepted_witness:
  "\<exists>t root keys prf. GetBeaconState doc_lib (sample_client (\<lambda>_. zero_hash)) 7 = Inr (sample_state zero_hash, t)
     \<and> MerkleTree_Hash t = Inr root
     \<and> proveNewSyncCommittee doc_lib sample_bls (sample_client (\<lambda>_. zero_hash)) 7 root True = Inr (keys, prf)
     \<and> restoreMerkleRoot (ssz_committee_root sample_committee) NEXT_SYNC_COMMITTEE_INDEX (Path prf) = Some root"
proof -
  obtain t where t: "GetBeaconState doc_lib (sample_client (\<lambda>_. zero_hash)) 7 = Inr (sample_state zero_hash, t)"
    using sample_GetBeaconState by blast
  have cm: "st_NextSyncCommittee (sample_state zero_hash) = sample_committee" by (simp add: sample_state_def)
  show ?thesis
    using proveNewSyncCommittee_accepted [OF doc_lib_doc(1,3) t, where nxt = True and B = sample_bls, unfolded cm, simplified]
      state_root [OF t] t sample_committee_facts by blast
qed

text \<open>\<^verbatim>\<open>BeaconLightClient._syncDomainRoot\<close>: \<^verbatim>\<open>abi.encode\<close> pads the four bytes on the right.\<close>

definition contract_syncDomainRoot :: "byte list \<Rightarrow> hash \<Rightarrow> u256" where
  "contract_syncDomainRoot forkVersion genesisRoot =
     (let r = of_nat (be_nat (sha256 (forkVersion @ replicate 28 0 @ Bytes genesisRoot)))
      in drop_bit 32 r OR push_bit 248 7)"

lemma syncDomainRoot_Inr:
  assumes "length (FromHex L (BellatrixForkVersion (Spec c))) = 4"
  defines "s \<equiv> sha256 (FromHex L (BellatrixForkVersion (Spec c)) @ replicate 28 0 @ Bytes (GenesisValidatorsRoot (Genesis c)))"
  shows "\<exists>d. syncDomainRoot L c = Inr d \<and> Bytes d = [7, 0, 0, 0] @ take 28 s"
proof -
  let ?v = "FromHex L (BellatrixForkVersion (Spec c))" and ?d = "copy_hash_at 4 (copy_hash [7, 0, 0, 0])"
  have v: "?v \<noteq> []" using assms by auto
  then have fork: "HexToMerkleHash L (BellatrixForkVersion (Spec c)) = Inr (copy_hash ?v)"
    using BytesToMerkleHash_chunk [of ?v] assms by (simp add: HexToMerkleHash_def)
  have "Bytes (copy_hash ?v) = ?v @ replicate 28 0" using assms by (simp add: Bytes_copy_hash)
  then have "syncDomainRoot L c = Inr (?d (take 28 s))"
    by (simp add: syncDomainRoot_def fork Bytes_Sha256Hash s_def)
  moreover have "Bytes (?d (take 28 s)) = [7, 0, 0, 0] @ take 28 s"
    by (simp add: Bytes_copy_hash_at Bytes_copy_hash s_def)
  ultimately show ?thesis by blast
qed

text \<open>The contract shifts the hash right by four bytes and puts the domain type on top.\<close>

lemma shifted_domain:
  fixes s :: "byte list"
  assumes "length s = 32"
  shows "of_nat (be_nat ([7, 0, 0, 0] @ take 28 s)) = drop_bit 32 (of_nat (be_nat s) :: u256) OR push_bit 248 7"
proof -
  have "be_nat s = be_nat (take 28 s) * 2 ^ 32 + be_nat (drop 28 s)"
    using be_nat_append [of "take 28 s" "drop 28 s"] assms by simp
  moreover have "be_nat (drop 28 s) < 2 ^ 32" using be_nat_less [of "drop 28 s"] assms by simp
  ultimately have hi: "be_nat s div 2 ^ 32 = be_nat (take 28 s)" by simp
  have lt: "be_nat (take 28 s) < 2 ^ 224" using be_nat_less [of "take 28 s"] assms by simp
  have s: "be_nat s < 2 ^ 256" using be_nat_less [of s] assms by simp
  have low: "unat (of_nat (be_nat (take 28 s)) :: u256) = be_nat (take 28 s)"
    using lt by (simp add: unat_of_nat)
  have x: "drop_bit 32 (of_nat (be_nat s) :: u256) = of_nat (be_nat (take 28 s))"
  proof -
    have "unat (of_nat (be_nat s) :: u256) = be_nat s" using s by (simp add: unat_of_nat)
    then have "unat (drop_bit 32 (of_nat (be_nat s) :: u256)) = be_nat (take 28 s)"
      by (simp only: unat_drop_bit_eq drop_bit_eq_div [of 32 "be_nat s"] hi)
    then show ?thesis using low by (simp only: word_unat_eq_iff)
  qed
  have "of_nat (be_nat (take 28 s)) AND push_bit 248 7 = (0 :: u256)"
  proof (rule bit_word_eqI)
    fix n :: nat
    have "\<not> bit (of_nat (be_nat (take 28 s)) :: u256) n" if "248 \<le> n"
    proof -
      have "be_nat (take 28 s) < 2 ^ n"
        using lt that power_increasing [of 224 n "2 :: nat"] by simp
      then have "\<not> bit (be_nat (take 28 s)) n" by (simp add: bit_iff_odd)
      then show ?thesis using low by (simp only: bit_unat [symmetric] not_False_eq_True)
    qed
    moreover have "\<not> bit (push_bit 248 7 :: u256) n" if "\<not> 248 \<le> n"
      unfolding bit_push_bit_iff using that by simp
    ultimately show "bit (of_nat (be_nat (take 28 s)) AND push_bit 248 7 :: u256) n = bit (0 :: u256) n"
      unfolding bit_and_iff by auto
  qed
  moreover have "be_nat ([7, 0, 0, 0] @ take 28 s) = 7 * 2 ^ 248 + be_nat (take 28 s)"
    using be_nat_append [of "[7, 0, 0, 0]" "take 28 s"] assms by (simp add: be_nat_def)
  ultimately show ?thesis
    unfolding x by (simp add: disjunctive_add_eq_or [symmetric] push_bit_eq_mult)
qed

lemma syncDomainRoot_contract_value:
  assumes "length (FromHex L (BellatrixForkVersion (Spec c))) = 4" and "syncDomainRoot L c = Inr d"
  shows "of_nat (be_nat (Bytes d)) =
    contract_syncDomainRoot (FromHex L (BellatrixForkVersion (Spec c))) (GenesisValidatorsRoot (Genesis c))"
  using syncDomainRoot_Inr [OF assms(1)] assms(2) shifted_domain [OF length_sha256]
  unfolding contract_syncDomainRoot_def Let_def by (metis sum.inject(2))

text \<open>The domain root the oracle verifies signatures with is the one the contract computes,
  and has the domain type 0x07000000 in front of 28 bytes of the fork data root.\<close>

lemma syncDomainRoot_contract:
  assumes "length (FromHex L (BellatrixForkVersion (Spec c))) = 4"
  shows "\<exists>d. syncDomainRoot L c = Inr d
    \<and> of_nat (be_nat (Bytes d)) =
        contract_syncDomainRoot (FromHex L (BellatrixForkVersion (Spec c))) (GenesisValidatorsRoot (Genesis c))
    \<and> take 4 (Bytes d) = [7, 0, 0, 0]"
  using syncDomainRoot_Inr [OF assms] syncDomainRoot_contract_value [OF assms] by fastforce

lemma syncDomainRoot_contract_witness:
  "\<exists>d. syncDomainRoot doc_lib (sample_client (\<lambda>_. zero_hash)) = Inr d
    \<and> of_nat (be_nat (Bytes d)) = contract_syncDomainRoot [97, 98, 99, 100] zero_hash
    \<and> take 4 (Bytes d) = [7, 0, 0, 0]"
proof -
  have "FromHex doc_lib (BellatrixForkVersion (Spec (sample_client (\<lambda>_. zero_hash)))) = [97, 98, 99, 100]"
    and "GenesisValidatorsRoot (Genesis (sample_client (\<lambda>_. zero_hash))) = zero_hash"
    by (simp_all add: doc_lib_def sample_client_def sample_spec_def)
  then show ?thesis using syncDomainRoot_contract [of doc_lib "sample_client (\<lambda>_. zero_hash)"] by simp
qed

end
