(* ===== verification/Light_Update.thy ===== *)
theory Light_Update
  imports Light_Proofs
begin

section \<open>MakeUpdate (oracle/lightclient/light\_client.go)\<close>

text \<open>
  The construction of a light client update: choose a slot, walk back to a block with enough sync
  committee signatures, prove and aggregate the committee, verify the signature, attach the finality
  proof and pack the participation bits into words. The clock, \<^verbatim>\<open>uint64(time.Since(t).Seconds())\<close>,
  is the parameter \<open>since\<close>. The walk back may wrap below slot 0 and need not end, so it is a
  \<open>partial_function (option)\<close>.
\<close>

definition MinSyncCommitteeParticipants :: u64 where
  "MinSyncCommitteeParticipants = 10"

subsection \<open>Choosing the block that carries the signatures\<close>

definition slots_per_period :: "LightClient \<Rightarrow> u64" where
  "slots_per_period c = EpochsPerSyncCommitteePeriod (Spec c) * SlotsPerEpoch (Spec c)"

definition choose_slot :: "(int \<Rightarrow> u64) \<Rightarrow> LightClient \<Rightarrow> u64 \<Rightarrow> u64 \<Rightarrow> u64 go" where
  "choose_slot since c curSlot targetSlot =
     (let slotsPerPeriod = slots_per_period c in
      if slotsPerPeriod = 0 then Inl (Panic ''integer divide by zero'')
      else
        (let curPeriodStart = curSlot - curSlot mod slotsPerPeriod;
             nextPeriodEnd = curPeriodStart + 2 * slotsPerPeriod - 1 in
         if SecondsPerSlot (Spec c) = 0 then Inl (Panic ''integer divide by zero'')
         else
           (let clockSlot = since (GenesisTime (Genesis c)) div SecondsPerSlot (Spec c);
                slot = (if clockSlot < nextPeriodEnd then clockSlot else nextPeriodEnd) in
            if targetSlot > 0 then
              (if targetSlot < curSlot
               then Inl (Err (Msg (''target slot is behind current slot, '' @ FormatUint targetSlot
                                   @ '' < '' @ FormatUint curSlot)))
               else if targetSlot > nextPeriodEnd
               then Inl (Err (Msg (''target slot is too far in the future, should be <= ''
                                   @ FormatUint nextPeriodEnd @ '', got '' @ FormatUint targetSlot)))
               else Inr targetSlot)
            else Inr slot)))"

definition enough_signatures :: "lib \<Rightarrow> LightClient \<Rightarrow> BeaconBlock \<Rightarrow> bool" where
  "enough_signatures L c b =
     (let n = BitsCount L (bd_SyncCommitteeBits (bk_Body b)) in
      \<not> (n < MinSyncCommitteeParticipants
         \<or> (WithFinality c \<and> 3 * n < 2 * of_int (SyncCommitteeSize (Spec c)))))"

partial_function (option) head_loop :: "lib \<Rightarrow> LightClient \<Rightarrow> u64 \<Rightarrow> BeaconBlock go option" where
  "head_loop L c slot =
     (case GetBlock (Client c) (FormatUint slot) of
        Inr b \<Rightarrow> if enough_signatures L c b then Some (Inr b) else head_loop L c (slot - 1)
      | Inl (Err e) \<Rightarrow>
          if errors_Is e NotFoundError then head_loop L c (slot - 1)
          else Some (Inl (Err (Wrap (''can't get block '' @ FormatUint slot) e)))
      | Inl f \<Rightarrow> Some (Inl f))"

definition find_head :: "lib \<Rightarrow> LightClient \<Rightarrow> u64 \<Rightarrow> BeaconBlock go" where
  "find_head L c slot = (case head_loop L c slot of None \<Rightarrow> Inl Hang | Some r \<Rightarrow> r)"

subsection \<open>The committee\<close>

text \<open>The loop over the members: \<^verbatim>\<open>pk\<close>, \<^verbatim>\<open>hashedPublicKeys\<close> and \<^verbatim>\<open>indices\<close>.\<close>

fun committee_loop ::
  "lib \<Rightarrow> ('pk, 'sig) bls \<Rightarrow> byte list \<Rightarrow> 'pk G1PointCompressed list \<Rightarrow> nat list \<Rightarrow>
   'pk G1Point option \<Rightarrow> hash list \<Rightarrow> nat list \<Rightarrow> ('pk G1Point option \<times> hash list \<times> nat list) go"
where
  "committee_loop L B bits keys [] pk hashed missing = Inr (pk, hashed, missing)"
| "committee_loop L B bits keys (i # is) pk hashed missing =
     bind (index keys (int i)) (\<lambda>key.
     if BitAt L bits (of_nat i)
     then bind (AddG1Points B pk key) (\<lambda>pk'.
            committee_loop L B bits keys is (Some pk') (hashed @ [HashG1PointCompressed L B key]) missing)
     else committee_loop L B bits keys is pk (hashed @ [HashG1PointCompressed L B key]) (missing @ [i]))"

subsection \<open>The participation bits\<close>

text \<open>\<^verbatim>\<open>bits[i], bits[j] = bits[j], bits[i]\<close>\<close>

definition swap_bytes :: "byte list \<Rightarrow> int \<Rightarrow> int \<Rightarrow> byte list go" where
  "swap_bytes bits i j =
     bind (index bits i) (\<lambda>a. bind (index bits j) (\<lambda>b. Inr (bits[nat i := b, nat j := a])))"

fun swap_all :: "byte list \<Rightarrow> (nat \<times> nat) list \<Rightarrow> byte list go" where
  "swap_all bits [] = Inr bits"
| "swap_all bits ((w, k) # ps) =
     bind (swap_bytes bits (int (w * 32 + k)) (int (w * 32 + 31 - k))) (\<lambda>bits'. swap_all bits' ps)"

definition bit_list :: "lib \<Rightarrow> int \<Rightarrow> byte list \<Rightarrow> hash list go" where
  "bit_list L committeeSize bits =
     (let words = nat (committeeSize sdiv 256) in
      bind (swap_all bits (List.product [0 ..< words] [0 ..< 16])) (\<lambda>bits'.
      map_go (\<lambda>k. bind (subslice bits' (int (k * 32)) (int (k * 32 + 32))) (\<lambda>b. Inr (BytesToHash L b))) [0 ..< words]))"

subsection \<open>The finality proof\<close>

text \<open>The branch \<^verbatim>\<open>if c.WithFinality\<close>; \<open>None\<close> is \<^verbatim>\<open>return nil, nil\<close>.\<close>

definition add_finality ::
  "lib \<Rightarrow> LightClient \<Rightarrow> u64 \<Rightarrow> ('pk, 'sig) Update \<Rightarrow> ('pk, 'sig) Update option go"
where
  "add_finality L c curSlot update =
     (let attested = up_AttestedHeader update in
      if WithFinality c then
        bind (wrap_err ''can't get finality beacon state'' (GetBeaconState L c (hd_Slot attested))) (\<lambda>(state, stateTree).
        bind (MerkleTree_Hash stateTree) (\<lambda>recStateRoot.
        if recStateRoot \<noteq> hd_StateRoot attested then Inl (Fatal ''failed to reconstruct given state root'')
        else
        bind (wrap_err ''can't get finality block''
               (GetBlock (Client c) (EncodeHex L (cp_Root (st_FinalizedCheckpoint state))))) (\<lambda>finalizedBlock.
        bind (ConvertToHeader L finalizedBlock) (\<lambda>header.
        bind (MerkleTree_MakeProof stateTree 20) (\<lambda>prf.
        if hd_Slot header \<le> curSlot then Inr None
        else Inr (Some (update\<lparr>up_FinalizedHeader := header,
               up_FinalityBranch := UintToHash (cp_Epoch (st_FinalizedCheckpoint state)) # Path prf\<rparr>)))))))
      else if hd_Slot attested \<le> curSlot then Inr None
      else Inr (Some update))"

subsection \<open>MakeUpdate\<close>

text \<open>The flag \<^verbatim>\<open>isNext := curSlot/slotsPerPeriod != curSlot/slotsPerPeriod\<close>, as written.\<close>

definition is_next :: "LightClient \<Rightarrow> u64 \<Rightarrow> bool" where
  "is_next c curSlot = (curSlot div slots_per_period c \<noteq> curSlot div slots_per_period c)"

definition fork_version :: "lib \<Rightarrow> LightClient \<Rightarrow> byte list" where
  "fork_version L c = take 4 (FromHex L (BellatrixForkVersion (Spec c)) @ replicate 4 0)"

text \<open>From the committee proof to the verified signature: the update without finality and bits.\<close>

definition prove_committee ::
  "lib \<Rightarrow> ('pk, 'sig) bls \<Rightarrow> LightClient \<Rightarrow> u64 \<Rightarrow> BeaconBlock \<Rightarrow> BeaconBlockHeader \<Rightarrow> hash \<Rightarrow> ('pk, 'sig) Update go"
where
  "prove_committee L B c curSlot head attestedHeader curStateRoot =
     (let attestedRoot = BytesToHash L (bk_ParentRoot head);
          bits = bd_SyncCommitteeBits (bk_Body head) in
      bind (wrap_err ''can't prove sync committee''
             (proveNewSyncCommittee L B c curSlot curStateRoot (is_next c curSlot))) (\<lambda>(cmt, prf).
      bind (committee_loop L B bits (PublicKeys cmt) [0 ..< nat (SyncCommitteeSize (Spec c))] None [] [])
        (\<lambda>(pk, hashedPublicKeys, missing).
      bind (map_go (\<lambda>i. index (PublicKeys cmt) (int i)) (rev missing)) (\<lambda>missingPKs.
      bind (NewVectorMerkleTree hashedPublicKeys) (\<lambda>tree.
      bind (MerkleTree_MakeMultiProof tree (map int missing)) (\<lambda>multiProof.
      bind (G1Point_String L B pk) (\<lambda>_.
      bind (MustDecodeSig B (bd_SyncCommitteeSignature (bk_Body head))) (\<lambda>sig.
      bind (syncDomainRoot L c) (\<lambda>domain.
      if \<not> Verify B attestedRoot domain (the pk) sig
      then Inl (Err (Msg ''can't verify aggregate signature from sync committee''))
      else Inr \<lparr>up_ForkVersion = fork_version L c, up_SignatureSlot = bk_Slot head,
             up_AttestedHeader = attestedHeader, up_FinalizedHeader = empty_header,
             up_MissedSyncCommitteeParticipants = missingPKs,
             up_SyncCommitteeRootDecommitments = Decommitments multiProof,
             up_SyncAggregatePubkey = the pk, up_SyncAggregateSignature = sig,
             up_SyncAggregateBitList = [], up_SyncCommitteeBranch = Path prf, up_FinalityBranch = []\<rparr>)))))))))"

definition MakeUpdate ::
  "lib \<Rightarrow> ('pk, 'sig) bls \<Rightarrow> (int \<Rightarrow> u64) \<Rightarrow> LightClient \<Rightarrow> u64 \<Rightarrow> u64 \<Rightarrow> ('pk, 'sig) Update option go"
where
  "MakeUpdate L B since c curSlot targetSlot =
     bind (choose_slot since c curSlot targetSlot) (\<lambda>slot.
     bind (find_head L c slot) (\<lambda>head.
     bind (wrap_err (''can't get block '' @ HashString L (BytesToHash L (bk_ParentRoot head)))
            (GetBlock (Client c) (HashString L (BytesToHash L (bk_ParentRoot head))))) (\<lambda>attestedBlock.
     bind (ConvertToHeader L attestedBlock) (\<lambda>attestedHeader.
     bind (wrap_err (''can't get block '' @ FormatUint curSlot)
            (GetBlock (Client c) (FormatUint curSlot))) (\<lambda>curBlock.
     bind (prove_committee L B c curSlot head attestedHeader (BytesToHash L (bk_StateRoot curBlock))) (\<lambda>update.
     bind (add_finality L c curSlot update) (\<lambda>r.
     case r of
       None \<Rightarrow> Inr None
     | Some update \<Rightarrow>
         bind (bit_list L (SyncCommitteeSize (Spec c)) (BitsBytes L (bd_SyncCommitteeBits (bk_Body head)))) (\<lambda>words.
         Inr (Some (update\<lparr>up_SyncAggregateBitList := words\<rparr>))))))))))"

subsection \<open>The walk back, characterised\<close>

definition block_at :: "LightClient \<Rightarrow> u64 \<Rightarrow> BeaconBlock go" where
  "block_at c slot = GetBlock (Client c) (FormatUint slot)"

text \<open>The slots the loop steps over: no block, or one with too few signatures.\<close>

definition skipped :: "lib \<Rightarrow> LightClient \<Rightarrow> u64 \<Rightarrow> bool" where
  "skipped L c slot =
     (case block_at c slot of
        Inr b \<Rightarrow> \<not> enough_signatures L c b
      | Inl (Err e) \<Rightarrow> errors_Is e NotFoundError
      | Inl _ \<Rightarrow> False)"

definition stop_at :: "LightClient \<Rightarrow> u64 \<Rightarrow> BeaconBlock go" where
  "stop_at c slot = wrap_err (''can't get block '' @ FormatUint slot) (block_at c slot)"

lemma head_loop_step:
  "head_loop L c slot = (if skipped L c slot then head_loop L c (slot - 1) else Some (stop_at c slot))"
  by (subst head_loop.simps)
    (auto simp: skipped_def stop_at_def block_at_def wrap_err_def split: sum.splits failure.splits)

lemma head_loop_skips:
  "(\<And>j. j < k \<Longrightarrow> skipped L c (slot - of_nat j)) \<Longrightarrow> head_loop L c slot = head_loop L c (slot - of_nat k)"
proof (induction k)
  case (Suc k)
  then have "head_loop L c slot = head_loop L c (slot - of_nat k)" by simp
  also have "\<dots> = head_loop L c (slot - of_nat k - 1)"
    using Suc.prems [of k] by (subst head_loop_step) simp
  finally show ?case by (simp add: algebra_simps)
qed simp

lemma head_loop_Some:
  assumes "head_loop L c slot = Some r"
  shows "\<exists>k. (\<forall>j < k. skipped L c (slot - of_nat j)) \<and> \<not> skipped L c (slot - of_nat k) \<and> r = stop_at c (slot - of_nat k)"
  using assms
proof (rule head_loop.raw_induct [rotated, where P = "\<lambda>L c slot r.
    \<exists>k. (\<forall>j < k. skipped L c (slot - of_nat j)) \<and> \<not> skipped L c (slot - of_nat k) \<and> r = stop_at c (slot - of_nat k)"])
  fix loop and L :: lib and c :: LightClient and slot :: u64 and r :: "BeaconBlock go"
  let ?P = "\<lambda>L c slot r. \<exists>k. (\<forall>j < k. skipped L c (slot - of_nat j)) \<and> \<not> skipped L c (slot - of_nat k)
      \<and> r = stop_at c (slot - of_nat k)"
  assume IH: "\<And>L c slot r. loop L c slot = Some r \<Longrightarrow> ?P L c slot r"
    and eq: "(case GetBlock (Client c) (FormatUint slot) of
        Inr b \<Rightarrow> if enough_signatures L c b then Some (Inr b) else loop L c (slot - 1)
      | Inl (Err e) \<Rightarrow> if errors_Is e NotFoundError then loop L c (slot - 1)
          else Some (Inl (Err (Wrap (''can't get block '' @ FormatUint slot) e)))
      | Inl f \<Rightarrow> Some (Inl f)) = Some r"
  from eq have eq: "(if skipped L c slot then loop L c (slot - 1) else Some (stop_at c slot)) = Some r"
    by (auto simp: skipped_def stop_at_def block_at_def wrap_err_def split: sum.splits failure.splits if_splits)
  show "?P L c slot r"
  proof (cases "skipped L c slot")
    case False
    with eq show ?thesis by (intro exI [of _ 0]) simp
  next
    case True
    with eq IH obtain k where k: "\<forall>j < k. skipped L c (slot - 1 - of_nat j)"
      "\<not> skipped L c (slot - 1 - of_nat k)" "r = stop_at c (slot - 1 - of_nat k)" by fastforce
    have shift: "slot - 1 - of_nat j = slot - of_nat (Suc j)" for j by (simp add: algebra_simps)
    have "\<forall>j < Suc k. skipped L c (slot - of_nat j)"
      using True k(1) unfolding shift by (auto simp: less_Suc_eq_0_disj simp del: of_nat_Suc)
    then show ?thesis using k(2,3) unfolding shift by blast
  qed
qed

text \<open>A node whose requests return: none of the oracle's own calls to it hangs.\<close>

definition answers :: "LightClient \<Rightarrow> bool" where
  "answers c \<longleftrightarrow> (\<forall>slot. block_at c slot \<noteq> Inl Hang)"

text \<open>C33. The block with which \<^verbatim>\<open>MakeUpdate\<close> starts is the one of the last slot, going down from the
  chosen slot, that has a block with enough sync committee signatures; if no slot at all has one (the
  counter wraps from 0 to the last slot) the loop never returns.\<close>

theorem find_head_last:
  assumes "answers c"
  shows "(find_head L c slot = Inr b \<longleftrightarrow>
      (\<exists>k. (\<forall>j < k. skipped L c (slot - of_nat j)) \<and> block_at c (slot - of_nat k) = Inr b \<and> enough_signatures L c b))
    \<and> (find_head L c slot = Inl Hang \<longleftrightarrow> (\<forall>s. skipped L c s))"
proof (cases "head_loop L c slot")
  case None
  have all: "skipped L c s" for s
  proof (rule ccontr)
    assume s: "\<not> skipped L c s"
    define P where "P j = (\<not> skipped L c (slot - of_nat j))" for j
    have "slot - of_nat (unat (slot - s)) = s" by simp
    then have "P (unat (slot - s))" using s by (simp add: P_def)
    then obtain k where k: "P k" "\<And>j. j < k \<Longrightarrow> \<not> P j" by (metis LeastI_ex not_less_Least)
    then have "head_loop L c slot = head_loop L c (slot - of_nat k)"
      by (intro head_loop_skips) (simp add: P_def)
    also have "\<dots> = Some (stop_at c (slot - of_nat k))"
      using k(1) by (subst head_loop_step) (simp add: P_def)
    finally show False using None by simp
  qed
  have "\<not> (block_at c s = Inr b \<and> enough_signatures L c b)" for s
  proof
    assume b: "block_at c s = Inr b \<and> enough_signatures L c b"
    with all [of s] show False by (simp add: skipped_def)
  qed
  then show ?thesis
    using None all by (auto simp: find_head_def)
next
  case (Some r)
  then obtain k where k: "\<forall>j < k. skipped L c (slot - of_nat j)" "\<not> skipped L c (slot - of_nat k)"
    "r = stop_at c (slot - of_nat k)" using head_loop_Some by blast
  have unique: "j = k" if "\<forall>i < j. skipped L c (slot - of_nat i)" "\<not> skipped L c (slot - of_nat j)" for j
    using k(1,2) that by (metis linorder_neqE_nat)
  have run: "find_head L c slot = stop_at c (slot - of_nat k)" using Some k(3) by (simp add: find_head_def)
  have ok: "stop_at c s = Inr b \<longleftrightarrow> block_at c s = Inr b" for s by (simp add: stop_at_def)
  have not: "stop_at c s \<noteq> Inl Hang" for s
    using assms by (auto simp: stop_at_def answers_def wrap_err_def split: sum.splits failure.splits)
  have enough: "\<not> skipped L c s \<longleftrightarrow> enough_signatures L c b" if "block_at c s = Inr b" for s
    using that by (simp add: skipped_def)
  show ?thesis
    unfolding run ok using not k(1,2) unique enough by blast
qed

end
