(* ===== verification/Update_Bits.thy ===== *)
theory Update_Bits
  imports Light_Update
begin

section \<open>The participation bits of an update\<close>

text \<open>
  \<^verbatim>\<open>MakeUpdate\<close> reverses every 32 bytes of the sync committee bits in place and cuts them into
  words. Here: each word is the little-endian number of its 32 bytes, so bit \<open>m\<close> of word \<open>w\<close> is the bit
  of member \<open>256 w + m\<close>, which is what the contract reads.
\<close>

subsection \<open>The participation bits as words of the contract\<close>

definition mirror :: "nat \<Rightarrow> nat" where
  "mirror j = j div 32 * 32 + (31 - j mod 32)"

text \<open>The pair of the double loop in which position \<open>j\<close> takes part.\<close>

definition swap_key :: "nat \<Rightarrow> nat \<times> nat" where
  "swap_key j = (j div 32, min (j mod 32) (31 - j mod 32))"

lemma block_div: "r < 32 \<Longrightarrow> (w * 32 + r) div 32 = w"
  and block_mod: "r < 32 \<Longrightarrow> (w * 32 + r) mod 32 = r" for w r :: nat
  by simp_all

lemma block_eq: "r < 32 \<Longrightarrow> s < 32 \<Longrightarrow> q * 32 + r = w * 32 + s \<longleftrightarrow> q = w \<and> r = s" for q r s w :: nat
proof -
  assume r: "r < 32" and s: "s < 32"
  have "q = w \<and> r = s" if "q * 32 + r = w * 32 + s"
    using arg_cong [OF that, of "\<lambda>x. x div 32"] arg_cong [OF that, of "\<lambda>x. x mod 32"]
    unfolding block_div [OF r] block_mod [OF r] block_div [OF s] block_mod [OF s] by blast
  then show ?thesis by blast
qed

lemma min_block: "r < 32 \<Longrightarrow> min r (31 - r) < 16" for r :: nat
  by (auto simp: min_def)

lemma swap_key_block: "r < 32 \<Longrightarrow> swap_key (w * 32 + r) = (w, min r (31 - r))"
  by (simp only: swap_key_def block_div block_mod)

lemma swap_key_iff: "k < 16 \<Longrightarrow> swap_key j = (w, k) \<longleftrightarrow> j = w * 32 + k \<or> j = w * 32 + 31 - k"
proof -
  assume k: "k < 16"
  obtain q r where j: "j = q * 32 + r" and r: "r < 32"
    by (rule that [of "j div 32" "j mod 32"]) simp_all
  have "min r (31 - r) = k \<longleftrightarrow> r = k \<or> r = 31 - k" using k r by (auto simp: min_def)
  then have key: "swap_key j = (w, k) \<longleftrightarrow> q = w \<and> (r = k \<or> r = 31 - k)"
    unfolding j swap_key_block [OF r] by simp
  have mir: "w * 32 + 31 - k = w * 32 + (31 - k)" using k by simp
  have "q * 32 + r = w * 32 + k \<longleftrightarrow> q = w \<and> r = k"
    using k by (intro block_eq [OF r]) simp
  moreover have "q * 32 + r = w * 32 + (31 - k) \<longleftrightarrow> q = w \<and> r = 31 - k"
    by (intro block_eq [OF r]) simp
  ultimately show ?thesis unfolding key mir unfolding j by blast
qed

lemma swap_key_mirror [simp]: "swap_key (mirror j) = swap_key j"
proof -
  have "mirror j div 32 = j div 32" "mirror j mod 32 = 31 - j mod 32"
    unfolding mirror_def by (rule block_div, simp) (rule block_mod, simp)
  moreover have "31 - (31 - j mod 32) = j mod 32" using mod_less_divisor [of 32 j] by linarith
  ultimately show ?thesis by (simp add: swap_key_def min.commute)
qed

lemma mirror_less: "j < 32 * n \<Longrightarrow> mirror j < 32 * n"
proof -
  assume "j < 32 * n"
  then have "j div 32 < n" by (simp add: less_mult_imp_div_less mult.commute)
  then have "j div 32 * 32 + 32 \<le> n * 32" by linarith
  then show ?thesis by (simp add: mirror_def)
qed

lemma mirror_pair: "k < 16 \<Longrightarrow> mirror (w * 32 + k) = w * 32 + 31 - k"
  and mirror_pair': "k < 16 \<Longrightarrow> mirror (w * 32 + 31 - k) = w * 32 + k"
proof -
  assume k: "k < 16"
  have b: "w * 32 + 31 - k = w * 32 + (31 - k)" using k by simp
  show "mirror (w * 32 + k) = w * 32 + 31 - k" using k by (simp add: mirror_def)
  have "(w * 32 + (31 - k)) div 32 = w" "(w * 32 + (31 - k)) mod 32 = 31 - k"
    by (rule block_div, simp) (rule block_mod, simp)
  then show "mirror (w * 32 + 31 - k) = w * 32 + k" unfolding b mirror_def using k by simp
qed

lemma swap_bytes_Inr:
  assumes "k < 16" and "w * 32 + 32 \<le> length bits"
  obtains bits' where "swap_bytes bits (int (w * 32 + k)) (int (w * 32 + 31 - k)) = Inr bits'"
    and "length bits' = length bits"
    and "\<And>j. j < length bits \<Longrightarrow> bits' ! j = (if swap_key j = (w, k) then bits ! mirror j else bits ! j)"
proof
  let ?a = "w * 32 + k" and ?b = "w * 32 + 31 - k"
  have lt: "?a < length bits" "?b < length bits" "?a \<noteq> ?b" using assms by simp_all
  show "swap_bytes bits (int ?a) (int ?b) = Inr (bits[?a := bits ! ?b, ?b := bits ! ?a])"
    using lt(1,2) unfolding swap_bytes_def by (simp only: index_nat bind_Inr nat_int)
  fix j assume "j < length bits"
  then show "bits[?a := bits ! ?b, ?b := bits ! ?a] ! j = (if swap_key j = (w, k) then bits ! mirror j else bits ! j)"
    unfolding swap_key_iff [OF assms(1)]
    using lt mirror_pair [OF assms(1), of w] mirror_pair' [OF assms(1), of w] by (auto simp: nth_list_update)
qed simp

lemma swap_all_Inr:
  assumes "distinct ps" and "\<forall>(w, k) \<in> set ps. k < 16 \<and> w < n" and "32 * n \<le> length bits"
  shows "\<exists>bits'. swap_all bits ps = Inr bits' \<and> length bits' = length bits
    \<and> (\<forall>j < 32 * n. bits' ! j = (if swap_key j \<in> set ps then bits ! mirror j else bits ! j))"
  using assms
proof (induction ps arbitrary: bits)
  case (Cons p ps)
  obtain w k where p: "p = (w, k)" by (cases p)
  with Cons.prems have k: "k < 16" and w: "w * 32 + 32 \<le> length bits" and "(w, k) \<notin> set ps" by auto
  obtain mid where mid: "swap_bytes bits (int (w * 32 + k)) (int (w * 32 + 31 - k)) = Inr mid"
    "length mid = length bits"
    "\<And>j. j < length bits \<Longrightarrow> mid ! j = (if swap_key j = (w, k) then bits ! mirror j else bits ! j)"
    using swap_bytes_Inr [OF k w] by blast
  obtain out where out: "swap_all mid ps = Inr out" "length out = length mid"
    "\<forall>j < 32 * n. out ! j = (if swap_key j \<in> set ps then mid ! mirror j else mid ! j)"
    using Cons.IH [of mid] Cons.prems mid(2) by auto
  have "out ! j = (if swap_key j \<in> set (p # ps) then bits ! mirror j else bits ! j)" if j: "j < 32 * n" for j
  proof -
    have lt: "j < length bits" "mirror j < length bits" using j mirror_less [OF j] Cons.prems(3) by simp_all
    show ?thesis
      using out(3) j mid(3) [OF lt(1)] mid(3) [OF lt(2)] \<open>(w, k) \<notin> set ps\<close> by (auto simp: p)
  qed
  moreover have "swap_all bits (p # ps) = Inr out"
    unfolding p swap_all.simps mid(1) bind_Inr by (rule out(1))
  ultimately show ?case using out(2) mid(2) by metis
qed auto

text \<open>Each word is the reversal of its 32 bytes.\<close>

lemma bit_list_rev:
  assumes "32 * n \<le> length bits"
  shows "bit_list L (int (256 * n)) bits = Inr (map (\<lambda>w. BytesToHash L (rev (take 32 (drop (32 * w) bits)))) [0 ..< n])"
proof -
  let ?ps = "List.product [0 ..< n] [0 ..< 16]"
  have words: "nat (int (256 * n) sdiv 256) = n"
    by (cases "n = 0") (simp_all add: signed_divide_int_def)
  have "distinct ?ps" and "\<forall>(w, k) \<in> set ?ps. k < 16 \<and> w < n" by (auto simp: distinct_product)
  then obtain out where out: "swap_all bits ?ps = Inr out" "length out = length bits"
    "\<forall>j < 32 * n. out ! j = (if swap_key j \<in> set ?ps then bits ! mirror j else bits ! j)"
    using swap_all_Inr [of ?ps n bits] assms by blast
  have nth: "out ! j = bits ! mirror j" if "j < 32 * n" for j
  proof -
    have "j div 32 < n" using that by (simp add: less_mult_imp_div_less mult.commute)
    moreover have "min (j mod 32) (31 - j mod 32) < 16" by (rule min_block) simp
    ultimately have "swap_key j \<in> set ?ps" by (simp add: swap_key_def)
    with out(3) that show ?thesis by simp
  qed
  have chunk: "take 32 (drop (32 * w) out) = rev (take 32 (drop (32 * w) bits))" if w: "w < n" for w
  proof (rule nth_equalityI)
    have len: "32 * w + 32 \<le> length bits" using w assms by simp
    then show "length (take 32 (drop (32 * w) out)) = length (rev (take 32 (drop (32 * w) bits)))"
      by (simp add: out(2))
    fix i assume "i < length (take 32 (drop (32 * w) out))"
    then have i: "i < 32" by simp
    have "mirror (32 * w + i) = 32 * w + (31 - i)" using i by (simp add: mirror_def)
    then show "take 32 (drop (32 * w) out) ! i = rev (take 32 (drop (32 * w) bits)) ! i"
      using nth [of "32 * w + i"] i w len out(2) by (simp add: rev_nth)
  qed
  have slice: "subslice out (int (k * 32)) (int (k * 32 + 32)) = Inr (take 32 (drop (32 * k) out))" if "k < n" for k
    using that assms out(2) by (subst subslice_nat) (simp_all add: mult.commute)
  have "map_go (\<lambda>k. bind (subslice out (int (k * 32)) (int (k * 32 + 32))) (\<lambda>b. Inr (BytesToHash L b))) [0 ..< n]
      = Inr (map (\<lambda>w. BytesToHash L (rev (take 32 (drop (32 * w) bits)))) [0 ..< n])"
    by (rule map_go_total) (simp add: slice chunk del: of_nat_add of_nat_mult)
  then show ?thesis unfolding bit_list_def words Let_def out(1) bind_Inr .
qed

lemma bit_le_nat: "bit (le_nat bs) m \<longleftrightarrow> bits_nth bs m"
proof (induction bs arbitrary: m)
  case (Cons b bs)
  show ?case
  proof (cases "m < 8")
    case True
    then have "2 ^ m * 2 ^ (8 - m) = (256 :: nat)" by (simp flip: power_add)
    then have "le_nat (b # bs) = unat b + 2 ^ m * (2 ^ (8 - m) * le_nat bs)"
      by (simp add: mult.assoc [symmetric])
    then have "le_nat (b # bs) div 2 ^ m = 2 ^ (8 - m) * le_nat bs + unat b div 2 ^ m"
      by (simp only: div_mult_self2 power_not_zero zero_neq_numeral [symmetric] not_False_eq_True)
    moreover have "even ((2 :: nat) ^ (8 - m) * le_nat bs)" using True by simp
    ultimately have "bit (le_nat (b # bs)) m \<longleftrightarrow> bit (unat b) m"
      unfolding bit_iff_odd by simp
    then show ?thesis using True by (simp add: bits_nth_def bit_unsigned_iff)
  next
    case False
    then have "(2 :: nat) ^ m = 2 ^ 8 * 2 ^ (m - 8)" by (simp only: power_add [symmetric]) simp
    then have "bit (le_nat (b # bs)) m \<longleftrightarrow> bit (le_nat (b # bs) div 2 ^ 8) (m - 8)"
      by (simp only: bit_iff_odd div_mult2_eq)
    also have "le_nat (b # bs) div 2 ^ 8 = le_nat bs" by simp
    finally show ?thesis
      using False Cons.IH [of "m - 8"] by (simp add: bits_nth_def le_div_geq le_mod_geq)
  qed
qed (simp add: bits_nth_def)

subsection \<open>Members and words\<close>

definition word_at :: "hash list \<Rightarrow> nat \<Rightarrow> u256" where
  "word_at ws w = of_nat (be_nat (Bytes (ws ! w)))"

lemma bit_list_words:
  assumes "BytesToHash_doc L" and "length bits = 32 * n"
  obtains ws where "bit_list L (int (256 * n)) bits = Inr ws" and "length ws = n"
    and "\<And>w m. w < n \<Longrightarrow> m < 256 \<Longrightarrow> bit (word_at ws w) m \<longleftrightarrow> bits_nth bits (256 * w + m)"
proof
  let ?ws = "map (\<lambda>w. BytesToHash L (rev (take 32 (drop (32 * w) bits)))) [0 ..< n]"
  show "bit_list L (int (256 * n)) bits = Inr ?ws" using assms(2) by (intro bit_list_rev) simp
  fix w m :: nat assume w: "w < n" and m: "m < 256"
  let ?c = "take 32 (drop (32 * w) bits)"
  have len: "length ?c = 32" using w assms(2) by simp
  have "be_nat (Bytes (?ws ! w)) = le_nat ?c"
    using w len by (simp add: BytesToHash_32 [OF assms(1)] be_nat_rev)
  moreover have "le_nat ?c < 2 ^ 256"
    using be_nat_less [of "rev ?c"] len by (simp add: be_nat_rev)
  ultimately have "unat (word_at ?ws w) = le_nat ?c" by (simp only: word_at_def unat_of_nat) simp
  then have "bit (word_at ?ws w) m \<longleftrightarrow> bit (le_nat ?c) m" by (metis bit_unat)
  also have "\<dots> \<longleftrightarrow> bits_nth bits (256 * w + m)"
  proof -
    have "(256 * w + m) div 8 = 32 * w + m div 8" and "(256 * w + m) mod 8 = m mod 8"
      using div_mult_self4 [of 8 "32 * w" m] mod_mult_self4 [of 8 "32 * w" m] by simp_all
    moreover have "m div 8 < 32" using m by simp
    ultimately show ?thesis
      using w len assms(2) unfolding bit_le_nat bits_nth_def by (simp only: len) simp
  qed
  finally show "bit (word_at ?ws w) m \<longleftrightarrow> bits_nth bits (256 * w + m)" .
qed simp

end
