(* ===== verification/Update_Proofs.thy ===== *)
theory Update_Proofs
  imports Update_Bits
begin

section \<open>What MakeUpdate returns\<close>

text \<open>
  The successful runs of \<^verbatim>\<open>MakeUpdate\<close> taken apart, and what they guarantee about the update: the
  signatures were counted and verified, the branches open the sync committee and the finalized
  checkpoint under the state roots the contract holds.
\<close>

subsection \<open>The committee loop\<close>

definition member_signed :: "lib \<Rightarrow> byte list \<Rightarrow> nat \<Rightarrow> bool" where
  "member_signed L bits i = BitAt L bits (of_nat i)"

definition signers :: "lib \<Rightarrow> byte list \<Rightarrow> nat \<Rightarrow> nat list" where
  "signers L bits n = filter (member_signed L bits) [0 ..< n]"

definition absent :: "lib \<Rightarrow> byte list \<Rightarrow> nat \<Rightarrow> nat list" where
  "absent L bits n = filter (\<lambda>i. \<not> member_signed L bits i) [0 ..< n]"

text \<open>The sum of a list of keys, from an initial key or from nothing.\<close>

fun sum_keys :: "('pk, 'sig) bls \<Rightarrow> 'pk option \<Rightarrow> 'pk list \<Rightarrow> 'pk option" where
  "sum_keys B acc [] = acc"
| "sum_keys B None (k # ks) = sum_keys B (Some k) ks"
| "sum_keys B (Some a) (k # ks) = sum_keys B (Some (PkAggregate B a k)) ks"

lemma PkToG1_raw: "PkToG1 B k = Inr g \<Longrightarrow> g1_raw g = k"
  by (auto simp: PkToG1_def bind_eq_Inr)

lemma PkToG1_raw_idem: "PkToG1 B k = Inr g \<Longrightarrow> PkToG1 B (g1_raw g) = Inr g"
  by (simp add: PkToG1_raw)

lemma AddG1Points_raw:
  "AddG1Points B a b = Inr g \<Longrightarrow>
     sum_keys B (map_option g1_raw a) [g1c_raw b] = Some (g1_raw g) \<and> PkToG1 B (g1_raw g) = Inr g"
  by (cases a) (auto simp: AddG1Points_def dest: PkToG1_raw intro: PkToG1_raw_idem)

lemma sum_keys_append: "sum_keys B acc (xs @ ys) = sum_keys B (sum_keys B acc xs) ys"
  by (induction B acc xs rule: sum_keys.induct) auto

lemma committee_loop_Inr:
  assumes "committee_loop L B bits keys is pk hashed missing = Inr (pk', hashed', missing')"
    and "\<forall>g. pk = Some g \<longrightarrow> PkToG1 B (g1_raw g) = Inr g"
  shows "(\<forall>i \<in> set is. i < length keys)
    \<and> hashed' = hashed @ map (\<lambda>i. HashG1PointCompressed L B (keys ! i)) is
    \<and> missing' = missing @ filter (\<lambda>i. \<not> member_signed L bits i) is
    \<and> map_option g1_raw pk' = sum_keys B (map_option g1_raw pk)
         (map (\<lambda>i. g1c_raw (keys ! i)) (filter (member_signed L bits) is))
    \<and> (\<forall>g. pk' = Some g \<longrightarrow> PkToG1 B (g1_raw g) = Inr g)"
  using assms
proof (induction L B bits keys "is" pk hashed missing rule: committee_loop.induct)
  case (2 L B bits keys i "is" pk hashed missing)
  from "2.prems"(1) obtain key where key: "index keys (int i) = Inr key"
    by (auto simp: bind_eq_Inr)
  then have i: "i < length keys" and at: "keys ! i = key" by (auto simp: index_def split: if_splits)
  show ?case
  proof (cases "BitAt L bits (of_nat i)")
    case False
    with "2.prems" key have "committee_loop L B bits keys is pk (hashed @ [HashG1PointCompressed L B key]) (missing @ [i])
        = Inr (pk', hashed', missing')" by simp
    from "2.IH"(2) [OF key False this] "2.prems"(2) i at False show ?thesis by (auto simp: member_signed_def)
  next
    case True
    with "2.prems" key obtain pk1 where pk1: "AddG1Points B pk key = Inr pk1"
      and loop: "committee_loop L B bits keys is (Some pk1) (hashed @ [HashG1PointCompressed L B key]) missing
        = Inr (pk', hashed', missing')"
      by (auto simp: bind_eq_Inr)
    note sum = AddG1Points_raw [OF pk1]
    have "sum_keys B (map_option g1_raw pk) (g1c_raw key # ks) = sum_keys B (Some (g1_raw pk1)) ks" for ks
      using sum_keys_append [of B "map_option g1_raw pk" "[g1c_raw key]" ks] sum by simp
    with "2.IH"(1) [OF key True pk1 loop] sum i at True show ?thesis by (auto simp: member_signed_def)
  qed
qed auto

subsection \<open>A successful run taken apart\<close>

lemma prove_committeeE:
  assumes "prove_committee L B c curSlot head attested root = Inr u" and n: "n = nat (SyncCommitteeSize (Spec c))"
  obtains cmt br pk hashed missingPKs tree mp sig domain where
    "proveNewSyncCommittee L B c curSlot root False = Inr (cmt, br)"
    "committee_loop L B (bd_SyncCommitteeBits (bk_Body head)) (PublicKeys cmt)
       [0 ..< n] None [] []
     = Inr (Some pk, hashed, absent L (bd_SyncCommitteeBits (bk_Body head)) n)"
    "map_go (\<lambda>i. index (PublicKeys cmt) (int i))
       (rev (absent L (bd_SyncCommitteeBits (bk_Body head)) n)) = Inr missingPKs"
    "NewVectorMerkleTree hashed = Inr tree"
    "MerkleTree_MakeMultiProof tree
       (map int (absent L (bd_SyncCommitteeBits (bk_Body head)) n)) = Inr mp"
    "MustDecodeSig B (bd_SyncCommitteeSignature (bk_Body head)) = Inr sig"
    "syncDomainRoot L c = Inr domain"
    "Verify B (BytesToHash L (bk_ParentRoot head)) domain pk sig"
    "u = \<lparr>up_ForkVersion = fork_version L c, up_SignatureSlot = bk_Slot head,
             up_AttestedHeader = attested, up_FinalizedHeader = empty_header,
             up_MissedSyncCommitteeParticipants = missingPKs,
             up_SyncCommitteeRootDecommitments = Decommitments mp,
             up_SyncAggregatePubkey = pk, up_SyncAggregateSignature = sig,
             up_SyncAggregateBitList = [], up_SyncCommitteeBranch = Path br, up_FinalityBranch = []\<rparr>"
proof -
  let ?n = n and ?bits = "bd_SyncCommitteeBits (bk_Body head)"
  from assms(1) obtain cmt br pk hashed missing missingPKs tree mp s sig domain where run:
    "proveNewSyncCommittee L B c curSlot root False = Inr (cmt, br)"
    "committee_loop L B ?bits (PublicKeys cmt) [0 ..< ?n] None [] [] = Inr (pk, hashed, missing)"
    "map_go (\<lambda>i. index (PublicKeys cmt) (int i)) (rev missing) = Inr missingPKs"
    "NewVectorMerkleTree hashed = Inr tree" "MerkleTree_MakeMultiProof tree (map int missing) = Inr mp"
    "G1Point_String L B pk = Inr s" "MustDecodeSig B (bd_SyncCommitteeSignature (bk_Body head)) = Inr sig"
    "syncDomainRoot L c = Inr domain" "Verify B (BytesToHash L (bk_ParentRoot head)) domain (the pk) sig"
    and u: "u = \<lparr>up_ForkVersion = fork_version L c, up_SignatureSlot = bk_Slot head,
             up_AttestedHeader = attested, up_FinalizedHeader = empty_header,
             up_MissedSyncCommitteeParticipants = missingPKs,
             up_SyncCommitteeRootDecommitments = Decommitments mp,
             up_SyncAggregatePubkey = the pk, up_SyncAggregateSignature = sig,
             up_SyncAggregateBitList = [], up_SyncCommitteeBranch = Path br, up_FinalityBranch = []\<rparr>"
    unfolding prove_committee_def is_next_def Let_def n [symmetric] by (auto simp: bind_eq_Inr split: if_splits)
  from run(6) obtain g where g: "pk = Some g" by (cases pk) (auto simp: G1Point_String_def)
  have "missing = absent L ?bits ?n" using committee_loop_Inr [OF run(2)] by (simp add: absent_def)
  with run u g show ?thesis by (intro that) auto
qed

lemma add_finality_fields:
  assumes "add_finality L c curSlot u = Inr (Some v)"
  shows "up_ForkVersion v = up_ForkVersion u" "up_SignatureSlot v = up_SignatureSlot u"
    "up_AttestedHeader v = up_AttestedHeader u"
    "up_MissedSyncCommitteeParticipants v = up_MissedSyncCommitteeParticipants u"
    "up_SyncCommitteeRootDecommitments v = up_SyncCommitteeRootDecommitments u"
    "up_SyncAggregatePubkey v = up_SyncAggregatePubkey u"
    "up_SyncAggregateSignature v = up_SyncAggregateSignature u"
    "up_SyncCommitteeBranch v = up_SyncCommitteeBranch u"
  using assms by (auto simp: add_finality_def Let_def bind_eq_Inr split: if_splits prod.splits)

lemma MakeUpdateE:
  assumes "MakeUpdate L B since c curSlot targetSlot = Inr (Some u)"
  obtains slot head attestedBlock attested curBlock u0 u1 ws where
    "choose_slot since c curSlot targetSlot = Inr slot" "find_head L c slot = Inr head"
    "GetBlock (Client c) (HashString L (BytesToHash L (bk_ParentRoot head))) = Inr attestedBlock"
    "ConvertToHeader L attestedBlock = Inr attested" "block_at c curSlot = Inr curBlock"
    "prove_committee L B c curSlot head attested (BytesToHash L (bk_StateRoot curBlock)) = Inr u0"
    "add_finality L c curSlot u0 = Inr (Some u1)"
    "bit_list L (SyncCommitteeSize (Spec c)) (BitsBytes L (bd_SyncCommitteeBits (bk_Body head))) = Inr ws"
    "u = u1\<lparr>up_SyncAggregateBitList := ws\<rparr>"
  using assms unfolding MakeUpdate_def
  by (elim bind_InrE) (auto simp: block_at_def bind_eq_Inr split: option.splits)

lemma find_head_enough: "find_head L c slot = Inr b \<Longrightarrow> enough_signatures L c b"
proof -
  assume b: "find_head L c slot = Inr b"
  then obtain r where r: "head_loop L c slot = Some r" and rb: "r = Inr b"
    by (auto simp: find_head_def split: option.splits)
  from head_loop_Some [OF r] obtain k where "\<not> skipped L c (slot - of_nat k)" "r = stop_at c (slot - of_nat k)"
    by blast
  with rb show ?thesis by (auto simp: stop_at_def skipped_def)
qed

subsection \<open>The branches of the update\<close>

lemma committee_branch:
  assumes "BytesToHash_doc L" and "ssz_doc L" and "GetBeaconState L c curSlot = Inr (st, t)"
    and "committee_sizes (st_CurrentSyncCommittee st)"
    and "proveNewSyncCommittee L B c curSlot root False = Inr (cmt, br)"
  shows "ConvertToSyncCommittee B (st_CurrentSyncCommittee st) = Inr cmt"
    and "restoreMerkleRoot (ssz_committee_root (st_CurrentSyncCommittee st)) CURRENT_SYNC_COMMITTEE_INDEX (Path br)
      = Some root"
proof -
  note run = proveNewSyncCommittee_run [OF assms(1-3), where nxt = False, simplified, OF assms(4)]
  from assms(5) show "ConvertToSyncCommittee B (st_CurrentSyncCommittee st) = Inr cmt"
    unfolding run(1) by (auto simp: bind_eq_Inr split: if_splits)
  from assms(5) have "tree_root t = root" and "Path br = tree_branch t 22"
    unfolding run(1) by (auto simp: bind_eq_Inr split: if_splits)
  with run(2) show "restoreMerkleRoot (ssz_committee_root (st_CurrentSyncCommittee st)) CURRENT_SYNC_COMMITTEE_INDEX (Path br)
      = Some root" by simp
qed

lemma finality_branch:
  assumes "BytesToHash_doc L" and "ssz_doc L" and "WithFinality c"
    and "add_finality L c curSlot u = Inr (Some v)"
    and "GetState (Client c) (hd_Slot (up_AttestedHeader u)) = Inr st"
    and "length (cp_Root (st_FinalizedCheckpoint st)) = 32"
  shows "restoreMerkleRoot (BytesToHash L (cp_Root (st_FinalizedCheckpoint st))) FINALIZED_ROOT_INDEX (up_FinalityBranch v)
      = Some (hd_StateRoot (up_AttestedHeader u))"
    and "up_FinalityBranch v \<noteq> []"
    and "\<exists>b. GetBlock (Client c) (EncodeHex L (cp_Root (st_FinalizedCheckpoint st))) = Inr b
           \<and> ConvertToHeader L b = Inr (up_FinalizedHeader v)"
    and "curSlot < hd_Slot (up_FinalizedHeader v)"
proof -
  let ?h = "up_AttestedHeader u"
  from assms(3,4) obtain s t root b hdr pr where run: "GetBeaconState L c (hd_Slot ?h) = Inr (s, t)"
    "MerkleTree_Hash t = Inr root" "root = hd_StateRoot ?h"
    "GetBlock (Client c) (EncodeHex L (cp_Root (st_FinalizedCheckpoint s))) = Inr b" "ConvertToHeader L b = Inr hdr"
    "MerkleTree_MakeProof t 20 = Inr pr" "\<not> hd_Slot hdr \<le> curSlot"
    and v: "v = u\<lparr>up_FinalizedHeader := hdr,
               up_FinalityBranch := UintToHash (cp_Epoch (st_FinalizedCheckpoint s)) # Path pr\<rparr>"
    by (auto simp: add_finality_def Let_def bind_eq_Inr split: if_splits prod.splits)
  have s: "s = st" using GetBeaconState_tree(1) [OF run(1)] assms(5) by simp
  let ?cp = "st_FinalizedCheckpoint st"
  have "MustHashTreeRoot L (CheckpointObj ?cp) = Inr (ssz_checkpoint_root ?cp)"
    using assms(2,6) by (intro MustHashTreeRoot_Inr assms(1)) (simp add: ssz_doc_def)
  moreover have "state_fields L c st ! 20 = MustHashTreeRoot L (CheckpointObj ?cp)" by (simp add: state_fields_def)
  ultimately have leaf: "leaves t ! 20 = node_hash (UintToHash (cp_Epoch ?cp)) (BytesToHash L (cp_Root ?cp))"
    using state_leaf [OF run(1), of 20] assms(6)
    by (simp add: s ssz_checkpoint_root_def BytesToHash_copy [OF assms(1)])
  have pr: "Path pr = tree_branch t 20" using state_opens(1) [OF run(1), of 20] run(6) by auto
  have "opens (concat_gi 52 1 3) ([UintToHash (cp_Epoch ?cp)] @ tree_branch t 20) (BytesToHash L (cp_Root ?cp)) (tree_root t)"
    using branch.trans [OF opens_right, of 52 "tree_branch t 20"] state_opens(2) [OF run(1), of 20] leaf by fastforce
  from opens_contract [OF this] have "restoreMerkleRoot (BytesToHash L (cp_Root ?cp)) 105
      (UintToHash (cp_Epoch ?cp) # tree_branch t 20) = Some (tree_root t)"
    by (simp add: concat_gi_def)
  moreover have "tree_root t = hd_StateRoot ?h" using state_root [OF run(1)] run(2,3) by simp
  ultimately show "restoreMerkleRoot (BytesToHash L (cp_Root ?cp)) FINALIZED_ROOT_INDEX (up_FinalityBranch v)
      = Some (hd_StateRoot ?h)"
    by (simp add: v s pr FINALIZED_ROOT_INDEX_def)
  show "\<exists>b. GetBlock (Client c) (EncodeHex L (cp_Root ?cp)) = Inr b \<and> ConvertToHeader L b = Inr (up_FinalizedHeader v)"
    using run(4,5) by (auto simp: v s)
qed (use assms(3,4) in \<open>auto simp: add_finality_def Let_def bind_eq_Inr not_le split: if_splits prod.splits\<close>)

lemma no_finality:
  assumes "\<not> WithFinality c" and "add_finality L c curSlot u = Inr (Some v)"
  shows "v = u" and "curSlot < hd_Slot (up_AttestedHeader u)"
  using assms by (auto simp: add_finality_def Let_def not_le split: if_splits)

subsection \<open>Properties\<close>

text \<open>C12. An update that \<^verbatim>\<open>MakeUpdate\<close> returns was checked: it comes from a block with at least ten (with
  finality: two thirds of) sync committee signatures, the signature verifies over that block's parent with
  the returned key, that key is the sum of exactly the members whose bit is set, the missing members are
  the others in descending order, and the header it proves, finalized or attested, is newer than the
  current slot.\<close>

theorem MakeUpdate_checked:
  assumes "MakeUpdate L B since c curSlot targetSlot = Inr (Some u)"
  shows "\<exists>slot head cmt br domain.
      choose_slot since c curSlot targetSlot = Inr slot \<and> find_head L c slot = Inr head
    \<and> enough_signatures L c head \<and> up_SignatureSlot u = bk_Slot head
    \<and> proveNewSyncCommittee L B c curSlot
         (case block_at c curSlot of Inr b \<Rightarrow> BytesToHash L (bk_StateRoot b) | _ \<Rightarrow> zero_hash) False = Inr (cmt, br)
    \<and> syncDomainRoot L c = Inr domain
    \<and> Verify B (BytesToHash L (bk_ParentRoot head)) domain (up_SyncAggregatePubkey u) (up_SyncAggregateSignature u)
    \<and> sum_keys B None (map (\<lambda>i. g1c_raw (PublicKeys cmt ! i))
          (signers L (bd_SyncCommitteeBits (bk_Body head)) (nat (SyncCommitteeSize (Spec c)))))
        = Some (g1_raw (up_SyncAggregatePubkey u))
    \<and> up_MissedSyncCommitteeParticipants u = map ((!) (PublicKeys cmt))
          (rev (absent L (bd_SyncCommitteeBits (bk_Body head)) (nat (SyncCommitteeSize (Spec c)))))
    \<and> curSlot < hd_Slot (if WithFinality c then up_FinalizedHeader u else up_AttestedHeader u)"
proof -
  from assms obtain slot head attestedBlock attested curBlock u0 u1 ws where run:
    "choose_slot since c curSlot targetSlot = Inr slot" "find_head L c slot = Inr head"
    "block_at c curSlot = Inr curBlock"
    "prove_committee L B c curSlot head attested (BytesToHash L (bk_StateRoot curBlock)) = Inr u0"
    "add_finality L c curSlot u0 = Inr (Some u1)" "u = u1\<lparr>up_SyncAggregateBitList := ws\<rparr>"
    by (elim MakeUpdateE)
  let ?bits = "bd_SyncCommitteeBits (bk_Body head)" and ?n = "nat (SyncCommitteeSize (Spec c))"
  from run(4) obtain cmt br pk hashed missingPKs sig domain where pc:
    "proveNewSyncCommittee L B c curSlot (BytesToHash L (bk_StateRoot curBlock)) False = Inr (cmt, br)"
    "committee_loop L B ?bits (PublicKeys cmt) [0 ..< ?n] None [] [] = Inr (Some pk, hashed, absent L ?bits ?n)"
    "map_go (\<lambda>i. index (PublicKeys cmt) (int i)) (rev (absent L ?bits ?n)) = Inr missingPKs"
    "syncDomainRoot L c = Inr domain" "Verify B (BytesToHash L (bk_ParentRoot head)) domain pk sig"
    and u0: "up_SignatureSlot u0 = bk_Slot head" "up_SyncAggregatePubkey u0 = pk"
      "up_SyncAggregateSignature u0 = sig" "up_MissedSyncCommitteeParticipants u0 = missingPKs"
    by (rule prove_committeeE [OF _ refl]) auto
  note loop = committee_loop_Inr [OF pc(2)]
  have "missingPKs = map ((!) (PublicKeys cmt)) (rev (absent L ?bits ?n))" using pc(3) by (rule map_go_index)
  moreover have "sum_keys B None (map (\<lambda>i. g1c_raw (PublicKeys cmt ! i)) (signers L ?bits ?n)) = Some (g1_raw pk)"
    using loop by (simp add: signers_def)
  moreover have "curSlot < hd_Slot (if WithFinality c then up_FinalizedHeader u else up_AttestedHeader u)"
  proof (cases "WithFinality c")
    case False
    then show ?thesis using no_finality [OF False run(5)] by (simp add: run(6))
  next
    case True
    then show ?thesis
      using run(5) by (auto simp: run(6) add_finality_def Let_def bind_eq_Inr not_le split: if_splits prod.splits)
  qed
  ultimately show ?thesis
    using run(1-3) pc(1,4,5) u0 add_finality_fields [OF run(5)] find_head_enough [OF run(2)]
    by (intro exI [of _ slot] exI [of _ head] exI [of _ cmt] exI [of _ br] exI [of _ domain]) (simp add: run(6))
qed

text \<open>The finality branch of an update is accepted by the contract: at \<^verbatim>\<open>FINALIZED\_ROOT\_INDEX\<close> it leads
  from the finalized checkpoint's root to the state root of the attested header, and the finalized header is
  the one of the block with that root.\<close>

theorem MakeUpdate_finality_accepted:
  assumes "MakeUpdate L B since c curSlot targetSlot = Inr (Some u)" and "WithFinality c"
    and "BytesToHash_doc L" and "ssz_doc L"
    and "GetState (Client c) (hd_Slot (up_AttestedHeader u)) = Inr st"
    and "length (cp_Root (st_FinalizedCheckpoint st)) = 32"
  shows "restoreMerkleRoot (BytesToHash L (cp_Root (st_FinalizedCheckpoint st))) FINALIZED_ROOT_INDEX (up_FinalityBranch u)
      = Some (hd_StateRoot (up_AttestedHeader u))
    \<and> (\<exists>b. GetBlock (Client c) (EncodeHex L (cp_Root (st_FinalizedCheckpoint st))) = Inr b
           \<and> ConvertToHeader L b = Inr (up_FinalizedHeader u))"
proof -
  from assms(1) obtain u0 u1 ws where run: "add_finality L c curSlot u0 = Inr (Some u1)"
    "u = u1\<lparr>up_SyncAggregateBitList := ws\<rparr>" by (elim MakeUpdateE)
  have att: "up_AttestedHeader u0 = up_AttestedHeader u" using add_finality_fields [OF run(1)] run(2) by simp
  show ?thesis
    using finality_branch [OF assms(3,4,2) run(1) _ assms(6)] assms(5) att by (simp add: run(2))
qed

text \<open>C21. Whatever the slot of the signature, the committee branch of an update proves the
  \<^emph>\<open>current\<close> sync committee of the state at the current slot, at \<^verbatim>\<open>CURRENT\_SYNC\_COMMITTEE\_INDEX\<close>: the flag
  \<^verbatim>\<open>isNext\<close> compares the current period with itself. An update signed in the next period therefore carries a
  proof for the index that the contract does not use then.\<close>

theorem MakeUpdate_current_committee:
  assumes "MakeUpdate L B since c curSlot targetSlot = Inr (Some u)"
    and "BytesToHash_doc L" and "ssz_doc L" and "GetBeaconState L c curSlot = Inr (st, t)"
    and "committee_sizes (st_CurrentSyncCommittee st)"
  shows "\<exists>curBlock. block_at c curSlot = Inr curBlock
    \<and> restoreMerkleRoot (ssz_committee_root (st_CurrentSyncCommittee st)) CURRENT_SYNC_COMMITTEE_INDEX
        (up_SyncCommitteeBranch u) = Some (BytesToHash L (bk_StateRoot curBlock))"
proof -
  from assms(1) obtain head attested curBlock u0 u1 ws where run: "block_at c curSlot = Inr curBlock"
    "prove_committee L B c curSlot head attested (BytesToHash L (bk_StateRoot curBlock)) = Inr u0"
    "add_finality L c curSlot u0 = Inr (Some u1)" "u = u1\<lparr>up_SyncAggregateBitList := ws\<rparr>"
    by (elim MakeUpdateE)
  from run(2) obtain cmt br where
    "proveNewSyncCommittee L B c curSlot (BytesToHash L (bk_StateRoot curBlock)) False = Inr (cmt, br)"
    and "up_SyncCommitteeBranch u0 = Path br"
    by (rule prove_committeeE [OF _ refl]) auto
  then show ?thesis
    using committee_branch(2) [OF assms(2-5)] add_finality_fields [OF run(3)] run(1,4) by simp
qed

end
