(* ===== verification/Bls_Contract.thy ===== *)
theory Bls_Contract
  imports Bls_Points
begin

section \<open>The signature check of the contract (contracts/light\_client/libraries/BLS12381.sol)\<close>

text \<open>
  The library of the light client contract that adds keys and verifies an aggregate signature. It hashes the message
  to the curve itself, down to the precompiled contracts for modular exponentiation (EIP-198) and for the curve
  (EIP-2537), which are the record \<open>precompiles\<close>. A failing call of a precompile reverts: \<open>None\<close>. Points are passed as their
  coordinates; the word arrays in which they are laid out for the call are not spelled out, nor is the copying
  of the base of an exponentiation, word by word, into fresh (zero) memory.
\<close>

type_synonym g1 = "Fp \<times> Fp"
type_synonym g2 = "Fp2 \<times> Fp2"

record precompiles =
  G1ADD :: "g1 \<Rightarrow> g1 \<Rightarrow> g1 option"
  G2ADD :: "g2 \<Rightarrow> g2 \<Rightarrow> g2 option"
  MAP_FIELD_TO_CURVE :: "Fp2 \<Rightarrow> g2 option"
  PAIRING :: "(g1 \<times> g2) list \<Rightarrow> nat option"
  MOD_EXP :: "byte list \<Rightarrow> byte list option"

subsection \<open>Addition\<close>

definition addG1 :: "precompiles \<Rightarrow> g1 \<Rightarrow> 'pk G1PointCompressed \<Rightarrow> g1 option" where
  "addG1 P a b =
     G1ADD P a (\<lparr>fp_A = g1c_A b AND (2 ^ 128 - 1), fp_B = g1c_XB b\<rparr>,
                \<lparr>fp_A = drop_bit 128 (g1c_A b), fp_B = g1c_YB b\<rparr>)"

definition addG2 :: "precompiles \<Rightarrow> g2 \<Rightarrow> g2 \<Rightarrow> g2 option" where
  "addG2 P a b = G2ADD P a b"

subsection \<open>Hashing to the field\<close>

definition BLS_SIG_DST :: "byte list" where
  "BLS_SIG_DST = map of_char ''BLS_SIG_BLS12381G2_XMD:SHA-256_SSWU_RO_POP_+''"

definition xor_bytes :: "byte list \<Rightarrow> byte list \<Rightarrow> byte list" where
  "xor_bytes xs ys = map2 (XOR) xs ys"

fun expand_loop :: "hash \<Rightarrow> hash \<Rightarrow> nat list \<Rightarrow> hash list" where
  "expand_loop b0 chunk [] = []"
| "expand_loop b0 chunk (i # is) =
     (let chunk = Sha256Hash [xor_bytes (Bytes b0) (Bytes chunk), [of_nat i], BLS_SIG_DST] in chunk # expand_loop b0 chunk is)"

definition expandMessage :: "hash \<Rightarrow> byte list" where
  "expandMessage message =
     (let b0 = Sha256Hash [replicate 32 0, replicate 32 0, Bytes message, [1, 0, 0], BLS_SIG_DST];
          chunk = Sha256Hash [Bytes b0, [1], BLS_SIG_DST] in
      concat (map Bytes (chunk # expand_loop b0 chunk [2 ..< 9])))"

text \<open>The modulus, in the two parts of the source.\<close>

definition fieldModulus :: "byte list" where
  "fieldModulus = be_bytes 16 0x1a0111ea397fe69a4b1ba7b6434bacd7
     @ be_bytes 32 0x64774b84f38512bf6730d2a0f6b0f6241eabfffeb153ffffb9feffffffffaaab"

definition reduceModulo :: "precompiles \<Rightarrow> byte list \<Rightarrow> nat \<Rightarrow> nat \<Rightarrow> byte list option" where
  "reduceModulo P data start stop =
     (let len = stop - start in
      if start \<le> stop \<and> len \<le> length data
      then MOD_EXP P (be_bytes 32 len @ be_bytes 32 0x20 @ be_bytes 32 48
             @ take len (drop start data) @ be_bytes 32 1 @ fieldModulus)
      else None)"

definition convertSliceToFp :: "precompiles \<Rightarrow> byte list \<Rightarrow> nat \<Rightarrow> nat \<Rightarrow> Fp option" where
  "convertSliceToFp P data start stop = map_option fp_of (reduceModulo P data start stop)"

definition convert_pair :: "precompiles \<Rightarrow> byte list \<Rightarrow> nat \<Rightarrow> Fp2 option" where
  "convert_pair P data start =
     (case convertSliceToFp P data start (start + 64) of
        None \<Rightarrow> None
      | Some a \<Rightarrow> map_option (\<lambda>b. \<lparr>fp2_A = a, fp2_B = b\<rparr>) (convertSliceToFp P data (start + 64) (start + 128)))"

definition hashToField :: "precompiles \<Rightarrow> hash \<Rightarrow> (Fp2 \<times> Fp2) option" where
  "hashToField P message =
     (let some_bytes = expandMessage message in
      case convert_pair P some_bytes 0 of
        None \<Rightarrow> None
      | Some a \<Rightarrow> map_option (Pair a) (convert_pair P some_bytes 128))"

subsection \<open>The check\<close>

definition mapToCurve :: "precompiles \<Rightarrow> Fp2 \<Rightarrow> g2 option" where
  "mapToCurve P fieldElement = MAP_FIELD_TO_CURVE P fieldElement"

definition hashToCurve :: "precompiles \<Rightarrow> hash \<Rightarrow> g2 option" where
  "hashToCurve P message =
     (case hashToField P message of
        None \<Rightarrow> None
      | Some (a, b) \<Rightarrow>
          (case mapToCurve P a of
             None \<Rightarrow> None
           | Some firstPoint \<Rightarrow>
               (case mapToCurve P b of
                  None \<Rightarrow> None
                | Some secondPoint \<Rightarrow> addG2 P firstPoint secondPoint)))"

text \<open>The negative of the generator of the first group.\<close>

definition negP1 :: g1 where
  "negP1 =
     (\<lparr>fp_A = 31827880280837800241567138048534752271,
       fp_B = 88385725958748408079899006800036250932223001591707578097800747617502997169851\<rparr>,
      \<lparr>fp_A = 22997279242622214937712647648895181298,
       fp_B = 46816884707101390882112958134453447585552332943769894357249934112654335001290\<rparr>)"

definition blsPairingCheck :: "precompiles \<Rightarrow> g1 \<Rightarrow> g2 \<Rightarrow> g2 \<Rightarrow> bool" where
  "blsPairingCheck P publicKey messageOnCurve signature \<longleftrightarrow>
     PAIRING P [(publicKey, messageOnCurve), (negP1, signature)] = Some 1"

definition verifyBLSSignature :: "precompiles \<Rightarrow> hash \<Rightarrow> g1 \<Rightarrow> g2 \<Rightarrow> bool" where
  "verifyBLSSignature P message publicKey signature \<longleftrightarrow>
     (case hashToCurve P message of
        None \<Rightarrow> False
      | Some messageOnCurve \<Rightarrow> blsPairingCheck P publicKey messageOnCurve signature)"

subsection \<open>RFC 9380: expand\_message\_xmd and hash\_to\_field\<close>

text \<open>With SHA-256: digests of 32 bytes, blocks of 64. The block \<open>i\<close> below is \<open>b\<^sub>i\<^sub>+\<^sub>1\<close> of the document.\<close>

fun xmd_block :: "byte list \<Rightarrow> byte list \<Rightarrow> nat \<Rightarrow> byte list" where
  "xmd_block dst_prime b0 0 = sha256 (b0 @ be_bytes 1 1 @ dst_prime)"
| "xmd_block dst_prime b0 (Suc i) = sha256 (map2 (XOR) b0 (xmd_block dst_prime b0 i) @ be_bytes 1 (i + 2) @ dst_prime)"

definition expand_message_xmd :: "byte list \<Rightarrow> byte list \<Rightarrow> nat \<Rightarrow> byte list" where
  "expand_message_xmd DST msg len =
     (let dst_prime = DST @ be_bytes 1 (length DST);
          b0 = sha256 (be_bytes 64 0 @ msg @ be_bytes 2 len @ be_bytes 1 0 @ dst_prime) in
      take len (concat (map (xmd_block dst_prime b0) [0 ..< (len + 31) div 32])))"

definition field_prime :: nat where
  "field_prime = 0x1a0111ea397fe69a4b1ba7b6434bacd764774b84f38512bf6730d2a0f6b0f6241eabfffeb153ffffb9feffffffffaaab"

text \<open>Two elements of the quadratic extension, each coordinate from 64 bytes: coordinate \<open>j\<close> of element \<open>i\<close>.\<close>

definition hash_to_field :: "byte list \<Rightarrow> byte list \<Rightarrow> nat \<Rightarrow> nat \<Rightarrow> nat" where
  "hash_to_field DST msg i j = be_nat (take 64 (drop (64 * (j + 2 * i)) (expand_message_xmd DST msg 256))) mod field_prime"

definition POP_DST :: "byte list" where
  "POP_DST = map of_char ''BLS_SIG_BLS12381G2_XMD:SHA-256_SSWU_RO_POP_''"

definition field_element :: "hash \<Rightarrow> nat \<Rightarrow> Fp2" where
  "field_element h i =
     \<lparr>fp2_A = fp_of (be_bytes 48 (hash_to_field POP_DST (Bytes h) i 0)),
      fp2_B = fp_of (be_bytes 48 (hash_to_field POP_DST (Bytes h) i 1))\<rparr>"

text \<open>EIP-198: three lengths of 32 bytes, then base, exponent and modulus.\<close>

definition modexp :: "byte list \<Rightarrow> byte list" where
  "modexp inp =
     (let bl = be_nat (take 32 inp); el = be_nat (take 32 (drop 32 inp)); ml = be_nat (take 32 (drop 64 inp));
          body = drop 96 inp;
          b = be_nat (take bl body); e = be_nat (take el (drop bl body)); m = be_nat (take ml (drop (bl + el) body)) in
      be_bytes ml (if m = 0 then 0 else b ^ e mod m))"

definition modexp_doc :: "precompiles \<Rightarrow> bool" where
  "modexp_doc P \<longleftrightarrow> (\<forall>inp. MOD_EXP P inp = Some (modexp inp))"

lemma be_bytes_1: "be_bytes 1 v = [of_nat v]"
proof -
  have "(of_nat (v mod 256) :: byte) = of_nat v" by (simp add: word_of_nat_eq_iff take_bit_eq_mod)
  then show ?thesis by simp
qed

lemma BLS_SIG_DST_prime: "BLS_SIG_DST = POP_DST @ be_bytes 1 (length POP_DST)"
  unfolding be_bytes_1 by (simp add: BLS_SIG_DST_def POP_DST_def)

lemma expand_loop_xmd:
  "Bytes chunk = xmd_block BLS_SIG_DST (Bytes b0) k \<Longrightarrow>
   map Bytes (expand_loop b0 chunk [k + 2 ..< k + 2 + n]) = map (xmd_block BLS_SIG_DST (Bytes b0)) [k + 1 ..< k + 1 + n]"
proof (induction n arbitrary: k chunk)
  case (Suc n)
  let ?next = "Sha256Hash [xor_bytes (Bytes b0) (Bytes chunk), [of_nat (k + 2)], BLS_SIG_DST]"
  have "Bytes ?next = xmd_block BLS_SIG_DST (Bytes b0) (Suc k)"
    using Suc.prems by (simp add: Bytes_Sha256Hash xor_bytes_def be_bytes_1 del: be_bytes.simps One_nat_def)
  from Suc.IH [OF this] have "map Bytes (?next # expand_loop b0 ?next [Suc k + 2 ..< Suc k + 2 + n])
      = map (xmd_block BLS_SIG_DST (Bytes b0)) (Suc k # [Suc k + 1 ..< Suc k + 1 + n])"
    using \<open>Bytes ?next = xmd_block BLS_SIG_DST (Bytes b0) (Suc k)\<close> by simp
  moreover have "[k + 2 ..< k + 2 + Suc n] = (k + 2) # [Suc k + 2 ..< Suc k + 2 + n]"
    "[k + 1 ..< k + 1 + Suc n] = Suc k # [Suc k + 1 ..< Suc k + 1 + n]"
    by (simp_all add: upt_conv_Cons del: upt_Suc)
  ultimately show ?case by (simp only: expand_loop.simps Let_def)
qed simp

lemma expandMessage_xmd: "expandMessage h = expand_message_xmd POP_DST (Bytes h) 256"
proof -
  let ?b0 = "Sha256Hash [replicate 32 0, replicate 32 0, Bytes h, [1, 0, 0], BLS_SIG_DST]"
  let ?chunk = "Sha256Hash [Bytes ?b0, [1], BLS_SIG_DST]" and ?block = "xmd_block BLS_SIG_DST (Bytes ?b0)"
  have "be_bytes n 0 = replicate n 0" for n by (induction n) (simp_all add: replicate_append_same)
  then have zero: "be_bytes 64 0 = replicate 64 0" .
  have len: "be_bytes 2 256 = [1, 0]" by (simp add: numeral_2_eq_2)
  have "replicate 32 (0 :: byte) @ replicate 32 0 = replicate 64 0" by (simp add: replicate_add [symmetric])
  then have b0: "Bytes ?b0 = sha256 (be_bytes 64 0 @ Bytes h @ be_bytes 2 256 @ be_bytes 1 0 @ BLS_SIG_DST)"
    by (simp add: Bytes_Sha256Hash zero len be_bytes_1 del: be_bytes.simps One_nat_def flip: append_assoc)
  have first: "Bytes ?chunk = ?block 0" by (simp add: Bytes_Sha256Hash be_bytes_1 del: be_bytes.simps One_nat_def)
  have "map Bytes (?chunk # expand_loop ?b0 ?chunk [2 ..< 9]) = map ?block (0 # [1 ..< 8])"
  proof -
    have "0 + 2 = (2 :: nat)" "2 + 7 = (9 :: nat)" "0 + 1 = (1 :: nat)" "1 + 7 = (8 :: nat)" by simp_all
    from expand_loop_xmd [OF first, of 7, unfolded this] first show ?thesis by (simp only: list.map)
  qed
  also have "0 # [1 ..< 8] = [0 ..< 8]" by (simp add: upt_conv_Cons)
  finally have "expandMessage h = concat (map ?block [0 ..< 8])" by (simp only: expandMessage_def Let_def)
  moreover have "length (concat (map ?block is)) = 32 * length is" for "is"
  proof (induction "is")
    case (Cons i "is")
    have "length (?block i) = 32" by (cases i) simp_all
    with Cons show ?case by simp
  qed simp
  then have "take 256 (concat (map ?block [0 ..< 8])) = concat (map ?block [0 ..< 8])" by (intro take_all) simp
  moreover have "(256 + 31) div 32 = (8 :: nat)" by simp
  ultimately show ?thesis by (simp only: expand_message_xmd_def Let_def b0 BLS_SIG_DST_prime [symmetric])
qed

lemma length_expandMessage: "length (expandMessage h) = 256"
proof -
  have "length (concat (map Bytes (expand_loop b0 chunk is))) = 32 * length is" for b0 chunk "is"
    by (induction b0 chunk "is" rule: expand_loop.induct) (simp_all add: Let_def)
  then show ?thesis by (simp add: expandMessage_def Let_def del: upt_rec_numeral)
qed

lemma fieldModulus_prime: "be_nat fieldModulus = field_prime" and length_fieldModulus [simp]: "length fieldModulus = 48"
  by (simp_all add: fieldModulus_def be_nat_append be_nat_be_bytes field_prime_def)

lemma convertSliceToFp_value:
  assumes "modexp_doc P" and "length data = 256" and "start + 64 \<le> 256"
  shows "convertSliceToFp P data start (start + 64) = Some (fp_of (be_bytes 48 (be_nat (take 64 (drop start data)) mod field_prime)))"
proof -
  have "field_prime \<noteq> 0" by (simp add: field_prime_def)
  then show ?thesis
    using assms
    by (simp add: convertSliceToFp_def reduceModulo_def modexp_doc_def modexp_def be_nat_be_bytes fieldModulus_prime)
qed

lemma hashToField_rfc:
  assumes "modexp_doc P"
  shows "hashToField P h = Some (field_element h 0, field_element h 1)"
proof -
  note slice = convertSliceToFp_value [OF assms length_expandMessage [of h], unfolded expandMessage_xmd]
  show ?thesis
    using slice [of 0] slice [of 64] slice [of 128] slice [of 192]
    by (simp add: hashToField_def convert_pair_def Let_def expandMessage_xmd field_element_def hash_to_field_def)
qed

subsection \<open>The check, as the documents have it\<close>

text \<open>The generator of the first group, \<open>(x, y)\<close>, on the curve \<open>y\<^sup>2 = x\<^sup>3 + 4\<close>; its negative is \<open>(x, -y)\<close>.\<close>

definition generator_x :: nat where
  "generator_x = 0x17f1d3a73197d7942695638c4fa9ac0fc3688c4f9774b905a14e3a3f171bac586c55e83ff97a1aeffb3af00adb22c6bb"

definition generator_y :: nat where
  "generator_y = 0x08b3f481e3aaa0f1a09e30ed741d8ae4fcf5e095d5d00af600db18cb2c04b3edd03cc744a2888ae40caa232946c5e7e1"

lemma generator_on_curve: "generator_y ^ 2 mod field_prime = (generator_x ^ 3 + 4) mod field_prime"
proof -
  have "generator_x ^ 3 + 4 = generator_y ^ 2 + field_prime *
      0x20fefb381c4d328c28cc46e90650f295ad45dc7ce1d40b2b68bd5fdf6ceadd3e17d6c452933c7dffcbe2b211e3694aa8c4f9588d53b5baff2d3767298978f8b73c44ba75f39c8f35b61cedcb0e1cb4b445c6363f1a3543909fd379a38aee212"
    by (simp add: generator_x_def generator_y_def field_prime_def)
  then show ?thesis by simp
qed

definition minus_generator :: g1 where
  "minus_generator = (fp_of (be_bytes 48 generator_x), fp_of (be_bytes 48 (field_prime - generator_y)))"

lemma fp_of_number: "fp_of (be_bytes 48 n) = \<lparr>fp_A = int (n div 256 ^ 32 mod 256 ^ 16), fp_B = int (n mod 256 ^ 32)\<rparr>"
proof -
  have "be_bytes (16 + 32) n = be_bytes 16 (n div 256 ^ 32) @ be_bytes 32 n" by (rule be_bytes_add)
  then have "be_bytes 48 n = be_bytes 16 (n div 256 ^ 32) @ be_bytes 32 n" by simp
  then show ?thesis by (simp add: fp_of_def SetBytes_def be_nat_be_bytes)
qed

lemma negP1_generator: "negP1 = minus_generator"
  by (simp add: negP1_def minus_generator_def fp_of_number generator_x_def generator_y_def field_prime_def)

text \<open>\<^verbatim>\<open>e(pk, H(m)) e(-P1, sig) = 1\<close>, with \<open>H\<close> the hash to the curve of RFC 9380: two field elements, mapped and added.\<close>

definition signature_check :: "precompiles \<Rightarrow> hash \<Rightarrow> g1 \<Rightarrow> g2 \<Rightarrow> bool" where
  "signature_check P h pk sig \<longleftrightarrow>
     (\<exists>q0 q1 q. MAP_FIELD_TO_CURVE P (field_element h 0) = Some q0 \<and> MAP_FIELD_TO_CURVE P (field_element h 1) = Some q1
        \<and> G2ADD P q0 q1 = Some q \<and> PAIRING P [(pk, q), (minus_generator, sig)] = Some 1)"

lemma verifyBLSSignature_check: "modexp_doc P \<Longrightarrow> verifyBLSSignature P h pk sig \<longleftrightarrow> signature_check P h pk sig"
  by (auto simp: verifyBLSSignature_def hashToCurve_def hashToField_rfc mapToCurve_def addG2_def blsPairingCheck_def negP1_generator
      signature_check_def split: option.splits)


definition sample_precompiles :: "g1 \<Rightarrow> precompiles" where
  "sample_precompiles a =
     \<lparr>G1ADD = \<lambda>_ _. Some a, G2ADD = \<lambda>p _. Some p, MAP_FIELD_TO_CURVE = \<lambda>u. Some (u, u), PAIRING = \<lambda>_. Some 1,
      MOD_EXP = \<lambda>inp. Some (modexp inp)\<rparr>"

lemma sample_modexp: "modexp_doc (sample_precompiles a)"
  by (simp add: modexp_doc_def sample_precompiles_def)

lemma sample_signature: "signature_check (sample_precompiles a) h pk sig"
  by (simp add: signature_check_def sample_precompiles_def)


end
