(* ===== verification/Light_Contract.thy ===== *)
theory Light_Contract
  imports Light_Update Bls_Contract
begin

section \<open>The light client contract (contracts/light\_client/BeaconLightClient.sol)\<close>

text \<open>
  The on-chain counterpart of \<^verbatim>\<open>MakeUpdate\<close>: the header root, the aggregation of the missing keys,
  the hash of a compressed key, and \<^verbatim>\<open>step\<close>. The update is the oracle's record, whose unexported
  \<^verbatim>\<open>raw\<close> fields the ABI encoding leaves out and the definitions below do not read. \<open>None\<close> is a
  reverted transaction.
\<close>

subsection \<open>LittleEndian and the header root\<close>

fun encode_loop :: "nat \<Rightarrow> u256 \<Rightarrow> u256 \<Rightarrow> u256" where
  "encode_loop 0 x res = res"
| "encode_loop (Suc n) x res = encode_loop n (drop_bit 8 x) (push_bit 8 res OR (x AND 0xff))"

definition LittleEndian_encode :: "u256 \<Rightarrow> hash" where
  "LittleEndian_encode x = Hash (be_bytes 32 (unat (encode_loop 32 x 0)))"

definition zero_pair :: hash where
  "zero_pair = Hash (be_bytes 32 0xf5a5fd42d16a20302798ef6ed309979b43003d2320d9f0e8ea9831a92759fb4b)"

definition headerRoot :: "BeaconBlockHeader \<Rightarrow> hash" where
  "headerRoot h =
     hashPair
       (hashPair
         (hashPair (LittleEndian_encode (ucast (hd_Slot h))) (LittleEndian_encode (ucast (hd_ProposerIndex h))))
         (hashPair (hd_ParentRoot h) (hd_StateRoot h)))
       (hashPair (hashPair (hd_BodyRoot h) zero_hash) zero_pair)"

subsection \<open>The hash of a key\<close>

definition half_A :: int where
  "half_A = 0x0d0088f51cbff34d258dd3db21a5d66b"

definition half_B :: int where
  "half_B = 0xb23ba5c279c2895fb39869507b587b120f55ffff58a9ffffdcff7fffffffd555"

text \<open>\<^verbatim>\<open>mstore(0x00, shl(128, a)); mstore(0x20, 0); mstore(0x10, xb)\<close>, then SHA-256 of 64 bytes\<close>

definition hash_words :: "int \<Rightarrow> int \<Rightarrow> hash" where
  "hash_words a xb =
     Sha256Hash [be_bytes 16 (nat (a mod 2 ^ 128)) @ be_bytes 32 (nat xb) @ replicate 16 0]"

definition hashG1 :: "g1 \<Rightarrow> hash" where
  "hashG1 p =
     (let a = fp_A (snd p); b = fp_B (snd p) in
      if a > half_A \<or> a = half_A \<and> b > half_B
      then hash_words (fp_A (fst p) OR 0xa0000000000000000000000000000000) (fp_B (fst p))
      else hash_words (fp_A (fst p) OR 0x80000000000000000000000000000000) (fp_B (fst p)))"

definition hashG1Compressed :: "'pk G1PointCompressed \<Rightarrow> hash" where
  "hashG1Compressed p =
     (let a = drop_bit 128 (g1c_A p); b = g1c_YB p in
      if a > half_A \<or> a = half_A \<and> b > half_B
      then hash_words (g1c_A p OR 0xa0000000000000000000000000000000) (g1c_XB p)
      else hash_words (g1c_A p OR 0x80000000000000000000000000000000) (g1c_XB p))"

subsection \<open>The missing keys\<close>

fun missing_loop ::
  "precompiles \<Rightarrow> hash list \<Rightarrow> 'pk G1PointCompressed list \<Rightarrow> nat list \<Rightarrow> u256 \<Rightarrow> nat \<Rightarrow>
   u256 list \<Rightarrow> hash list \<Rightarrow> g1 \<Rightarrow> (nat \<times> u256 list \<times> hash list \<times> g1) option"
where
  "missing_loop P ws pks [] word count indices lvs result = Some (count, indices, lvs, result)"
| "missing_loop P ws pks (i # is) word count indices lvs result =
     (let m = i mod 256;
          word = (if m = 255 then of_nat (be_nat (Bytes (ws ! (i div 256 - 2)))) else word) in
      if word AND push_bit m 1 = 0 then
        (if count < length pks then
           (case addG1 P result (pks ! count) of
              None \<Rightarrow> None
            | Some result \<Rightarrow> missing_loop P ws pks is word (count + 1) (indices[count := of_nat i])
                (lvs[count := hashG1Compressed (pks ! count)]) result)
         else None)
      else missing_loop P ws pks is word count indices lvs result)"

definition aggregateMissingPubkeys ::
  "precompiles \<Rightarrow> 'pk G1PointCompressed list \<Rightarrow> g1 \<Rightarrow> hash list \<Rightarrow> (u256 list \<times> hash list \<times> g1) option"
where
  "aggregateMissingPubkeys P pks aggregatedPK ws =
     (case missing_loop P ws pks (rev [512 ..< 1024]) 0 0 (replicate (length pks) 0)
             (replicate (length pks) zero_hash) aggregatedPK of
        None \<Rightarrow> None
      | Some (count, indices, lvs, result) \<Rightarrow>
          if count = length pks then Some (indices, lvs, result) else None)"

subsection \<open>The contract's state and step\<close>

record BestValidUpdate =
  bv_slot :: u64
  bv_signatures :: u64
  bv_timeout :: u64
  bv_root :: hash
  bv_stateRoot :: hash

record light_contract =
  GENESIS_VALIDATORS_ROOT :: hash
  GENESIS_TIME :: nat
  UPDATE_TIMEOUT :: nat
  lc_head :: u64
  lc_headers :: "u64 \<Rightarrow> hash \<times> hash"        \<comment> \<open>root and state root\<close>
  lc_best :: BestValidUpdate

definition syncCommitteePeriod :: "u64 \<Rightarrow> nat" where
  "syncCommitteePeriod slot = unat slot div 8192"

text \<open>\<^verbatim>\<open>(block.timestamp - GENESIS_TIME) / SECONDS_PER_SLOT\<close>, checked\<close>

definition curSlot_at :: "light_contract \<Rightarrow> nat \<Rightarrow> nat option" where
  "curSlot_at s now = (if now < GENESIS_TIME s then None else Some ((now - GENESIS_TIME s) div 3))"

definition setHead :: "u64 \<Rightarrow> hash \<times> hash \<Rightarrow> light_contract \<Rightarrow> light_contract" where
  "setHead slot h s = s\<lparr>lc_head := slot, lc_headers := (lc_headers s)(slot := h)\<rparr>"

text \<open>A new contract: zero storage but for the start header.\<close>

definition light_constructor :: "hash \<Rightarrow> nat \<Rightarrow> nat \<Rightarrow> BeaconBlockHeader \<Rightarrow> light_contract" where
  "light_constructor genesisValidatorsRoot genesisTime updateTimeout startHeader =
     setHead (hd_Slot startHeader) (headerRoot startHeader, hd_StateRoot startHeader)
       \<lparr>GENESIS_VALIDATORS_ROOT = genesisValidatorsRoot, GENESIS_TIME = genesisTime, UPDATE_TIMEOUT = updateTimeout, lc_head = 0,
        lc_headers = (\<lambda>_. (zero_hash, zero_hash)),
        lc_best = \<lparr>bv_slot = 0, bv_signatures = 0, bv_timeout = 0, bv_root = zero_hash, bv_stateRoot = zero_hash\<rparr>\<rparr>"

definition setCandidate :: "nat \<Rightarrow> u64 \<Rightarrow> hash \<times> hash \<Rightarrow> nat \<Rightarrow> light_contract \<Rightarrow> light_contract" where
  "setCandidate now slot h count s =
     s\<lparr>lc_best := \<lparr>bv_slot = slot, bv_signatures = of_nat count, bv_timeout = of_nat (now + UPDATE_TIMEOUT s),
                  bv_root = fst h, bv_stateRoot = snd h\<rparr>\<rparr>"

definition g1_of :: "'pk G1Point \<Rightarrow> g1" where
  "g1_of p = (g1_X p, g1_Y p)"

definition g2_of :: "'sig G2Point \<Rightarrow> Fp2 \<times> Fp2" where
  "g2_of p = (g2_X p, g2_Y p)"

text \<open>\<^verbatim>\<open>require\<close>\<close>

definition require :: "bool \<Rightarrow> 'a option \<Rightarrow> 'a option" where
  "require b m = (if b then m else None)"

definition active_header :: "('pk, 'sig) Update \<Rightarrow> BeaconBlockHeader" where
  "active_header u = (if up_FinalityBranch u \<noteq> [] then up_FinalizedHeader u else up_AttestedHeader u)"

definition committee_index :: "light_contract \<Rightarrow> ('pk, 'sig) Update \<Rightarrow> u256 option" where
  "committee_index s u =
     (if syncCommitteePeriod (up_SignatureSlot u) = syncCommitteePeriod (lc_head s)
      then Some CURRENT_SYNC_COMMITTEE_INDEX
      else if syncCommitteePeriod (up_SignatureSlot u) = syncCommitteePeriod (lc_head s) + 1
      then Some NEXT_SYNC_COMMITTEE_INDEX else None)"

definition committee_root :: "precompiles \<Rightarrow> u256 \<Rightarrow> ('pk, 'sig) Update \<Rightarrow> hash option" where
  "committee_root P gi u =
     (case aggregateMissingPubkeys P (up_MissedSyncCommitteeParticipants u)
             (g1_of (up_SyncAggregatePubkey u)) (up_SyncAggregateBitList u) of
        None \<Rightarrow> None
      | Some (indices, lvs, aggregatedPK) \<Rightarrow>
          (case restoreMerkleMultiRoot indices lvs (up_SyncCommitteeRootDecommitments u) of
             None \<Rightarrow> None
           | Some r \<Rightarrow> restoreMerkleRoot (hashPair r (hashG1 aggregatedPK)) gi (up_SyncCommitteeBranch u)))"

definition domainRoot :: "light_contract \<Rightarrow> ('pk, 'sig) Update \<Rightarrow> hash" where
  "domainRoot s u =
     Hash (be_bytes 32 (unat (contract_syncDomainRoot (up_ForkVersion u) (GENESIS_VALIDATORS_ROOT s))))"

definition step :: "precompiles \<Rightarrow> nat \<Rightarrow> light_contract \<Rightarrow> ('pk, 'sig) Update \<Rightarrow> light_contract option" where
  "step P now s u =
     (let hasFinalityProof = (up_FinalityBranch u \<noteq> []);
          active = active_header u;
          attestedRoot = headerRoot (up_AttestedHeader u);
          activeRoot = (if hasFinalityProof then headerRoot (up_FinalizedHeader u) else attestedRoot);
          count = 512 - length (up_MissedSyncCommitteeParticipants u) in
      require (hasFinalityProof \<or> hd_Slot (up_FinalizedHeader u) = 0)
      (require (hd_Slot active > lc_head s)
      (case curSlot_at s now of None \<Rightarrow> None | Some cur \<Rightarrow>
      require (unat (hd_Slot active) \<le> cur)
      (case committee_index s u of None \<Rightarrow> None | Some gi \<Rightarrow>
      require (hasFinalityProof \<longrightarrow> restoreMerkleRoot activeRoot FINALIZED_ROOT_INDEX (up_FinalityBranch u)
                 = Some (hd_StateRoot (up_AttestedHeader u)))
      (require (length (up_MissedSyncCommitteeParticipants u) \<le> 512 \<and> count \<ge> 10)
      (require (committee_root P gi u = Some (snd (lc_headers s (lc_head s))))
      (require (verifyBLSSignature P (hashPair attestedRoot (domainRoot s u)) (g1_of (up_SyncAggregatePubkey u))
                  (g2_of (up_SyncAggregateSignature u)))
      (if 3 * count \<ge> 2 * 512 \<and> hasFinalityProof
       then Some (setHead (hd_Slot active) (activeRoot, hd_StateRoot active) s)
       else
         require (\<not> bv_slot (lc_best s) > lc_head s \<or> count > unat (bv_signatures (lc_best s)))
         (Some (setCandidate now (hd_Slot active) (activeRoot, hd_StateRoot active) count s))))))))))"

definition applyCandidate :: "nat \<Rightarrow> light_contract \<Rightarrow> light_contract option" where
  "applyCandidate now s =
     (let b = lc_best s in
      require (bv_slot b > lc_head s)
      (require (bv_root b \<noteq> zero_hash)
      (case curSlot_at s now of None \<Rightarrow> None | Some cur \<Rightarrow>
      require (cur > unat (bv_slot b) + 8192)
      (require (unat (bv_timeout b) < now)
      (Some (setHead (bv_slot b) (bv_root b, bv_stateRoot b) s))))))"

end
