(* ===== verification/Contract_Keys.thy ===== *)
theory Contract_Keys
  imports Light_Contract Ssz_Spec
begin

section \<open>Keys as the contract reads them\<close>

text \<open>
  The oracle hands a public key to the contract as three integers. The contract unpacks them for the
  addition precompile and rebuilds from them the 48-byte encoding it hashes. Both agree with the oracle's
  own view of the key, given blst's serialisation: 48 + 48 big-endian bytes uncompressed, and compressed
  the first coordinate with the flag bits of the format on top.
\<close>

subsection \<open>The serialisation of BLS12-381\<close>

definition bls_half :: nat where
  "bls_half = 0x0d0088f51cbff34d258dd3db21a5d66bb23ba5c279c2895fb39869507b587b120f55ffff58a9ffffdcff7fffffffd555"

definition compress :: "byte list \<Rightarrow> byte list" where
  "compress b =
     be_bytes 48 (be_nat (take 48 b) + 2 ^ 383 + (if be_nat (drop 48 b) > bls_half then 2 ^ 381 else 0))"

text \<open>A key that is not the point at infinity: its uncompressed form, and its encoding.\<close>

definition affine_key :: "('pk, 'sig) bls \<Rightarrow> 'pk \<Rightarrow> byte list \<Rightarrow> bool" where
  "affine_key B pk b \<longleftrightarrow>
     P1Serialize B (PkMarshal B pk) = Inr b \<and> length b = 96 \<and> be_nat (take 48 b) < 2 ^ 381
     \<and> PkMarshal B pk = compress b"

lemma bls_half_parts: "int bls_half = half_A * 2 ^ 256 + half_B"
  by (simp add: bls_half_def half_A_def half_B_def)

lemma half_B_range: "0 \<le> half_B" "half_B < 2 ^ 256"
  by (simp_all add: half_B_def)

lemma split_less_iff:
  fixes a b c d :: int
  assumes "0 \<le> b" "b < 2 ^ 256" "0 \<le> d" "d < 2 ^ 256"
  shows "a * 2 ^ 256 + b < c * 2 ^ 256 + d \<longleftrightarrow> a < c \<or> a = c \<and> b < d"
  using assms by auto

lemma or_flags:
  fixes A xa k :: int
  assumes "take_bit 128 A = xa" and "0 \<le> xa" and "xa < 2 ^ 125" and "0 \<le> k" and "k < 8"
  shows "(A OR push_bit 125 k) mod 2 ^ 128 = xa + k * 2 ^ 125"
proof -
  have f: "0 \<le> push_bit 125 k" "push_bit 125 k < (2 :: int) ^ 128"
    using assms(4,5) by (simp_all add: push_bit_eq_mult)
  have "take_bit 125 xa = xa" using assms(2,3) by (simp add: take_bit_int_eq_self)
  then have "xa AND push_bit 125 k = 0"
    by (metis (no_types, lifting) bit_eqI bit_0_eq bit_and_iff bit_push_bit_iff_int bit_take_bit_iff bot_apply
        bot_bool_def linorder_not_less)
  then have "xa OR push_bit 125 k = xa + push_bit 125 k" by (simp add: disjunctive_add_eq_or)
  moreover have "(A OR push_bit 125 k) mod 2 ^ 128 = take_bit 128 (A OR push_bit 125 k)"
    by (simp only: take_bit_eq_mod)
  moreover have "take_bit 128 (A OR push_bit 125 k) = xa OR push_bit 125 k"
    using f assms(1) by (simp add: take_bit_or take_bit_int_eq_self)
  ultimately show ?thesis by (simp add: push_bit_eq_mult)
qed

lemma hash_words_coordinate:
  fixes A k :: int
  assumes "take_bit 128 A = fp_A (fp_of l)" and "length l = 48" and "be_nat l < 2 ^ 381" and "0 \<le> k" and "k < 8"
  shows "hash_words (A OR push_bit 125 k) (fp_B (fp_of l))
    = Sha256Hash [be_bytes 48 (be_nat l + nat k * 2 ^ 381) @ replicate 16 0]"
proof -
  note v = fp_of_value [OF assms(2)]
  have "fp_A (fp_of l) * 2 ^ 256 < 2 ^ 381"
    using v(1,5) assms(3) by (simp add: SetBytes_def)
  then have small: "fp_A (fp_of l) < 2 ^ 125" by simp
  obtain a b where ab: "fp_A (fp_of l) = int a" "fp_B (fp_of l) = int b"
    using v(4,5) nonneg_int_cases by metis
  obtain j where j: "k = int j" using assms(4) nonneg_int_cases by metis
  have l: "a * 2 ^ 256 + b = be_nat l" using v(1) unfolding ab SetBytes_def by (simp flip: of_nat_eq_iff [where 'a = int])
  have lt: "a + j * 2 ^ 125 < 256 ^ 16" "b < 256 ^ 32"
    using small v(3) assms(5) unfolding ab j by simp_all
  have "(A OR push_bit 125 k) mod 2 ^ 128 = int (a + j * 2 ^ 125)"
    using or_flags [OF assms(1) v(4) small assms(4,5)] by (simp add: ab j)
  then have "hash_words (A OR push_bit 125 k) (fp_B (fp_of l))
      = Sha256Hash [(be_bytes 16 (a + j * 2 ^ 125) @ be_bytes 32 b) @ replicate 16 0]"
    unfolding hash_words_def ab by (simp only: nat_int append_assoc)
  also have "be_bytes 16 (a + j * 2 ^ 125) @ be_bytes 32 b = be_bytes 48 (be_nat l + nat k * 2 ^ 381)"
  proof (rule be_nat_inject)
    have "be_nat (be_bytes 16 (a + j * 2 ^ 125) @ be_bytes 32 b) = (a + j * 2 ^ 125) * 256 ^ 32 + b"
      using lt by (simp only: be_nat_append be_nat_be_bytes length_be_bytes mod_less)
    also have "\<dots> = be_nat l + nat k * 2 ^ 381" by (simp add: l [symmetric] j algebra_simps)
    finally have eq: "be_nat (be_bytes 16 (a + j * 2 ^ 125) @ be_bytes 32 b) = be_nat l + nat k * 2 ^ 381" .
    have "be_nat (be_bytes 16 (a + j * 2 ^ 125) @ be_bytes 32 b) < 256 ^ 48"
      using be_nat_less [of "be_bytes 16 (a + j * 2 ^ 125) @ be_bytes 32 b"] by simp
    then show "be_nat (be_bytes 16 (a + j * 2 ^ 125) @ be_bytes 32 b) = be_nat (be_bytes 48 (be_nat l + nat k * 2 ^ 381))"
      unfolding eq be_nat_be_bytes by (rule mod_less [symmetric])
  qed simp
  finally show ?thesis .
qed

text \<open>The two branches of the contract's hash, for a coordinate pair read off 96 bytes.\<close>

lemma hash_branches:
  assumes "length b = 96" and "be_nat (take 48 b) < 2 ^ 381" and "take_bit 128 A = fp_A (fp_of (take 48 b))"
  defines "y \<equiv> fp_of (drop 48 b)"
  shows "(if fp_A y > half_A \<or> fp_A y = half_A \<and> fp_B y > half_B
      then hash_words (A OR 0xa0000000000000000000000000000000) (fp_B (fp_of (take 48 b)))
      else hash_words (A OR 0x80000000000000000000000000000000) (fp_B (fp_of (take 48 b))))
    = Sha256Hash [compress b @ replicate 16 0]"
proof -
  have len: "length (drop 48 b) = 48" "length (take 48 b) = 48" using assms(1) by simp_all
  note v = fp_of_value [OF len(1)]
  have "half_A < fp_A y \<or> half_A = fp_A y \<and> half_B < fp_B y \<longleftrightarrow> int bls_half < SetBytes (drop 48 b)"
    unfolding bls_half_parts v(1) [symmetric] y_def
    using split_less_iff [OF half_B_range v(5,3)] by simp
  also have "\<dots> \<longleftrightarrow> be_nat (drop 48 b) > bls_half" by (simp add: SetBytes_def)
  finally have cmp: "half_A < fp_A y \<or> fp_A y = half_A \<and> half_B < fp_B y \<longleftrightarrow> be_nat (drop 48 b) > bls_half"
    by auto
  have flags: "0xa0000000000000000000000000000000 = push_bit 125 (5 :: int)"
    "0x80000000000000000000000000000000 = push_bit 125 (4 :: int)" by (simp_all add: push_bit_eq_mult)
  have sums: "be_nat (take 48 b) + nat 5 * 2 ^ 381 = be_nat (take 48 b) + 2 ^ 383 + 2 ^ 381"
    "be_nat (take 48 b) + nat 4 * 2 ^ 381 = be_nat (take 48 b) + 2 ^ 383 + 0" by simp_all
  have "hash_words (A OR push_bit 125 5) (fp_B (fp_of (take 48 b)))
      = Sha256Hash [be_bytes 48 (be_nat (take 48 b) + 2 ^ 383 + 2 ^ 381) @ replicate 16 0]"
    using hash_words_coordinate [OF assms(3) len(2) assms(2), of 5] unfolding sums by simp
  moreover have "hash_words (A OR push_bit 125 4) (fp_B (fp_of (take 48 b)))
      = Sha256Hash [be_bytes 48 (be_nat (take 48 b) + 2 ^ 383 + 0) @ replicate 16 0]"
    using hash_words_coordinate [OF assms(3) len(2) assms(2), of 4] unfolding sums by simp
  ultimately show ?thesis
    unfolding cmp flags compress_def by (simp only: if_distrib if_cancel split: if_splits) simp
qed

subsection \<open>Packing and unpacking\<close>

lemma packed_A:
  fixes x y :: int
  assumes "0 \<le> x" and "x < 2 ^ 128"
  shows "take_bit 128 (y * 2 ^ 128 + x) = x" and "drop_bit 128 (y * 2 ^ 128 + x) = y"
proof -
  have "(y * 2 ^ 128 + x) mod 2 ^ 128 = x mod 2 ^ 128" and "(y * 2 ^ 128 + x) div 2 ^ 128 = y + x div 2 ^ 128"
    by (simp_all only: mod_mult_self3 div_mult_self3 power_not_zero zero_neq_numeral [symmetric] not_False_eq_True)
  moreover have "x mod 2 ^ 128 = x" and "x div 2 ^ 128 = 0" using assms by simp_all
  ultimately show "take_bit 128 (y * 2 ^ 128 + x) = x" and "drop_bit 128 (y * 2 ^ 128 + x) = y"
    by (simp_all only: take_bit_eq_mod drop_bit_eq_div)
qed

lemma and_mask_128: "(A :: int) AND (2 ^ 128 - 1) = take_bit 128 A"
  by (simp only: take_bit_eq_mask mask_eq_exp_minus_1)

lemma PkToG1Compressed_parts:
  assumes "P1Serialize B (PkMarshal B pk) = Inr b" and "length b = 96" and "PkToG1Compressed B pk = Inr c"
  shows "g1c_raw c = pk" "take_bit 128 (g1c_A c) = fp_A (fp_of (take 48 b))"
    "drop_bit 128 (g1c_A c) = fp_A (fp_of (drop 48 b))"
    "g1c_XB c = fp_B (fp_of (take 48 b))" "g1c_YB c = fp_B (fp_of (drop 48 b))"
proof -
  have "length (take 48 b) = 48" using assms(2) by simp
  note v = fp_of_value [OF this]
  have c: "c = \<lparr>g1c_raw = pk, g1c_A = fp_A (fp_of (drop 48 b)) * 2 ^ 128 + fp_A (fp_of (take 48 b)),
     g1c_XB = fp_B (fp_of (take 48 b)), g1c_YB = fp_B (fp_of (drop 48 b))\<rparr>"
    using PkToG1Compressed_Inr [OF assms(1,2)] assms(3) by simp
  show "g1c_raw c = pk" "take_bit 128 (g1c_A c) = fp_A (fp_of (take 48 b))"
    "drop_bit 128 (g1c_A c) = fp_A (fp_of (drop 48 b))"
    "g1c_XB c = fp_B (fp_of (take 48 b))" "g1c_YB c = fp_B (fp_of (drop 48 b))"
    using packed_A [OF v(4,2)] by (simp_all only: c G1PointCompressed.simps)
qed

text \<open>C38. What \<^verbatim>\<open>PkToG1Compressed\<close> packs into three integers, the contract's \<^verbatim>\<open>addG1\<close> unpacks into
  exactly the coordinates of \<^verbatim>\<open>PkToG1\<close>; each integer is below \<open>2 ^ 256\<close>, so it fits a contract
  word, and the two coordinates are the two 48-byte halves of blst's serialisation.\<close>

theorem PkToG1Compressed_roundtrip:
  assumes "P1Serialize B (PkMarshal B pk) = Inr b" and "length b = 96"
  shows "\<exists>c g. PkToG1Compressed B pk = Inr c \<and> PkToG1 B pk = Inr g
    \<and> addG1 P a c = G1ADD P a (g1_of g)
    \<and> fp_A (g1_X g) * 2 ^ 256 + fp_B (g1_X g) = SetBytes (take 48 b)
    \<and> fp_A (g1_Y g) * 2 ^ 256 + fp_B (g1_Y g) = SetBytes (drop 48 b)
    \<and> (\<forall>v \<in> {g1c_A c, g1c_XB c, g1c_YB c}. 0 \<le> v \<and> v < 2 ^ 256)"
proof -
  obtain c where c: "PkToG1Compressed B pk = Inr c" using PkToG1Compressed_Inr [OF assms] by simp
  note parts = PkToG1Compressed_parts [OF assms c]
  have len: "length (take 48 b) = 48" "length (drop 48 b) = 48" using assms(2) by simp_all
  note x = fp_of_value [OF len(1)] and y = fp_of_value [OF len(2)]
  have "g1c_A c = fp_A (fp_of (drop 48 b)) * 2 ^ 128 + fp_A (fp_of (take 48 b))"
    using PkToG1Compressed_Inr [OF assms] c by simp
  then have A: "0 \<le> g1c_A c" "g1c_A c < 2 ^ 256" using x y by simp_all
  have "addG1 P a c = G1ADD P a (fp_of (take 48 b), fp_of (drop 48 b))"
    unfolding addG1_def and_mask_128 parts by (simp add: fp_of_def)
  then show ?thesis
    using c PkToG1_Inr [OF assms] A x y parts(4,5) by (simp add: g1_of_def)
qed

definition g1_at :: "byte list \<Rightarrow> g1" where
  "g1_at b = (fp_of (take 48 b), fp_of (drop 48 b))"

lemma affine_keyD:
  assumes "affine_key B k b"
  shows "P1Serialize B (PkMarshal B k) = Inr b" "length b = 96" "be_nat (take 48 b) < 2 ^ 381"
    "PkMarshal B k = compress b" "length (PkMarshal B k) = 48"
    "ssz_bytes (PkMarshal B k) = Sha256Hash [compress b @ replicate 16 0]"
proof -
  show k: "P1Serialize B (PkMarshal B k) = Inr b" "length b = 96" "be_nat (take 48 b) < 2 ^ 381"
    "PkMarshal B k = compress b" using assms unfolding affine_key_def by blast+
  then show len: "length (PkMarshal B k) = 48" by (simp add: compress_def)
  show "ssz_bytes (PkMarshal B k) = Sha256Hash [compress b @ replicate 16 0]"
    using ssz_bytes_48 [OF len] by (simp only: k(4))
qed

lemma PkToG1_g1_at:
  assumes "affine_key B k b" and "PkToG1 B k = Inr g"
  shows "g1_of g = g1_at b"
  using PkToG1_Inr [OF affine_keyD(1,2) [OF assms(1)]] assms(2) by (simp add: g1_of_def g1_at_def)

lemma hashG1_at: "affine_key B k b \<Longrightarrow> hashG1 (g1_at b) = ssz_bytes (PkMarshal B k)"
proof -
  assume k: "affine_key B k b"
  obtain c where c: "PkToG1Compressed B k = Inr c" using PkToG1Compressed_Inr [OF affine_keyD(1,2) [OF k]] by simp
  have "take_bit 128 (fp_A (fp_of (take 48 b))) = fp_A (fp_of (take 48 b))"
    unfolding PkToG1Compressed_parts(2) [OF affine_keyD(1,2) [OF k] c, symmetric] by simp
  then show ?thesis
    using hash_branches [OF affine_keyD(2,3) [OF k]]
    by (simp only: g1_at_def hashG1_def Let_def fst_conv snd_conv affine_keyD(6) [OF k])
qed

lemma hashG1Compressed_ssz:
  assumes "affine_key B k b" and "PkToG1Compressed B k = Inr c"
  shows "hashG1Compressed c = ssz_bytes (PkMarshal B k)"
proof -
  note parts = PkToG1Compressed_parts [OF affine_keyD(1,2) [OF assms(1)] assms(2)]
  show ?thesis
    using hash_branches [OF affine_keyD(2,3) [OF assms(1)] parts(2)]
    by (simp only: hashG1Compressed_def Let_def parts affine_keyD(6) [OF assms(1)])
qed

lemma HashG1PointCompressed_ssz:
  assumes "PadTo_doc L" and "affine_key B (g1c_raw c) b"
  shows "HashG1PointCompressed L B c = ssz_bytes (PkMarshal B (g1c_raw c))"
  using assms(1) affine_keyD(5) [OF assms(2)] ssz_bytes_48
  by (simp add: HashG1PointCompressed_def PadTo_doc_def)

text \<open>For every key of the curve, the hash the contract rebuilds from the three integers of the
  compressed form (\<^verbatim>\<open>\_hashG1Compressed\<close>), the hash it computes from the two coordinates
  (\<^verbatim>\<open>\_hashG1\<close>), the oracle's \<^verbatim>\<open>HashG1PointCompressed\<close> and the SSZ root of the 48-byte key are the same.\<close>

lemma hashG1Compressed_eq:
  assumes "PadTo_doc L" and "affine_key B pk b"
  shows "\<exists>c g. PkToG1Compressed B pk = Inr c \<and> PkToG1 B pk = Inr g
    \<and> hashG1Compressed c = HashG1PointCompressed L B c
    \<and> hashG1 (g1_of g) = HashG1PointCompressed L B c
    \<and> HashG1PointCompressed L B c = ssz_bytes (PkMarshal B pk)"
proof -
  note b = affine_keyD(1,2) [OF assms(2)]
  obtain c where c: "PkToG1Compressed B pk = Inr c" and "g1c_raw c = pk"
    using PkToG1Compressed_Inr [OF b] by simp
  then have "HashG1PointCompressed L B c = ssz_bytes (PkMarshal B pk)"
    using HashG1PointCompressed_ssz [OF assms(1), of B c b] assms(2) by simp
  moreover obtain g where g: "PkToG1 B pk = Inr g" using PkToG1_Inr [OF b] by simp
  ultimately show ?thesis
    using c hashG1Compressed_ssz [OF assms(2) c] hashG1_at [OF assms(2)] PkToG1_g1_at [OF assms(2) g] by simp
qed

subsection \<open>A one-key curve, to instantiate the theorems with\<close>

definition base_point :: "byte list" where
  "base_point = replicate 96 1"

definition unit_bls :: "(unit, byte list) bls" where
  "unit_bls =
     \<lparr>PublicKeyFromBytes = (\<lambda>b. if b = compress base_point then Inr () else Inl (Err (Msg ''invalid key''))),
      PkMarshal = (\<lambda>_. compress base_point), PkAggregate = (\<lambda>_ _. ()),
      SignatureFromBytes = Inr, SigMarshal = (\<lambda>b. b), SigVerify = (\<lambda>_ _ _. True),
      P1Serialize = (\<lambda>_. Inr base_point), P2Serialize = (\<lambda>_. Inr (replicate 192 1))\<rparr>"

lemma unit_affine: "affine_key unit_bls k base_point"
proof -
  have "take 48 base_point = [1] @ replicate 47 1"
    by (simp add: base_point_def replicate_append_same flip: replicate_Suc)
  then have "be_nat (take 48 base_point) = 256 ^ 47 + be_nat (replicate 47 1)"
    by (simp only: be_nat_append length_replicate) (simp add: be_nat_def)
  also have "\<dots> < 2 ^ 381" using be_nat_less [of "replicate 47 1"] by simp
  finally show ?thesis by (simp add: affine_key_def unit_bls_def base_point_def)
qed

theorem PkToG1Compressed_roundtrip_witness:
  "\<forall>P a. \<exists>c g. PkToG1Compressed unit_bls () = Inr c \<and> PkToG1 unit_bls () = Inr g
    \<and> addG1 P a c = G1ADD P a (g1_of g) \<and> g1c_A c < 2 ^ 256"
proof (intro allI)
  fix P a
  show "\<exists>c g. PkToG1Compressed unit_bls () = Inr c \<and> PkToG1 unit_bls () = Inr g
    \<and> addG1 P a c = G1ADD P a (g1_of g) \<and> g1c_A c < 2 ^ 256"
    using PkToG1Compressed_roundtrip [OF affine_keyD(1,2) [OF unit_affine [of "()"]], of P a] by blast
qed

lemma hashG1Compressed_eq_witness:
  "\<exists>c g. PkToG1Compressed unit_bls () = Inr c \<and> PkToG1 unit_bls () = Inr g
    \<and> hashG1Compressed c = HashG1PointCompressed doc_lib unit_bls c
    \<and> hashG1 (g1_of g) = HashG1PointCompressed doc_lib unit_bls c"
  using hashG1Compressed_eq [OF doc_lib_doc(2) unit_affine] by blast

end
