(* ===== verification/Header_Root.thy ===== *)
theory Header_Root
  imports Light_Contract Sha256_Vectors Ssz_Spec
begin

section \<open>The header root that the contract computes\<close>

text \<open>
  The contract hashes a header with its own little-endian encoding and with a constant for the two empty leaves;
  the result is the SSZ hash tree root of the header, which names the block on the beacon chain. And a root has one
  header, or exhibits a collision of SHA-256.
\<close>

subsection \<open>LittleEndian.encode\<close>

lemma encode_step:
  assumes "unat (res :: u256) < 256 ^ k" and "k < 32"
  shows "unat (push_bit 8 res OR (x AND 0xff)) = 256 * unat res + unat x mod 256"
proof -
  have "(256 :: nat) ^ k \<le> 256 ^ 31" using assms(2) by (intro power_increasing) simp_all
  then have res: "256 * unat res + unat x mod 256 < 2 ^ 256" using assms(1) by simp
  have "x AND 0xff = take_bit 8 x" by (simp add: take_bit_eq_mask mask_eq_exp_minus_1)
  moreover have "push_bit 8 res OR take_bit 8 x = push_bit 8 res + take_bit 8 x"
    by (rule disjunctive_add [symmetric]) (simp add: bit_push_bit_iff bit_take_bit_iff)
  moreover have "push_bit 8 res = of_nat (256 * unat res)" by (simp add: push_bit_eq_mult mult.commute)
  moreover have "take_bit 8 x = of_nat (unat x mod 256)"
    by (simp add: word_unat_eq_iff take_bit_eq_mod unat_of_nat unat_mod)
  ultimately have "push_bit 8 res OR (x AND 0xff) = of_nat (256 * unat res + unat x mod 256)" by simp
  then show ?thesis using res by (simp only: unat_of_nat) simp
qed

lemma encode_loop_value:
  "n + k = 32 \<Longrightarrow> unat res < 256 ^ k \<Longrightarrow>
   unat (encode_loop n x res) = 256 ^ n * unat res + le_nat (be_bytes n (unat x))"
proof (induction n arbitrary: k x res)
  case (Suc n)
  let ?res = "push_bit 8 res OR (x AND 0xff)"
  have res: "unat ?res = 256 * unat res + unat x mod 256" using encode_step [OF Suc.prems(2)] Suc.prems(1) by simp
  have "unat ?res < 256 ^ Suc k"
  proof -
    have "unat res + 1 \<le> 256 ^ k" using Suc.prems(2) by simp
    then have "256 * (unat res + 1) \<le> 256 * 256 ^ k" by (rule mult_le_mono2)
    then show ?thesis unfolding res using mod_less_divisor [of 256 "unat x"] by simp
  qed
  then have "unat (encode_loop n (drop_bit 8 x) ?res) = 256 ^ n * unat ?res + le_nat (be_bytes n (unat (drop_bit 8 x)))"
    using Suc.prems(1) by (intro Suc.IH [of "Suc k"]) simp_all
  moreover have "unat (drop_bit 8 x) = unat x div 256" by (simp add: drop_bit_eq_div unat_div)
  moreover have "unat (of_nat (unat x mod 256) :: byte) = unat x mod 256" by (simp add: unat_of_nat)
  ultimately show ?case by (simp add: res le_nat_append algebra_simps del: push_bit_numeral)
qed simp

lemma Bytes_LittleEndian_encode: "Bytes (LittleEndian_encode x) = rev (be_bytes 32 (unat x))"
proof -
  have "unat (encode_loop 32 x 0) = be_nat (rev (be_bytes 32 (unat x)))"
    using encode_loop_value [of 32 0 0 x] by (simp add: be_nat_rev)
  then show ?thesis by (simp add: LittleEndian_encode_def)
qed

lemma LittleEndian_encode_uint64: "LittleEndian_encode (ucast v) = UintToHash v"
proof -
  have "unat (ucast v :: u256) = unat v" by (rule ucast_u256)
  then have "le_nat (Bytes (LittleEndian_encode (ucast v))) = unat v mod 256 ^ 32"
    by (simp add: Bytes_LittleEndian_encode be_nat_be_bytes flip: be_nat_rev)
  also have "\<dots> = unat v"
    by (rule mod_less) (rule less_trans [OF unsigned_less], simp)
  finally show ?thesis using le_nat_inject [of "Bytes (LittleEndian_encode (ucast v))" "Bytes (UintToHash v)"]
    by (simp add: le_nat_UintToHash Bytes_eq_iff)
qed

subsection \<open>The header\<close>

definition header_leaves :: "BeaconBlockHeader \<Rightarrow> hash list" where
  "header_leaves h = [UintToHash (hd_Slot h), UintToHash (hd_ProposerIndex h), hd_ParentRoot h, hd_StateRoot h, hd_BodyRoot h]"

definition ssz_header_root :: "BeaconBlockHeader \<Rightarrow> hash" where
  "ssz_header_root h = mroot 3 (header_leaves h)"

lemma zero_pair_hash: "zero_pair = node_hash zero_hash zero_hash"
proof -
  have "Bytes zero_hash @ Bytes zero_hash = replicate 64 0" by (simp add: zero_hash_def replicate_add [symmetric])
  then have "Bytes (node_hash zero_hash zero_hash) = sha256 (replicate 64 0)"
    by (simp add: node_hash_def Bytes_Sha256Hash)
  then show ?thesis by (simp add: Bytes_eq_iff [symmetric] zero_pair_def sha256_zeros)
qed

lemma headerRoot_mroot: "headerRoot h = ssz_header_root h"
  by (simp add: headerRoot_def ssz_header_root_def header_leaves_def LittleEndian_encode_uint64 zero_pair_hash numeral_3_eq_3)

text \<open>C16. The root that the contract computes of a header (\<^verbatim>\<open>\_headerRoot\<close>, with \<^verbatim>\<open>LittleEndian.encode\<close> and a
  constant in place of a hash) is the SSZ hash tree root of the header, the root that the beacon chain knows the block by; and
  two headers with the same root are the same, or their hashing exhibits a collision of SHA-256.\<close>

theorem headerRoot_ssz:
  "headerRoot h = ssz_header_root h
    \<and> (headerRoot h = headerRoot h' \<longrightarrow> h = h'
       \<or> (\<exists>c \<in> set (zip (mroot_inputs 3 (header_leaves h)) (mroot_inputs 3 (header_leaves h'))). sha_collision c))"
proof (intro conjI impI)
  show "headerRoot h = ssz_header_root h" by (rule headerRoot_mroot)
  assume "headerRoot h = headerRoot h'"
  then have "mroot 3 (header_leaves h) = mroot 3 (header_leaves h')" by (simp only: headerRoot_mroot ssz_header_root_def)
  moreover have "header_leaves h = header_leaves h' \<Longrightarrow> h = h'" by (simp add: header_leaves_def)
  moreover have "length (header_leaves h) = length (header_leaves h')" "length (header_leaves h) \<le> 2 ^ 3"
    by (simp_all add: header_leaves_def)
  ultimately show "h = h' \<or> (\<exists>c \<in> set (zip (mroot_inputs 3 (header_leaves h)) (mroot_inputs 3 (header_leaves h'))). sha_collision c)"
    using mroot_binding by blast
qed

theorem headerRoot_ssz_witness:
  "headerRoot empty_header = mroot 3 [UintToHash 0, UintToHash 0, zero_hash, zero_hash, zero_hash]"
  using headerRoot_ssz [of empty_header empty_header, THEN conjunct1]
  by (simp add: ssz_header_root_def header_leaves_def empty_header_def del: mroot.simps)

end
