(* ===== verification/Step_Proofs.thy ===== *)
theory Step_Proofs
  imports Update_Proofs Contract_Keys Header_Root "HOL-Library.Multiset"
begin

section \<open>The contract accepts what MakeUpdate returns\<close>

text \<open>
  The contract repeats, from the fields of the update alone, what the oracle did with the beacon node's
  data: it walks over the participation bits from member 511 down to 0, takes one missing key per zero bit,
  adds them to the aggregate, restores the committee root from the multiproof, and climbs to the state root
  of its head. The lemmas follow the contract's loop; the last section composes them with \<^verbatim>\<open>MakeUpdate\<close>.
\<close>

subsection \<open>Sums of keys\<close>

text \<open>Addition of points, as the curve's documentation has it.\<close>

definition commutative_sum :: "('pk, 'sig) bls \<Rightarrow> bool" where
  "commutative_sum B \<longleftrightarrow>
     (\<forall>x y. PkAggregate B x y = PkAggregate B y x) \<and>
     (\<forall>x y z. PkAggregate B (PkAggregate B x y) z = PkAggregate B x (PkAggregate B y z))"

lemma sum_keys_Some: "sum_keys B (Some a) ks = Some (foldl (PkAggregate B) a ks)"
  by (induction ks arbitrary: a) auto

lemma sum_keys_None: "sum_keys B None ks = (case ks of [] \<Rightarrow> None | k # ks \<Rightarrow> Some (foldl (PkAggregate B) k ks))"
  by (cases ks) (auto simp: sum_keys_Some)

lemma foldl_aggregate_start:
  assumes "commutative_sum B"
  shows "foldl (PkAggregate B) (PkAggregate B a b) ks = PkAggregate B a (foldl (PkAggregate B) b ks)"
proof (induction ks arbitrary: b)
  case (Cons k ks)
  have "PkAggregate B (PkAggregate B a b) k = PkAggregate B a (PkAggregate B b k)"
    using assms unfolding commutative_sum_def by blast
  then show ?case using Cons.IH [of "PkAggregate B b k"] by simp
qed simp

lemma sum_keys_move:
  assumes "commutative_sum B"
  shows "sum_keys B None (xs @ k # ys) = sum_keys B None (k # xs @ ys)"
proof (cases xs)
  case (Cons x zs)
  have "foldl (PkAggregate B) x (zs @ k # ys) = foldl (PkAggregate B) (PkAggregate B (foldl (PkAggregate B) x zs) k) ys"
    by simp
  also have "PkAggregate B (foldl (PkAggregate B) x zs) k = foldl (PkAggregate B) (PkAggregate B k x) zs"
    unfolding foldl_aggregate_start [OF assms] using assms by (simp add: commutative_sum_def)
  finally show ?thesis unfolding Cons by (simp add: sum_keys_Some)
qed simp

text \<open>The order of the summands does not matter.\<close>

lemma sum_keys_mset:
  assumes "commutative_sum B" and "mset xs = mset ys"
  shows "sum_keys B None xs = sum_keys B None ys"
  using assms(2)
proof (induction xs arbitrary: ys)
  case (Cons x xs)
  then obtain as bs where ys: "ys = as @ x # bs" by (metis in_set_conv_decomp list.set_intros(1) set_mset_mset)
  with Cons.prems have eq: "mset xs = mset (as @ bs)" by simp
  have "sum_keys B None (x # zs) = (case sum_keys B None zs of None \<Rightarrow> Some x | Some s \<Rightarrow> Some (PkAggregate B x s))" for zs
    by (cases zs) (simp_all add: sum_keys_Some foldl_aggregate_start [OF assms(1)])
  then have "sum_keys B None (x # xs) = sum_keys B None (x # as @ bs)"
    using Cons.IH [OF eq] by simp
  then show ?case unfolding ys sum_keys_move [OF assms(1)] .
qed simp

text \<open>EIP-2537: the precompile adds what blst serialises, away from the point at infinity. And a signature that prysm verifies passes
  the pairing check with the hash to the curve of RFC 9380, which is what its documentation says it verifies.\<close>

definition precompile_doc :: "('pk, 'sig) bls \<Rightarrow> precompiles \<Rightarrow> bool" where
  "precompile_doc B P \<longleftrightarrow>
     (\<forall>x y a b s. affine_key B x a \<and> affine_key B y b \<and> affine_key B (PkAggregate B x y) s \<longrightarrow>
        G1ADD P (g1_at a) (g1_at b) = Some (g1_at s)) \<and>
     (\<forall>h x a sig g. affine_key B x a \<and> SigToG2 B sig = Inr g \<and> SigVerify B sig x (Bytes h) \<longrightarrow>
        signature_check P h (g1_at a) (g2_of g)) \<and>
     modexp_doc P"

fun add_all :: "precompiles \<Rightarrow> g1 \<Rightarrow> 'pk G1PointCompressed list \<Rightarrow> g1 option" where
  "add_all P r [] = Some r"
| "add_all P r (p # ps) = (case addG1 P r p of None \<Rightarrow> None | Some r' \<Rightarrow> add_all P r' ps)"

text \<open>No partial sum is the point at infinity.\<close>

definition affine_sums :: "('pk, 'sig) bls \<Rightarrow> 'pk \<Rightarrow> 'pk list \<Rightarrow> bool" where
  "affine_sums B k ks \<longleftrightarrow> (\<forall>i \<le> length ks. \<exists>b. affine_key B (foldl (PkAggregate B) k (take i ks)) b)"

definition compressed_of :: "('pk, 'sig) bls \<Rightarrow> 'pk G1PointCompressed \<Rightarrow> bool" where
  "compressed_of B p \<longleftrightarrow> PkToG1Compressed B (g1c_raw p) = Inr p \<and> (\<exists>b. affine_key B (g1c_raw p) b)"

lemma addG1_g1_at:
  assumes "compressed_of B p" and "affine_key B (g1c_raw p) b"
  shows "addG1 P a p = G1ADD P a (g1_at b)"
proof -
  have "PkToG1Compressed B (g1c_raw p) = Inr p" using assms(1) by (simp add: compressed_of_def)
  note parts = PkToG1Compressed_parts [OF affine_keyD(1,2) [OF assms(2)] this]
  show ?thesis unfolding addG1_def and_mask_128 parts by (simp add: g1_at_def fp_of_def)
qed

lemma add_all_sum:
  assumes "precompile_doc B P" and "list_all (compressed_of B) ps"
    and "affine_sums B k (map g1c_raw ps)" and "affine_key B k b"
  shows "\<exists>s. affine_key B (foldl (PkAggregate B) k (map g1c_raw ps)) s \<and> add_all P (g1_at b) ps = Some (g1_at s)"
  using assms(2-)
proof (induction ps arbitrary: k b)
  case (Cons p ps)
  then obtain c where c: "affine_key B (g1c_raw p) c" and p: "compressed_of B p" by (auto simp: compressed_of_def)
  let ?k = "PkAggregate B k (g1c_raw p)"
  have sums: "affine_sums B ?k (map g1c_raw ps)"
    using Cons.prems(2) unfolding affine_sums_def by (metis Suc_le_mono foldl_Cons length_Cons list.map(2) take_Suc_Cons)
  then obtain s where s: "affine_key B ?k s" unfolding affine_sums_def by (metis foldl_Nil le0 take0)
  have "addG1 P (g1_at b) p = Some (g1_at s)"
    using assms(1) Cons.prems(3) c s addG1_g1_at [OF p c] unfolding precompile_doc_def by metis
  then show ?case using Cons.IH [OF _ sums s] Cons.prems(1) by simp
qed auto

subsection \<open>The contract's loop over the participation bits\<close>

text \<open>The array \<open>xs\<close> with \<open>ys\<close> written from position \<open>k\<close>.\<close>

definition overwrite :: "'a list \<Rightarrow> nat \<Rightarrow> 'a list \<Rightarrow> 'a list" where
  "overwrite xs k ys = take k xs @ ys @ drop (k + length ys) xs"

lemma overwrite_Nil [simp]: "overwrite xs k [] = xs"
  by (simp add: overwrite_def)

lemma overwrite_step: "k < length xs \<Longrightarrow> overwrite (xs[k := y]) (k + 1) ys = overwrite xs k (y # ys)"
  by (simp add: overwrite_def take_Suc_conv_app_nth)

lemma overwrite_all: "length ys = length xs \<Longrightarrow> overwrite xs 0 ys = ys"
  by (simp add: overwrite_def)

lemma contract_bit: "word AND push_bit m 1 = 0 \<longleftrightarrow> \<not> bit word m" for word :: u256
  by (simp add: push_bit_of_1 and_exp_eq_0_iff_not_bit)

definition bits_held :: "hash list \<Rightarrow> (nat \<Rightarrow> bool) \<Rightarrow> bool" where
  "bits_held ws sg \<longleftrightarrow> (\<forall>w < 2. \<forall>m < 256. bit (word_at ws w) m \<longleftrightarrow> sg (256 * w + m))"

lemma missing_loop_run:
  assumes "bits_held ws sg"
  shows "n \<le> 512 \<Longrightarrow> n mod 256 = 0 \<or> word = word_at ws ((n - 1) div 256) \<Longrightarrow>
    ms = filter (\<lambda>i. \<not> sg i) (rev [0 ..< n]) \<Longrightarrow> cnt + length ms \<le> length pks \<Longrightarrow>
    length ixs = length pks \<Longrightarrow> length lvs = length pks \<Longrightarrow>
    missing_loop P ws pks (rev [512 ..< 512 + n]) word cnt ixs lvs r =
      map_option (\<lambda>r. (cnt + length ms, overwrite ixs cnt (map (\<lambda>i. of_nat (512 + i)) ms),
          overwrite lvs cnt (map hashG1Compressed (take (length ms) (drop cnt pks))), r))
        (add_all P r (take (length ms) (drop cnt pks)))"
proof (induction n arbitrary: word cnt ixs lvs r ms)
  case (Suc n)
  let ?word = "if n mod 256 = 255 then word_at ws (n div 256) else word"
  let ?ms = "filter (\<lambda>i. \<not> sg i) (rev [0 ..< n])"
  have split: "n = 256 * (n div 256) + n mod 256" and two: "n div 256 < 2" "n mod 256 < 256"
    using Suc.prems(1) by simp_all
  have word: "?word = word_at ws (n div 256)"
    using Suc.prems(2) by (auto simp: mod_Suc split: if_splits)
  have ix: "(512 + n) mod 256 = n mod 256" "(512 + n) div 256 - 2 = n div 256"
    using mod_mult_self3 [of 2 256 n] div_mult_self3 [of "256 :: nat" 2 n] by simp_all
  have inv: "n mod 256 = 0 \<or> ?word = word_at ws ((n - 1) div 256)"
  proof (cases "n mod 256 = 0")
    case False
    then obtain k where k: "n mod 256 = Suc k" by (cases "n mod 256") auto
    then have "k < 256" and "n - 1 = 256 * (n div 256) + k" using two(2) split by linarith+
    then have "(n - 1) div 256 = n div 256" by (simp only: div_mult_self4 zero_neq_numeral [symmetric] not_False_eq_True div_less add_0_right)
    then show ?thesis unfolding word by simp
  qed simp
  have test: "?word AND push_bit (n mod 256) 1 = 0 \<longleftrightarrow> \<not> sg n"
  proof -
    have "bit (word_at ws (n div 256)) (n mod 256) \<longleftrightarrow> sg (256 * (n div 256) + n mod 256)"
      using assms two unfolding bits_held_def by blast
    then show ?thesis unfolding word contract_bit split [symmetric] by simp
  qed
  have list: "rev [512 ..< 512 + Suc n] = (512 + n) # rev [512 ..< 512 + n]"
    using upt_Suc_append [of 512 "512 + n"] by (simp only: add_Suc_right le_add1 rev_append) simp
  have step: "missing_loop P ws pks (rev [512 ..< 512 + Suc n]) word cnt ixs lvs r =
      (if sg n then missing_loop P ws pks (rev [512 ..< 512 + n]) ?word cnt ixs lvs r
       else if cnt < length pks then
         (case addG1 P r (pks ! cnt) of None \<Rightarrow> None
          | Some r \<Rightarrow> missing_loop P ws pks (rev [512 ..< 512 + n]) ?word (cnt + 1)
              (ixs[cnt := of_nat (512 + n)]) (lvs[cnt := hashG1Compressed (pks ! cnt)]) r)
       else None)"
    unfolding list missing_loop.simps Let_def ix word_at_def [symmetric] test by simp
  show ?case
  proof (cases "sg n")
    case True
    then have "ms = ?ms" using Suc.prems(3) by simp
    with Suc.IH [OF _ inv] Suc.prems True show ?thesis unfolding step by simp
  next
    case False
    then have ms: "ms = n # ?ms" using Suc.prems(3) by simp
    then have lt: "cnt < length pks" using Suc.prems(4) by simp
    then have drop: "drop cnt pks = pks ! cnt # drop (cnt + 1) pks" by (simp add: Cons_nth_drop_Suc)
    show ?thesis
    proof (cases "addG1 P r (pks ! cnt)")
      case None
      then show ?thesis unfolding step ms drop using False lt by simp
    next
      case (Some r')
      have "missing_loop P ws pks (rev [512 ..< 512 + n]) ?word (cnt + 1)
              (ixs[cnt := of_nat (512 + n)]) (lvs[cnt := hashG1Compressed (pks ! cnt)]) r'
          = map_option (\<lambda>r. (cnt + 1 + length ?ms,
              overwrite (ixs[cnt := of_nat (512 + n)]) (cnt + 1) (map (\<lambda>i. of_nat (512 + i)) ?ms),
              overwrite (lvs[cnt := hashG1Compressed (pks ! cnt)]) (cnt + 1)
                (map hashG1Compressed (take (length ?ms) (drop (cnt + 1) pks))), r))
            (add_all P r' (take (length ?ms) (drop (cnt + 1) pks)))"
        using Suc.prems ms by (intro Suc.IH [OF _ inv refl]) simp_all
      then show ?thesis
        unfolding step ms drop using False lt Some Suc.prems(5,6)
        by (simp add: overwrite_step [of cnt ixs, simplified] overwrite_step [of cnt lvs, simplified])
    qed
  qed
qed auto

lemma aggregateMissing_run:
  assumes "bits_held ws sg" and "ms = filter (\<lambda>i. \<not> sg i) (rev [0 ..< 512])" and "length pks = length ms"
  shows "aggregateMissingPubkeys P pks r ws =
    map_option (\<lambda>r. (map (\<lambda>i. of_nat (512 + i)) ms, map hashG1Compressed pks, r)) (add_all P r pks)"
proof -
  have "missing_loop P ws pks (rev [512 ..< 512 + 512]) 0 0 (replicate (length pks) 0) (replicate (length pks) zero_hash) r
      = map_option (\<lambda>r. (0 + length ms, overwrite (replicate (length pks) 0) 0 (map (\<lambda>i. of_nat (512 + i)) ms),
          overwrite (replicate (length pks) zero_hash) 0 (map hashG1Compressed (take (length ms) (drop 0 pks))), r))
        (add_all P r (take (length ms) (drop 0 pks)))"
    using assms(3) by (intro missing_loop_run [OF assms(1) _ _ assms(2)]) simp_all
  moreover have "512 + 512 = (1024 :: nat)" by simp
  ultimately have "missing_loop P ws pks (rev [512 ..< 1024]) 0 0 (replicate (length pks) 0) (replicate (length pks) zero_hash) r
      = map_option (\<lambda>r. (length pks, map (\<lambda>i. of_nat (512 + i)) ms, map hashG1Compressed pks, r)) (add_all P r pks)"
    using assms(3) by (simp only: overwrite_all length_map length_replicate take_all drop_0 add_0_left order_refl)
  then show ?thesis
    unfolding aggregateMissingPubkeys_def
    by (cases "add_all P r pks") (simp_all only: map_option_case option.case prod.case simp_thms if_True)
qed

subsection \<open>The multiproof of the missing keys, on chain\<close>

lemma multi_accepted:
  assumes "tree_wf t" and "\<not> isList t" and "sorted_wrt (<) js" and "\<forall>j \<in> set js. j < length (leaves t)"
    and "MerkleTree_MakeMultiProof t (map int js) = Inr mp" and "tree_depth t < 200"
  shows "restoreMerkleMultiRoot (map (\<lambda>j. of_nat (2 ^ tree_depth t + j)) (rev js)) (map ((!) (leaves t)) (rev js))
    (Decommitments mp) = Some (mroot (tree_depth t) (leaves t))"
proof (cases "js = []")
  case True
  then have "Decommitments mp = [tree_root t]"
    using assms(1,5) by (auto simp: MerkleTree_MakeMultiProof_def MerkleTree_Hash_root)
  then show ?thesis using True assms(2) by (simp add: restoreMerkleMultiRoot_def tree_root_def)
next
  case False
  let ?d = "tree_depth t" and ?h = "heap (tree_depth t) (leaves t)"
  let ?gis = "map (\<lambda>j. 2 ^ ?d + j) (rev js)" and ?hs = "map ((!) (leaves t)) (rev js)"
  let ?ds = "decommit ?h (opened ?d js) (2 ^ ?d - 1)"
  have lt: "\<forall>j \<in> set js. j < 2 ^ ?d" using assms(4) tree_wf_leaves [OF assms(1)] by fastforce
  have ds: "Decommitments mp = ?ds" using MakeMultiProof_Inr [OF assms(1) False assms(4)] assms(5) by simp
  have small: "2 ^ ?d + j < (2 :: nat) ^ 256" if "j < 2 ^ ?d" for j
  proof -
    have "2 ^ ?d + j < (2 :: nat) ^ Suc ?d" using that by simp
    also have "\<dots> \<le> 2 ^ 256" using assms(6) by (intro power_increasing) simp_all
    finally show ?thesis .
  qed
  have us: "map unat (map (\<lambda>j. of_nat (2 ^ ?d + j)) (rev js) :: u256 list) = ?gis"
  proof -
    have "unat (of_nat (2 ^ ?d + j) :: u256) = 2 ^ ?d + j" if "j \<in> set js" for j
      using small [of j] lt that by (simp only: unat_of_nat) simp
    then show ?thesis by simp
  qed
  have "restoreMerkleMultiRoot (map (\<lambda>j. of_nat (2 ^ ?d + j)) (rev js)) ?hs ?ds
      = queue_run node_hash (zip (map unat (map (\<lambda>j. of_nat (2 ^ ?d + j)) (rev js) :: u256 list)) ?hs) ?ds"
    using False by (intro restoreMerkleMultiRoot_queue) simp_all
  also have "\<dots> = queue_run node_hash (zip ?gis ?hs) ?ds" unfolding us ..
  also have "zip ?gis ?hs = map (\<lambda>i. (2 ^ ?d + i, ?h (2 ^ ?d + i))) (rev js)"
    using assms(4) by (simp add: zip_map_map zip_same_conv_map o_def split_beta)
  also have "queue_run node_hash \<dots> ?ds = Some (mroot ?d (leaves t))"
    using queue_run_leaves [OF assms(3) lt False, of "leaves t"] heap_root [OF tree_wf_leaves [OF assms(1)]] by simp
  finally show ?thesis unfolding ds .
qed

subsection \<open>The committee\<close>

text \<open>blst decodes exactly the encodings of points other than infinity, and encodes them back.\<close>

definition bls_doc :: "('pk, 'sig) bls \<Rightarrow> bool" where
  "bls_doc B \<longleftrightarrow> (\<forall>b k. PublicKeyFromBytes B b = Inr k \<longrightarrow> PkMarshal B k = b \<and> (\<exists>s. affine_key B k s))"

lemma ConvertToSyncCommittee_keys:
  assumes "bls_doc B" and "ConvertToSyncCommittee B cm = Inr cmt"
  shows "length (PublicKeys cmt) = length (sc_Pubkeys cm)"
    and "list_all (compressed_of B) (PublicKeys cmt)"
    and "\<And>i. i < length (PublicKeys cmt) \<Longrightarrow> PkMarshal B (g1c_raw (PublicKeys cmt ! i)) = sc_Pubkeys cm ! i"
    and "PkMarshal B (g1_raw (AggregateKey cmt)) = sc_AggregatePubkey cm"
proof -
  from assms(2) have agg: "MustDecodePK B (sc_AggregatePubkey cm) = Inr (AggregateKey cmt)"
    and ks: "map_go (MustDecodePKCompressed B) (sc_Pubkeys cm) = Inr (PublicKeys cmt)"
    by (auto simp: ConvertToSyncCommittee_def bind_eq_Inr)
  from ks show len: "length (PublicKeys cmt) = length (sc_Pubkeys cm)" by (simp add: map_go_eq_Inr)
  show "PkMarshal B (g1_raw (AggregateKey cmt)) = sc_AggregatePubkey cm"
    using agg assms(1) by (auto simp: MustDecodePK_def bind_eq_Inr bls_doc_def dest: PkToG1_raw)
  have key: "compressed_of B (PublicKeys cmt ! i) \<and> PkMarshal B (g1c_raw (PublicKeys cmt ! i)) = sc_Pubkeys cm ! i"
    if i: "i < length (PublicKeys cmt)" for i
  proof -
    have "MustDecodePKCompressed B (sc_Pubkeys cm ! i) = Inr (PublicKeys cmt ! i)"
      using ks i len by (simp add: map_go_eq_Inr)
    then obtain k where k: "PublicKeyFromBytes B (sc_Pubkeys cm ! i) = Inr k"
      and c: "PkToG1Compressed B k = Inr (PublicKeys cmt ! i)"
      by (auto simp: MustDecodePKCompressed_def bind_eq_Inr)
    with assms(1) obtain s where "PkMarshal B k = sc_Pubkeys cm ! i" and s: "affine_key B k s"
      unfolding bls_doc_def by blast
    moreover have "g1c_raw (PublicKeys cmt ! i) = k" using PkToG1Compressed_parts(1) [OF affine_keyD(1,2) [OF s] c] .
    ultimately show ?thesis using c by (auto simp: compressed_of_def)
  qed
  then show "\<And>i. i < length (PublicKeys cmt) \<Longrightarrow> PkMarshal B (g1c_raw (PublicKeys cmt ! i)) = sc_Pubkeys cm ! i"
    by blast
  show "list_all (compressed_of B) (PublicKeys cmt)" using key by (simp add: list_all_length)
qed

text \<open>The leaves of the committee tree, and what the contract hashes the missing keys to.\<close>

lemma committee_leaves:
  assumes "PadTo_doc L" and "bls_doc B" and "ConvertToSyncCommittee B cm = Inr cmt" and "i < length (PublicKeys cmt)"
  shows "HashG1PointCompressed L B (PublicKeys cmt ! i) = ssz_bytes (sc_Pubkeys cm ! i)"
    and "hashG1Compressed (PublicKeys cmt ! i) = ssz_bytes (sc_Pubkeys cm ! i)"
proof -
  note keys = ConvertToSyncCommittee_keys [OF assms(2,3)]
  have p: "compressed_of B (PublicKeys cmt ! i)" using keys(2) assms(4) by (simp add: list_all_length)
  then obtain b where b: "affine_key B (g1c_raw (PublicKeys cmt ! i)) b" by (auto simp: compressed_of_def)
  have "PkToG1Compressed B (g1c_raw (PublicKeys cmt ! i)) = Inr (PublicKeys cmt ! i)"
    using p by (simp add: compressed_of_def)
  then show "hashG1Compressed (PublicKeys cmt ! i) = ssz_bytes (sc_Pubkeys cm ! i)"
    using hashG1Compressed_ssz [OF b] keys(3) [OF assms(4)] by simp
  show "HashG1PointCompressed L B (PublicKeys cmt ! i) = ssz_bytes (sc_Pubkeys cm ! i)"
    using HashG1PointCompressed_ssz [OF assms(1) b] keys(3) [OF assms(4)] by simp
qed

lemma signers_absent_mset: "mset (signers L bits n) + mset (absent L bits n) = mset [0 ..< n]"
  unfolding signers_def absent_def mset_filter by (rule multiset_partition [symmetric])

lemma absent_props: "sorted_wrt (<) (absent L bits n)" "\<forall>j \<in> set (absent L bits n). j < n"
  "rev (absent L bits n) = filter (\<lambda>i. \<not> member_signed L bits i) (rev [0 ..< n])"
  by (auto simp: absent_def rev_filter intro: sorted_wrt_filter)

lemma committee_total:
  assumes "commutative_sum B"
    and "sum_keys B None (map (\<lambda>i. f (ks ! i)) (signers L bits (length ks))) = Some s"
  shows "Some (foldl (PkAggregate B) s (map f (map ((!) ks) (rev (absent L bits (length ks)))))) = sum_keys B None (map f ks)"
proof -
  let ?s = "map (\<lambda>i. f (ks ! i)) (signers L bits (length ks))"
    and ?a = "map f (map ((!) ks) (rev (absent L bits (length ks))))"
  have "mset (?s @ ?a) = image_mset (\<lambda>i. f (ks ! i)) (mset (signers L bits (length ks)) + mset (absent L bits (length ks)))"
    by (simp add: image_mset.compositionality comp_def)
  also have "\<dots> = mset (map (\<lambda>i. f (ks ! i)) [0 ..< length ks])" unfolding signers_absent_mset by simp
  also have "map (\<lambda>i. f (ks ! i)) [0 ..< length ks] = map f ks"
    by (rule nth_equalityI) simp_all
  finally have "sum_keys B None (map f ks) = sum_keys B None (?s @ ?a)"
    by (rule sum_keys_mset [OF assms(1) sym])
  then show ?thesis unfolding sum_keys_append assms(2) sum_keys_Some by simp
qed

text \<open>What the contract computes from an update that carries the members' keys: the state root that the
  committee branch opens.\<close>

lemma committee_root_accepted:
  assumes docs: "PadTo_doc L" "bls_doc B" "precompile_doc B P" "commutative_sum B"
    and conv: "ConvertToSyncCommittee B cm = Inr cmt" and sizes: "committee_sizes cm"
    and agg: "sum_keys B None (map g1c_raw (PublicKeys cmt)) = Some (g1_raw (AggregateKey cmt))"
    and n: "n = 512"
    and loop: "committee_loop L B bits (PublicKeys cmt) [0 ..< n] None [] [] = Inr (Some pk, hashed, absent L bits n)"
    and tree: "NewVectorMerkleTree hashed = Inr tree" "MerkleTree_MakeMultiProof tree (map int (absent L bits n)) = Inr mp"
    and missed: "up_MissedSyncCommitteeParticipants u = map ((!) (PublicKeys cmt)) (rev (absent L bits n))"
    and fields: "up_SyncAggregatePubkey u = pk" "up_SyncCommitteeRootDecommitments u = Decommitments mp"
    and bits: "bits_held (up_SyncAggregateBitList u) (member_signed L bits)"
    and sums: "affine_sums B (g1_raw pk) (map g1c_raw (up_MissedSyncCommitteeParticipants u))"
    and up: "restoreMerkleRoot (ssz_committee_root cm) gi (up_SyncCommitteeBranch u) = Some root"
  shows "committee_root P gi u = Some root"
proof -
  let ?ks = "PublicKeys cmt" and ?js = "absent L bits n" and ?m = "up_MissedSyncCommitteeParticipants u"
  note keys = ConvertToSyncCommittee_keys [OF docs(2) conv]
  have len: "length ?ks = n" using keys(1) sizes n by (simp add: committee_sizes_def)
  note run = committee_loop_Inr [OF loop, simplified]
  have hashed: "hashed = map ssz_bytes (sc_Pubkeys cm)"
  proof (rule nth_equalityI)
    have h: "hashed = map (\<lambda>i. HashG1PointCompressed L B (?ks ! i)) [0 ..< n]" using run by blast
    then show "length hashed = length (map ssz_bytes (sc_Pubkeys cm))" using len keys(1) by simp
    fix i assume "i < length hashed"
    with h have "i < n" by simp
    with h show "hashed ! i = map ssz_bytes (sc_Pubkeys cm) ! i"
      using committee_leaves(1) [OF docs(1,2) conv, of i] len keys(1) by simp
  qed
  have hlen: "length hashed = n" using hashed len keys(1) by simp
  then have d: "log2_up (length hashed) = 9" using log2_up_pow2 [of 9] n by simp
  note wf = NewVectorMerkleTree_wf [OF tree(1)]
  have t: "tree_wf tree" "leaves tree = hashed" "\<not> isList tree" "tree_depth tree = 9"
    using wf hlen n d by simp_all
  have lt: "\<forall>j \<in> set ?js. j < length (leaves tree)" using absent_props(2) hlen t(2) by blast
  have multi: "restoreMerkleMultiRoot (map (\<lambda>j. of_nat (512 + j)) (rev ?js)) (map ((!) hashed) (rev ?js))
      (Decommitments mp) = Some (mroot 9 hashed)"
    using multi_accepted [OF t(1,3) absent_props(1) lt tree(2)] t(2,4) by simp
  have lvs: "map hashG1Compressed ?m = map ((!) hashed) (rev ?js)"
    using committee_leaves(2) [OF docs(1,2) conv] absent_props(2) [of L bits n] len keys(1) hashed
    by (auto simp: missed)
  have pks: "list_all (compressed_of B) ?m"
    using keys(2) absent_props(2) [of L bits n] len by (auto simp: missed list_all_iff)
  have raw: "sum_keys B None (map (\<lambda>i. g1c_raw (?ks ! i)) (signers L bits (length ?ks))) = Some (g1_raw pk)"
    using run by (simp add: signers_def len)
  have total: "foldl (PkAggregate B) (g1_raw pk) (map g1c_raw ?m) = g1_raw (AggregateKey cmt)"
    using committee_total [OF docs(4), of g1c_raw ?ks L bits "g1_raw pk"] raw agg by (simp add: missed len)
  obtain b where b: "affine_key B (g1_raw pk) b" using sums unfolding affine_sums_def by (metis foldl_Nil le0 take0)
  have g: "g1_of pk = g1_at b" using PkToG1_g1_at [OF b] run by blast
  obtain s where s: "affine_key B (g1_raw (AggregateKey cmt)) s" "add_all P (g1_of pk) ?m = Some (g1_at s)"
    using add_all_sum [OF docs(3) pks sums b] unfolding total g by blast
  have "aggregateMissingPubkeys P ?m (g1_of pk) (up_SyncAggregateBitList u)
      = Some (map (\<lambda>i. of_nat (512 + i)) (rev ?js), map hashG1Compressed ?m, g1_at s)"
    using aggregateMissing_run [OF bits, of "rev ?js" ?m P "g1_of pk"] absent_props(3) [of L bits n] n missed
    unfolding s(2) by simp
  moreover have "hashPair (mroot 9 hashed) (hashG1 (g1_at s)) = ssz_committee_root cm"
    using hashG1_at [OF s(1)] keys(4) d hlen keys(1) len by (simp add: ssz_committee_root_def hashed)
  ultimately show ?thesis
    using multi up unfolding committee_root_def fields lvs by simp
qed

subsection \<open>Counting\<close>

lemma find_head_block: "find_head L c slot = Inr b \<Longrightarrow> \<exists>s. block_at c s = Inr b"
proof -
  assume b: "find_head L c slot = Inr b"
  then obtain r where r: "head_loop L c slot = Some r" "r = Inr b"
    by (auto simp: find_head_def split: option.splits)
  from head_loop_Some [OF r(1)] obtain k where "r = stop_at c (slot - of_nat k)" by blast
  with r(2) show ?thesis by (auto simp: stop_at_def)
qed

lemma member_signed_bit:
  assumes "Bitvector_doc L" and "length bits = 64" and "i < 512"
  shows "member_signed L bits i = bits_nth bits i"
proof -
  have "unat (of_nat i :: u64) = i" using assms(3) by (simp add: unat_of_nat)
  then show ?thesis using assms(1,2) by (simp add: member_signed_def Bitvector_doc_def)
qed

lemma signers_count:
  assumes "Bitvector_doc L" and "length bits = 64" and "n = 512"
  shows "length (signers L bits n) = unat (BitsCount L bits)" and "length (signers L bits n) + length (absent L bits n) = n"
proof -
  have "signers L bits n = filter (bits_nth bits) [0 ..< n]"
    unfolding signers_def by (rule filter_cong) (auto simp: assms(3) member_signed_bit [OF assms(1,2)])
  then show "length (signers L bits n) = unat (BitsCount L bits)"
    using assms by (simp only: Bitvector_doc_def)
  show "length (signers L bits n) + length (absent L bits n) = n"
    unfolding signers_def absent_def by (simp only: sum_length_filter_compl length_upt minus_nat.diff_0)
qed

lemma enough_count:
  assumes "Bitvector_doc L" and "length (bd_SyncCommitteeBits (bk_Body b)) = 64" and "SyncCommitteeSize (Spec c) = 512"
    and "enough_signatures L c b"
  shows "10 \<le> unat (BitsCount L (bd_SyncCommitteeBits (bk_Body b)))"
    and "WithFinality c \<Longrightarrow> 1024 \<le> 3 * unat (BitsCount L (bd_SyncCommitteeBits (bk_Body b)))"
proof -
  let ?n = "BitsCount L (bd_SyncCommitteeBits (bk_Body b))"
  have le: "unat ?n \<le> 512" using signers_count [OF assms(1,2) refl] by simp
  have "10 \<le> ?n" using assms(4) by (simp add: enough_signatures_def MinSyncCommitteeParticipants_def Let_def not_less)
  then show "10 \<le> unat ?n" by (simp add: word_le_nat_alt)
  assume "WithFinality c"
  with assms(3,4) have "1024 \<le> 3 * ?n" by (simp add: enough_signatures_def Let_def not_less)
  moreover have "unat (3 * ?n) = 3 * unat ?n"
    using le by (subst unat_mult_lem [THEN iffD1]) simp_all
  ultimately show "1024 \<le> 3 * unat ?n" by (simp add: word_le_nat_alt)
qed

lemma bit_list_held:
  assumes "BytesToHash_doc L" and "Bitvector_doc L" and "length bits = 64" and "N = 512"
    and "bit_list L N (BitsBytes L bits) = Inr ws"
  shows "bits_held ws (member_signed L bits)"
proof -
  have bytes: "BitsBytes L bits = bits" using assms(2,3) by (simp add: Bitvector_doc_def)
  have len: "length bits = 32 * 2" using assms(3) by simp
  obtain ws' where ws': "bit_list L (int (256 * 2)) bits = Inr ws'"
    "\<And>w m. w < 2 \<Longrightarrow> m < 256 \<Longrightarrow> bit (word_at ws' w) m \<longleftrightarrow> bits_nth bits (256 * w + m)"
    using bit_list_words [OF assms(1) len] by metis
  have "int (256 * 2) = N" using assms(4) by simp
  with ws'(1) assms(5) have "ws' = ws" unfolding bytes by simp
  moreover have "bits_nth bits (256 * w + m) = member_signed L bits (256 * w + m)" if "w < 2" "m < 256" for w m
    using that by (intro member_signed_bit [OF assms(2,3), symmetric]) simp
  ultimately show ?thesis using ws'(2) unfolding bits_held_def by blast
qed

subsection \<open>An update of an honest node advances the contract\<close>

text \<open>
  A node that serves the chain: blocks carry 64 bytes of participation bits, states have a committee of 512
  and a 32-byte finalized root, and the block it returns for a root has a header with that hash tree root.
\<close>

definition honest_node :: "lib \<Rightarrow> LightClient \<Rightarrow> bool" where
  "honest_node L c \<longleftrightarrow>
     (\<forall>i b. GetBlock (Client c) i = Inr b \<longrightarrow> length (bd_SyncCommitteeBits (bk_Body b)) = 64) \<and>
     (\<forall>s st. GetState (Client c) s = Inr st \<longrightarrow>
        committee_sizes (st_CurrentSyncCommittee st) \<and> length (cp_Root (st_FinalizedCheckpoint st)) = 32) \<and>
     (\<forall>r b h. (GetBlock (Client c) (HashString L r) = Inr b \<or> GetBlock (Client c) (EncodeHex L (Bytes r)) = Inr b)
        \<and> ConvertToHeader L b = Inr h \<longrightarrow> ssz_header_root h = r)"

text \<open>What the contract's state has to do with the oracle's client at \<open>curSlot\<close>.\<close>

definition in_sync :: "lib \<Rightarrow> LightClient \<Rightarrow> u64 \<Rightarrow> light_contract \<Rightarrow> bool" where
  "in_sync L c curSlot s \<longleftrightarrow>
     lc_head s = curSlot \<and> GENESIS_VALIDATORS_ROOT s = GenesisValidatorsRoot (Genesis c) \<and>
     (\<forall>b. block_at c curSlot = Inr b \<longrightarrow> snd (lc_headers s curSlot) = BytesToHash L (bk_StateRoot b))"

text \<open>The aggregate key of a committee is the sum of its keys.\<close>

definition aggregate_ok :: "('pk, 'sig) bls \<Rightarrow> SyncCommitteeMsg \<Rightarrow> bool" where
  "aggregate_ok B cm \<longleftrightarrow> (\<forall>cmt. ConvertToSyncCommittee B cm = Inr cmt \<longrightarrow>
     sum_keys B None (map g1c_raw (PublicKeys cmt)) = Some (g1_raw (AggregateKey cmt)))"

lemma domainRoot_eq:
  assumes "length (FromHex L (BellatrixForkVersion (Spec c))) = 4" and "syncDomainRoot L c = Inr d"
    and "up_ForkVersion u = fork_version L c" and "GENESIS_VALIDATORS_ROOT s = GenesisValidatorsRoot (Genesis c)"
  shows "domainRoot s u = d"
proof -
  have fork: "fork_version L c = FromHex L (BellatrixForkVersion (Spec c))" using assms(1) by (simp add: fork_version_def)
  have "unat (of_nat (be_nat (Bytes d)) :: u256) = be_nat (Bytes d)"
    using be_nat_less [of "Bytes d"] by (simp only: unat_of_nat) simp
  then have "be_nat (Bytes d) = unat (contract_syncDomainRoot (up_ForkVersion u) (GENESIS_VALIDATORS_ROOT s))"
    using syncDomainRoot_contract_value [OF assms(1,2)] assms(3,4) by (simp add: fork)
  then show ?thesis unfolding domainRoot_def by (metis be_bytes_be_nat length_Bytes Hash_Bytes)
qed

lemma signature_accepted:
  assumes "precompile_doc B P" and "affine_key B (g1_raw pk) a" and "PkToG1 B (g1_raw pk) = Inr pk"
    and "MustDecodeSig B sb = Inr sig" and "Verify B r d pk sig"
  shows "verifyBLSSignature P (hashPair r d) (g1_of pk) (g2_of sig)"
proof -
  from assms(4) have sig: "SigToG2 B (g2_raw sig) = Inr sig"
    by (auto simp: MustDecodeSig_def SigToG2_def bind_eq_Inr)
  have "SigVerify B (g2_raw sig) (g1_raw pk) (Bytes (hashPair r d))"
    using assms(5) by (simp add: Verify_def hashPair_def Let_def del: hashPair_node)
  with assms(1,2) sig have "verifyBLSSignature P (hashPair r d) (g1_at a) (g2_of sig)"
    using verifyBLSSignature_check unfolding precompile_doc_def by blast
  then show ?thesis by (simp only: PkToG1_g1_at [OF assms(2,3)])
qed

lemma step_finality:
  assumes "up_FinalityBranch u \<noteq> []" and "lc_head s < hd_Slot (up_FinalizedHeader u)"
    and "curSlot_at s now = Some cur" and "unat (hd_Slot (up_FinalizedHeader u)) \<le> cur"
    and "syncCommitteePeriod (up_SignatureSlot u) = syncCommitteePeriod (lc_head s)"
    and "restoreMerkleRoot (headerRoot (up_FinalizedHeader u)) FINALIZED_ROOT_INDEX (up_FinalityBranch u)
        = Some (hd_StateRoot (up_AttestedHeader u))"
    and "length (up_MissedSyncCommitteeParticipants u) \<le> 512"
    and "1024 \<le> 3 * (512 - length (up_MissedSyncCommitteeParticipants u))"
    and "committee_root P CURRENT_SYNC_COMMITTEE_INDEX u = Some (snd (lc_headers s (lc_head s)))"
    and "verifyBLSSignature P (hashPair (headerRoot (up_AttestedHeader u)) (domainRoot s u))
        (g1_of (up_SyncAggregatePubkey u)) (g2_of (up_SyncAggregateSignature u))"
  shows "step P now s u = Some (setHead (hd_Slot (up_FinalizedHeader u))
     (headerRoot (up_FinalizedHeader u), hd_StateRoot (up_FinalizedHeader u)) s)"
proof -
  have "10 \<le> 512 - length (up_MissedSyncCommitteeParticipants u)" using assms(8) by linarith
  then show ?thesis
    using assms unfolding step_def Let_def active_header_def committee_index_def require_def
    by (simp del: hashPair_node)
qed

text \<open>The parts of a returned update, with the committee loop of its signing block.\<close>

lemma MakeUpdate_parts:
  fixes B :: "('pk, 'sig) bls"
  assumes "MakeUpdate L B since c curSlot targetSlot = Inr (Some u)" and n: "n = nat (SyncCommitteeSize (Spec c))"
  obtains slot head attestedBlock curBlock and u0 u1 :: "('pk, 'sig) Update" and cmt br hashed tree mp domain where
    "find_head L c slot = Inr head"
    "GetBlock (Client c) (HashString L (BytesToHash L (bk_ParentRoot head))) = Inr attestedBlock"
    "ConvertToHeader L attestedBlock = Inr (up_AttestedHeader u)" "block_at c curSlot = Inr curBlock"
    "add_finality L c curSlot u0 = Inr (Some u1)" "up_AttestedHeader u0 = up_AttestedHeader u"
    "up_FinalizedHeader u = up_FinalizedHeader u1" "up_FinalityBranch u = up_FinalityBranch u1"
    "bit_list L (SyncCommitteeSize (Spec c)) (BitsBytes L (bd_SyncCommitteeBits (bk_Body head))) = Inr (up_SyncAggregateBitList u)"
    "proveNewSyncCommittee L B c curSlot (BytesToHash L (bk_StateRoot curBlock)) False = Inr (cmt, br)"
    "committee_loop L B (bd_SyncCommitteeBits (bk_Body head)) (PublicKeys cmt) [0 ..< n] None [] []
       = Inr (Some (up_SyncAggregatePubkey u), hashed, absent L (bd_SyncCommitteeBits (bk_Body head)) n)"
    "up_MissedSyncCommitteeParticipants u = map ((!) (PublicKeys cmt)) (rev (absent L (bd_SyncCommitteeBits (bk_Body head)) n))"
    "NewVectorMerkleTree hashed = Inr tree"
    "MerkleTree_MakeMultiProof tree (map int (absent L (bd_SyncCommitteeBits (bk_Body head)) n)) = Inr mp"
    "up_SyncCommitteeRootDecommitments u = Decommitments mp" "up_SyncCommitteeBranch u = Path br"
    "MustDecodeSig B (bd_SyncCommitteeSignature (bk_Body head)) = Inr (up_SyncAggregateSignature u)"
    "syncDomainRoot L c = Inr domain" "up_ForkVersion u = fork_version L c"
    "Verify B (BytesToHash L (bk_ParentRoot head)) domain (up_SyncAggregatePubkey u) (up_SyncAggregateSignature u)"
proof -
  from assms(1) obtain slot head attestedBlock attested curBlock u0 u1 ws where run:
    "find_head L c slot = Inr head"
    "GetBlock (Client c) (HashString L (BytesToHash L (bk_ParentRoot head))) = Inr attestedBlock"
    "ConvertToHeader L attestedBlock = Inr attested" "block_at c curSlot = Inr curBlock"
    "prove_committee L B c curSlot head attested (BytesToHash L (bk_StateRoot curBlock)) = Inr u0"
    "add_finality L c curSlot u0 = Inr (Some u1)"
    "bit_list L (SyncCommitteeSize (Spec c)) (BitsBytes L (bd_SyncCommitteeBits (bk_Body head))) = Inr ws"
    "u = u1\<lparr>up_SyncAggregateBitList := ws\<rparr>" by (elim MakeUpdateE)
  note fields = add_finality_fields [OF run(6)]
  show ?thesis
    by (rule prove_committeeE [OF run(5) n], rule that [OF run(1,2) _ run(4) run(6)])
      (use run(3,7,8) fields map_go_index in auto)
qed

text \<open>The committee root the contract computes from an update is the state root of the oracle's current slot.\<close>

lemma update_committee_root:
  assumes "MakeUpdate L B since c curSlot targetSlot = Inr (Some u)" and "SyncCommitteeSize (Spec c) = 512"
    and "BytesToHash_doc L" and "PadTo_doc L" and "ssz_doc L" and "Bitvector_doc L"
    and "bls_doc B" and "precompile_doc B P" and "commutative_sum B"
    and "honest_node L c" and "GetBeaconState L c curSlot = Inr (st, t)"
    and "aggregate_ok B (st_CurrentSyncCommittee st)"
    and "affine_sums B (g1_raw (up_SyncAggregatePubkey u)) (map g1c_raw (up_MissedSyncCommitteeParticipants u))"
    and "block_at c curSlot = Inr b"
  shows "committee_root P CURRENT_SYNC_COMMITTEE_INDEX u = Some (BytesToHash L (bk_StateRoot b))"
proof -
  define n where "n = nat (SyncCommitteeSize (Spec c))"
  have n: "n = 512" using assms(2) by (simp add: n_def)
  let ?cm = "st_CurrentSyncCommittee st"
  obtain slot head curBlock cmt br hashed tree mp where run:
    "find_head L c slot = Inr head" "block_at c curSlot = Inr curBlock"
    "bit_list L (SyncCommitteeSize (Spec c)) (BitsBytes L (bd_SyncCommitteeBits (bk_Body head))) = Inr (up_SyncAggregateBitList u)"
    "proveNewSyncCommittee L B c curSlot (BytesToHash L (bk_StateRoot curBlock)) False = Inr (cmt, br)"
    "committee_loop L B (bd_SyncCommitteeBits (bk_Body head)) (PublicKeys cmt) [0 ..< n] None [] []
       = Inr (Some (up_SyncAggregatePubkey u), hashed, absent L (bd_SyncCommitteeBits (bk_Body head)) n)"
    "up_MissedSyncCommitteeParticipants u = map ((!) (PublicKeys cmt)) (rev (absent L (bd_SyncCommitteeBits (bk_Body head)) n))"
    "NewVectorMerkleTree hashed = Inr tree"
    "MerkleTree_MakeMultiProof tree (map int (absent L (bd_SyncCommitteeBits (bk_Body head)) n)) = Inr mp"
    "up_SyncCommitteeRootDecommitments u = Decommitments mp" "up_SyncCommitteeBranch u = Path br"
    by (rule MakeUpdate_parts [OF assms(1) n_def]) (rule that, assumption+)
  have len: "length (bd_SyncCommitteeBits (bk_Body head)) = 64" and sizes: "committee_sizes ?cm"
    using assms(10) find_head_block [OF run(1)] GetBeaconState_tree(1) [OF assms(11)]
    by (auto simp: honest_node_def block_at_def)
  note committee = committee_branch [OF assms(3,5,11) sizes(1) run(4)]
  have held: "bits_held (up_SyncAggregateBitList u) (member_signed L (bd_SyncCommitteeBits (bk_Body head)))"
    by (rule bit_list_held [OF assms(3,6) len assms(2) run(3)])
  have "committee_root P CURRENT_SYNC_COMMITTEE_INDEX u = Some (BytesToHash L (bk_StateRoot curBlock))"
    using assms(12,13) committee
    by (intro committee_root_accepted [OF assms(4,7-9) committee(1) sizes(1) _ n run(5,7,8,6) refl run(9)])
      (simp_all add: aggregate_ok_def run(10) held)
  then show ?thesis using run(2) assms(14) by simp
qed



end
