(* ===== verification/Update_Samples.thy ===== *)
theory Update_Samples
  imports Step_Proofs
begin

section \<open>A run of MakeUpdate\<close>

text \<open>
  Conditions under which \<^verbatim>\<open>MakeUpdate\<close> returns an update, and a node and a curve that meet them: the
  instance at which the theorems on updates are applied.
\<close>

subsection \<open>When MakeUpdate returns\<close>

lemma committee_loop_total:
  assumes "\<And>k. \<exists>g. PkToG1 B k = Inr g" and "\<forall>i \<in> set is. i < length keys"
  shows "\<exists>r. committee_loop L B bits keys is pk hashed missing = Inr r"
  using assms(2)
proof (induction "is" arbitrary: pk hashed missing)
  case (Cons i "is")
  obtain g where "AddG1Points B pk (keys ! i) = Inr g"
    using assms(1) by (cases pk) (auto simp: AddG1Points_def)
  then show ?case using Cons.IH Cons.prems by simp
qed simp

lemma prove_committee_run:
  assumes "BytesToHash_doc L" and "ssz_doc L" and "GetBeaconState L c curSlot = Inr (st, t)"
    and "committee_sizes (st_CurrentSyncCommittee st)" and "ConvertToSyncCommittee B (st_CurrentSyncCommittee st) = Inr cmt"
    and "SyncCommitteeSize (Spec c) = 512" and "length (FromHex L (BellatrixForkVersion (Spec c))) = 4"
    and "\<And>k. \<exists>g. PkToG1 B k = Inr g" and "MustDecodeSig B (bd_SyncCommitteeSignature (bk_Body head)) = Inr sig"
    and "\<And>r d pk. Verify B r d pk sig" and "signers L (bd_SyncCommitteeBits (bk_Body head)) 512 \<noteq> []"
  shows "\<exists>u. prove_committee L B c curSlot head attested (tree_root t) = Inr u"
proof -
  let ?bits = "bd_SyncCommitteeBits (bk_Body head)"
  define n where "n = nat (SyncCommitteeSize (Spec c))"
  have n: "n = 512" using assms(6) by (simp add: n_def)
  have len: "length (PublicKeys cmt) = n"
    using assms(4,5) n by (auto simp: committee_sizes_def ConvertToSyncCommittee_def bind_eq_Inr map_go_eq_Inr)
  obtain pk hashed missing where loop:
    "committee_loop L B ?bits (PublicKeys cmt) [0 ..< n] None [] [] = Inr (pk, hashed, missing)"
    using committee_loop_total [OF assms(8), of "[0 ..< n]" "PublicKeys cmt" L ?bits None "[]" "[]"] len by fastforce
  note run = committee_loop_Inr [OF loop, simplified]
  have missing: "missing = absent L ?bits n" using run by (simp add: absent_def)
  have hlen: "length hashed = n" using run by (metis length_map length_upt minus_nat.diff_0)
  have "sum_keys B None (map (\<lambda>i. g1c_raw (PublicKeys cmt ! i)) (signers L ?bits n)) \<noteq> None"
    using assms(11) n by (auto simp: neq_Nil_conv sum_keys_Some)
  then obtain g where g: "pk = Some g" using run by (cases pk) (auto simp: signers_def)
  obtain tree where tree: "NewVectorMerkleTree hashed = Inr tree" "tree_wf tree" "leaves tree = hashed"
    using NewVectorMerkleTree_Inr [of hashed] NewVectorMerkleTree_wf hlen n by fastforce
  have "\<exists>mp. MerkleTree_MakeMultiProof tree (map int missing) = Inr mp"
  proof (cases "missing = []")
    case True
    then show ?thesis using tree(2) by (simp add: MerkleTree_MakeMultiProof_def MerkleTree_Hash_root)
  next
    case False
    then show ?thesis
      using MakeMultiProof_Inr [OF tree(2) False] absent_props(2) hlen tree(3) missing by blast
  qed
  then obtain mp where mp: "MerkleTree_MakeMultiProof tree (map int missing) = Inr mp" by blast
  have "map_go (\<lambda>i. index (PublicKeys cmt) (int i)) (rev missing) = Inr (map ((!) (PublicKeys cmt)) (rev missing))"
    using absent_props(2) len by (intro map_go_total) (auto simp: missing)
  moreover obtain d where "syncDomainRoot L c = Inr d" using syncDomainRoot_Inr [OF assms(7)] by blast
  moreover have "\<exists>br. proveNewSyncCommittee L B c curSlot (tree_root t) False = Inr (cmt, br)"
    using proveNewSyncCommittee_run(1) [OF assms(1-3), where nxt = False and B = B and root = "tree_root t"] assms(4,5)
    by simp
  ultimately show ?thesis
    using loop tree(1) mp g assms(9,10)
    unfolding prove_committee_def is_next_def Let_def n_def [symmetric] by (auto simp: G1Point_String_def)
qed

lemma add_finality_run:
  assumes "up_AttestedHeader u = attested" and "WithFinality c" and "GetBeaconState L c (hd_Slot attested) = Inr (st, t)"
    and "tree_root t = hd_StateRoot attested"
    and "GetBlock (Client c) (EncodeHex L (cp_Root (st_FinalizedCheckpoint st))) = Inr fb" and "ConvertToHeader L fb = Inr fh"
  shows "add_finality L c curSlot u = Inr (if hd_Slot fh \<le> curSlot then None
      else Some (u\<lparr>up_FinalizedHeader := fh,
        up_FinalityBranch := UintToHash (cp_Epoch (st_FinalizedCheckpoint st)) # tree_branch t 20\<rparr>))"
  using assms state_root [OF assms(3)] state_opens(1) [OF assms(3), of 20]
  by (simp add: add_finality_def Let_def)

lemma MakeUpdate_run:
  assumes "choose_slot since c curSlot targetSlot = Inr slot" and "find_head L c slot = Inr head"
    and "GetBlock (Client c) (HashString L (BytesToHash L (bk_ParentRoot head))) = Inr ab"
    and "ConvertToHeader L ab = Inr attested" and "block_at c curSlot = Inr curBlock"
    and "prove_committee L B c curSlot head attested (BytesToHash L (bk_StateRoot curBlock)) = Inr u"
    and "WithFinality c" and "GetBeaconState L c (hd_Slot attested) = Inr (st, t)" and "tree_root t = hd_StateRoot attested"
    and "GetBlock (Client c) (EncodeHex L (cp_Root (st_FinalizedCheckpoint st))) = Inr fb"
    and "ConvertToHeader L fb = Inr fh" and "curSlot < hd_Slot fh"
    and "SyncCommitteeSize (Spec c) = 512" and "BitsBytes L (bd_SyncCommitteeBits (bk_Body head)) = bits"
    and "length bits = 64"
  shows "\<exists>u. MakeUpdate L B since c curSlot targetSlot = Inr (Some u)
    \<and> up_SignatureSlot u = bk_Slot head \<and> up_AttestedHeader u = attested \<and> up_FinalizedHeader u = fh"
proof -
  have u: "up_AttestedHeader u = attested" "up_SignatureSlot u = bk_Slot head"
    using assms(6) by (auto elim: prove_committeeE [OF _ refl])
  note add = add_finality_run [OF u(1) assms(7-11), of curSlot]
  have "SyncCommitteeSize (Spec c) = int (256 * 2)" using assms(13) by simp
  then obtain ws where "bit_list L (SyncCommitteeSize (Spec c)) bits = Inr ws"
    using bit_list_rev [of 2 bits L] assms(15) by auto
  then show ?thesis
    using assms(1-6,12,14) add u unfolding MakeUpdate_def block_at_def by (simp add: not_le [symmetric])
qed

lemma MakeUpdate_nil:
  assumes "choose_slot since c curSlot targetSlot = Inr slot" and "find_head L c slot = Inr head"
    and "GetBlock (Client c) (HashString L (BytesToHash L (bk_ParentRoot head))) = Inr ab"
    and "ConvertToHeader L ab = Inr attested" and "block_at c curSlot = Inr curBlock"
    and "prove_committee L B c curSlot head attested (BytesToHash L (bk_StateRoot curBlock)) = Inr u"
    and "WithFinality c" and "GetBeaconState L c (hd_Slot attested) = Inr (st, t)" and "tree_root t = hd_StateRoot attested"
    and "GetBlock (Client c) (EncodeHex L (cp_Root (st_FinalizedCheckpoint st))) = Inr fb"
    and "ConvertToHeader L fb = Inr fh" and "hd_Slot fh \<le> curSlot"
  shows "MakeUpdate L B since c curSlot targetSlot = Inr None"
proof -
  have u: "up_AttestedHeader u = attested" using assms(6) by (auto elim: prove_committeeE [OF _ refl])
  show ?thesis
    using assms(1-6,12) add_finality_run [OF u assms(7-11), of curSlot]
    unfolding MakeUpdate_def block_at_def by simp
qed

subsection \<open>The sample node\<close>

definition unit_committee :: SyncCommitteeMsg where
  "unit_committee = \<lparr>sc_Pubkeys = replicate 512 (compress base_point), sc_AggregatePubkey = compress base_point\<rparr>"

definition plain_block :: "u64 \<Rightarrow> hash \<Rightarrow> hash \<Rightarrow> BeaconBlock" where
  "plain_block slot parent state =
     \<lparr>bk_Slot = slot, bk_ProposerIndex = 3, bk_ParentRoot = Bytes parent, bk_StateRoot = Bytes state,
      bk_Body = \<lparr>bd_SyncCommitteeBits = replicate 64 255, bd_SyncCommitteeSignature = replicate 96 1,
                 bd_ExecutionPayload = None, bd_message = []\<rparr>\<rparr>"

definition plain_header :: "u64 \<Rightarrow> hash \<Rightarrow> hash \<Rightarrow> BeaconBlockHeader" where
  "plain_header slot parent state =
     \<lparr>hd_Slot = slot, hd_ProposerIndex = 3, hd_ParentRoot = parent, hd_StateRoot = state, hd_BodyRoot = zero_hash\<rparr>"

definition finalized_header :: BeaconBlockHeader where
  "finalized_header = plain_header 6 zero_hash zero_hash"

definition unit_state :: BeaconState where
  "unit_state = (sample_state zero_hash)
     \<lparr>st_FinalizedCheckpoint := \<lparr>cp_Epoch = 1, cp_Root = Bytes (headerRoot finalized_header)\<rparr>,
      st_CurrentSyncCommittee := unit_committee\<rparr>"

definition attested_header :: "hash \<Rightarrow> BeaconBlockHeader" where
  "attested_header h = plain_header 8 zero_hash h"

text \<open>Slot 9 carries the signatures for the block of slot 8; slot 10 is missed; the client is at slot 5.\<close>

definition unit_block :: "hash \<Rightarrow> string \<Rightarrow> BeaconBlock go" where
  "unit_block h i =
     (if i = ''9'' then Inr (plain_block 9 (headerRoot (attested_header h)) h)
      else if i = ''5'' then Inr (plain_block 5 zero_hash h)
      else if i = HashString doc_lib (headerRoot (attested_header h)) then Inr (plain_block 8 zero_hash h)
      else if i = HashString doc_lib (headerRoot finalized_header) then Inr (plain_block 6 zero_hash zero_hash)
      else Inl (Err NotFoundError))"

definition unit_client :: "hash \<Rightarrow> LightClient" where
  "unit_client h = (sample_client (\<lambda>_. zero_hash))
     \<lparr>Client := \<lparr>GetSpec = Inl (Err NotFoundError), GetGenesis = Inl (Err NotFoundError),
                GetBlock = unit_block h, GetState = \<lambda>_. Inr unit_state\<rparr>\<rparr>"

definition unit_precompiles :: precompiles where
  "unit_precompiles = sample_precompiles (g1_at base_point)"

definition unit_contract :: "hash \<Rightarrow> light_contract" where
  "unit_contract h =
     \<lparr>GENESIS_VALIDATORS_ROOT = zero_hash, GENESIS_TIME = 0, UPDATE_TIMEOUT = 100, lc_head = 5,
      lc_headers = (\<lambda>_. (zero_hash, h)),
      lc_best = \<lparr>bv_slot = 0, bv_signatures = 0, bv_timeout = 0, bv_root = zero_hash, bv_stateRoot = zero_hash\<rparr>\<rparr>"

lemma numerals: "FormatUint 9 = ''9''" "FormatUint 5 = ''5''"
  by code_simp+

lemma unit_docs: "bls_doc unit_bls" "precompile_doc unit_bls unit_precompiles" "commutative_sum unit_bls"
proof -
  show "bls_doc unit_bls" using unit_affine by (auto simp: bls_doc_def unit_bls_def split: if_splits)
  have base: "b = base_point" if "affine_key unit_bls k b" for k b
    using affine_keyD(1) [OF that] by (simp add: unit_bls_def)
  show "precompile_doc unit_bls unit_precompiles"
    using base sample_signature sample_modexp by (auto simp: precompile_doc_def unit_precompiles_def) (auto simp: sample_precompiles_def)
  show "commutative_sum unit_bls" by (simp add: commutative_sum_def unit_bls_def)
qed

lemma unit_keys: "\<exists>g. PkToG1 unit_bls k = Inr g" "\<exists>c. PkToG1Compressed unit_bls k = Inr c"
  using PkToG1_Inr [OF affine_keyD(1,2) [OF unit_affine]] PkToG1Compressed_Inr [OF affine_keyD(1,2) [OF unit_affine]]
  by simp_all

lemma unit_committee_facts:
  "committee_sizes unit_committee" "\<exists>cmt. ConvertToSyncCommittee unit_bls unit_committee = Inr cmt"
  "aggregate_ok unit_bls unit_committee"
proof -
  show "committee_sizes unit_committee"
    by (simp add: committee_sizes_def unit_committee_def list_all_iff compress_def)
  obtain g where g: "PkToG1 unit_bls () = Inr g" using unit_keys by blast
  obtain c where c: "PkToG1Compressed unit_bls () = Inr c" using unit_keys by blast
  have "MustDecodePK unit_bls (compress base_point) = Inr g"
    and k: "MustDecodePKCompressed unit_bls (compress base_point) = Inr c"
    using g c by (simp_all add: MustDecodePK_def MustDecodePKCompressed_def unit_bls_def)
  moreover have "map_go (MustDecodePKCompressed unit_bls) (replicate 512 (compress base_point)) = Inr (map (\<lambda>_. c) (replicate 512 (compress base_point)))"
    using k by (intro map_go_total) simp
  ultimately show "\<exists>cmt. ConvertToSyncCommittee unit_bls unit_committee = Inr cmt"
    by (simp add: ConvertToSyncCommittee_def unit_committee_def del: map_replicate)
  show "aggregate_ok unit_bls unit_committee"
  proof (unfold aggregate_ok_def, intro allI impI)
    fix cmt assume "ConvertToSyncCommittee unit_bls unit_committee = Inr cmt"
    then have "length (PublicKeys cmt) = 512"
      by (auto simp: ConvertToSyncCommittee_def bind_eq_Inr map_go_eq_Inr unit_committee_def)
    then show "sum_keys unit_bls None (map g1c_raw (PublicKeys cmt)) = Some (g1_raw (AggregateKey cmt))"
      by (cases "PublicKeys cmt") (simp_all add: sum_keys_Some)
  qed
qed

lemma unit_GetBeaconState:
  obtains t where "\<And>h slot. GetBeaconState doc_lib (unit_client h) slot = Inr (unit_state, t)"
proof -
  have roots: "\<exists>x. HashRootsVector doc_lib (replicate 8192 b) = Inr x" for b
    by (subst HashRootsVector_root) simp_all
  have trees: "\<exists>x. MustHashTreeRoot doc_lib y = Inr x" for y
    using MustHashTreeRoot_Inr [OF doc_lib_doc(1)]
    by (cases y) (force simp: doc_lib_def doc_HashTreeRoot_def)+
  have just: "\<exists>x. BytesToMerkleHash (Bits4Bytes doc_lib []) = Inr x"
    using BytesToMerkleHash_ssz [of "[]"] by (simp add: doc_lib_def)
  have "list_all (\<lambda>m. \<exists>x. m = Inr x) (state_fields doc_lib (unit_client zero_hash) unit_state)"
    unfolding state_fields_def
    using sample_lists roots trees just
    by (simp add: unit_client_def sample_client_def sample_spec_def unit_state_def sample_state_def)
  then obtain ls where ls: "args_go (state_fields doc_lib (unit_client zero_hash) unit_state) = Inr ls"
    using args_go_total by blast
  have len: "length ls = 25"
    using ls by (metis args_go_eq_Inr length_map length_state_fields)
  have same: "state_fields doc_lib (unit_client h) unit_state = state_fields doc_lib (unit_client zero_hash) unit_state" for h
    by (simp add: state_fields_def unit_client_def sample_client_def)
  obtain t where t: "NewVectorMerkleTree ls = Inr t" using NewVectorMerkleTree_Inr [of ls] len by simp
  have "GetBeaconState doc_lib (unit_client h) slot = Inr (unit_state, t)" for h slot
  proof -
    have "GetState (Client (unit_client h)) slot = Inr unit_state" by (simp add: unit_client_def)
    then show ?thesis using ls t by (simp only: GetBeaconState_def same [of h] bind_Inr)
  qed
  with that show ?thesis by blast
qed

lemma unit_client_simps [simp]:
  "GetBlock (Client (unit_client h)) = unit_block h" "GetState (Client (unit_client h)) s = Inr unit_state"
  "Spec (unit_client h) = sample_spec" "WithFinality (unit_client h)"
  "Genesis (unit_client h) = \<lparr>GenesisTime = 0, GenesisValidatorsRoot = zero_hash\<rparr>"
  by (simp_all add: unit_client_def sample_client_def)

lemma doc_strings:
  "EncodeHex doc_lib (Bytes r) = HashString doc_lib r" "HashString doc_lib r = HashString doc_lib r' \<longleftrightarrow> r = r'"
  "HashString doc_lib r \<noteq> ''9''" "HashString doc_lib r \<noteq> ''5''"
proof -
  have "inj_on (char_of \<circ> unat :: byte \<Rightarrow> char) UNIV"
  proof (rule inj_onI)
    fix a b :: byte assume "(char_of \<circ> unat) a = (char_of \<circ> unat) b"
    then have "of_char (char_of (unat a)) = (of_char (char_of (unat b)) :: nat)" by simp
    then show "a = b" by (simp add: word_unat_eq_iff)
  qed
  then have "map (char_of \<circ> unat) xs = map (char_of \<circ> unat) ys \<longleftrightarrow> xs = ys" for xs ys :: "byte list"
    by (metis inj_on_subset inj_on_map_eq_map subset_UNIV)
  then show "HashString doc_lib r = HashString doc_lib r' \<longleftrightarrow> r = r'"
    by (simp add: doc_lib_def Bytes_eq_iff)
qed (simp_all add: doc_lib_def)

lemma plain_header_eq: "ConvertToHeader doc_lib (plain_block s p h) = Inr (plain_header s p h)"
proof -
  have "MustHashTreeRoot doc_lib (BodyObj b) = Inr zero_hash" for b
    using MustHashTreeRoot_Inr [OF doc_lib_doc(1)] by (simp add: doc_lib_def doc_HashTreeRoot_def)
  then show ?thesis
    by (simp add: ConvertToHeader_def plain_block_def plain_header_def doc_lib_doc(1))
qed

lemma unit_block_simps:
  "unit_block h ''9'' = Inr (plain_block 9 (headerRoot (attested_header h)) h)"
  "unit_block h ''5'' = Inr (plain_block 5 zero_hash h)"
  "unit_block h (HashString doc_lib (headerRoot (attested_header h))) = Inr (plain_block 8 zero_hash h)"
  by (simp_all add: unit_block_def doc_strings)

lemma unit_finalized_block:
  obtains s p r where "unit_block h (HashString doc_lib (headerRoot finalized_header)) = Inr (plain_block s p r)"
    and "s \<in> {6, 8}"
proof (cases "headerRoot finalized_header = headerRoot (attested_header h)")
  case True
  then show ?thesis using that [of 8] unit_block_simps(3) by simp
next
  case False
  then show ?thesis using that [of 6] by (simp add: unit_block_def doc_strings)
qed

lemma unit_honest: "honest_node doc_lib (unit_client h)"
  unfolding honest_node_def
proof (intro conjI allI impI)
  fix i b assume "GetBlock (Client (unit_client h)) i = Inr b"
  then show "length (bd_SyncCommitteeBits (bk_Body b)) = 64"
    by (auto simp: unit_block_def plain_block_def split: if_splits)
next
  fix s st assume "GetState (Client (unit_client h)) s = Inr st"
  then show "committee_sizes (st_CurrentSyncCommittee st)" "length (cp_Root (st_FinalizedCheckpoint st)) = 32"
    using unit_committee_facts(1) by (auto simp: unit_state_def)
next
  fix r b hd
  assume a: "(GetBlock (Client (unit_client h)) (HashString doc_lib r) = Inr b
      \<or> GetBlock (Client (unit_client h)) (EncodeHex doc_lib (Bytes r)) = Inr b) \<and> ConvertToHeader doc_lib b = Inr hd"
  then have "unit_block h (HashString doc_lib r) = Inr b" by (simp add: doc_strings)
  then consider "r = headerRoot (attested_header h)" "b = plain_block 8 zero_hash h"
    | "r = headerRoot finalized_header" "b = plain_block 6 zero_hash zero_hash"
    by (auto simp: unit_block_def doc_strings split: if_splits)
  then show "ssz_header_root hd = r"
    using a unfolding headerRoot_mroot [symmetric] by cases (auto simp: plain_header_eq attested_header_def finalized_header_def)
qed

lemma full_bits: "signers doc_lib (replicate 64 255) n = filter (\<lambda>i. i < 512) [0 ..< n]" if "n \<le> 512"
proof -
  have "member_signed doc_lib (replicate 64 255) i = (i < 512)" if "i < n" for i
  proof -
    have i: "i < 512" using that \<open>n \<le> 512\<close> by simp
    have "(255 :: byte) = mask 8" by (simp add: mask_eq_exp_minus_1)
    then have "bit (255 :: byte) (i mod 8)" by (simp only: bit_mask_iff) simp
    then show ?thesis
      using i member_signed_bit [OF doc_lib_bits, of "replicate 64 255" i] by (simp add: bits_nth_def)
  qed
  then show ?thesis unfolding signers_def by (intro filter_cong) auto
qed

lemma unit_enough: "enough_signatures doc_lib (unit_client h) (plain_block s p r)"
proof -
  define n :: nat where "n = 512"
  have "length (signers doc_lib (replicate 64 255) n) = n"
    by (subst full_bits) (simp_all add: n_def [symmetric] filter_id_conv)
  then have "unat (BitsCount doc_lib (replicate 64 255)) = 512"
    using signers_count(1) [OF doc_lib_bits, of "replicate 64 255" n] by (simp add: n_def)
  then have "BitsCount doc_lib (replicate 64 255) = 512" by (simp add: word_unat_eq_iff)
  then show ?thesis
    by (simp add: enough_signatures_def plain_block_def MinSyncCommitteeParticipants_def sample_spec_def)
qed

lemma unit_choose: "choose_slot (\<lambda>_. 0) (unit_client h) 5 9 = Inr 9"
  by (simp add: choose_slot_def slots_per_period_def sample_spec_def Let_def)

lemma unit_answers: "answers (unit_client h)"
  by (simp add: answers_def block_at_def unit_block_def)

lemma unit_head: "find_head doc_lib (unit_client h) 9 = Inr (plain_block 9 (headerRoot (attested_header h)) h)"
  unfolding find_head_def
  by (subst head_loop_step)
    (simp add: skipped_def stop_at_def block_at_def numerals unit_block_simps unit_enough)

lemma unit_parts:
  obtains h t s p r where "\<forall>slot. GetBeaconState doc_lib (unit_client h) slot = Inr (unit_state, t)" and "tree_root t = h"
    and "\<forall>curSlot. \<exists>u0. prove_committee doc_lib unit_bls (unit_client h) curSlot
           (plain_block 9 (headerRoot (attested_header h)) h) (attested_header h) h = Inr u0"
    and "unit_block h (HashString doc_lib (headerRoot finalized_header)) = Inr (plain_block s p r)" and "s \<in> {6, 8}"
proof -
  obtain t where t: "\<And>h slot. GetBeaconState doc_lib (unit_client h) slot = Inr (unit_state, t)"
    using unit_GetBeaconState by blast
  define h where "h = tree_root t"
  let ?head = "plain_block 9 (headerRoot (attested_header h)) h"
  have cm: "st_CurrentSyncCommittee unit_state = unit_committee" by (simp add: unit_state_def)
  obtain cmt where cmt: "ConvertToSyncCommittee unit_bls (st_CurrentSyncCommittee unit_state) = Inr cmt"
    using unit_committee_facts(2) cm by auto
  obtain sig where sig: "MustDecodeSig unit_bls (replicate 96 1) = Inr sig"
    using fp_at_of [of 0 "replicate 192 1"] fp_at_of [of 48 "replicate 192 1"]
      fp_at_of [of 96 "replicate 192 1"] fp_at_of [of 144 "replicate 192 1"]
    by (simp add: MustDecodeSig_def SigToG2_def unit_bls_def)
  have signed: "signers doc_lib (bd_SyncCommitteeBits (bk_Body ?head)) 512 \<noteq> []"
  proof -
    define n :: nat where "n = 512"
    have "signers doc_lib (replicate 64 255) n = filter (\<lambda>i. i < 512) [0 ..< n]" by (rule full_bits) (simp add: n_def)
    moreover have "0 \<in> set (filter (\<lambda>i. i < 512) [0 ..< n])" by (simp add: n_def)
    ultimately have "signers doc_lib (replicate 64 255) n \<noteq> []" by (metis empty_iff list.set(1))
    then show ?thesis by (simp add: plain_block_def n_def)
  qed
  have fork: "length (FromHex doc_lib (BellatrixForkVersion (Spec (unit_client h)))) = 4"
    by (simp add: sample_spec_def doc_lib_def)
  have "\<exists>u. prove_committee doc_lib unit_bls (unit_client h) curSlot ?head (attested_header h) (tree_root t) = Inr u" for curSlot
  proof (rule prove_committee_run [OF doc_lib_doc(1,3) t _ cmt _ fork unit_keys(1) _ _ signed])
    show "committee_sizes (st_CurrentSyncCommittee unit_state)" using unit_committee_facts(1) cm by simp
    show "SyncCommitteeSize (Spec (unit_client h)) = 512" by (simp add: sample_spec_def)
    show "MustDecodeSig unit_bls (bd_SyncCommitteeSignature (bk_Body ?head)) = Inr sig"
      using sig by (simp add: plain_block_def)
    show "Verify unit_bls r d pk sig" for r d pk by (simp add: Verify_def unit_bls_def Let_def)
  qed
  then have "\<forall>curSlot. \<exists>u. prove_committee doc_lib unit_bls (unit_client h) curSlot ?head (attested_header h) h = Inr u"
    unfolding h_def by blast
  then show ?thesis using that t h_def unit_finalized_block [of h] by metis
qed

text \<open>What the node answers to the requests of \<^verbatim>\<open>MakeUpdate\<close> at slots 5 and 9.\<close>

lemma unit_answered:
  assumes "unit_block h (HashString doc_lib (headerRoot finalized_header)) = Inr (plain_block s p r)"
  shows "GetBlock (Client (unit_client h)) (HashString doc_lib (BytesToHash doc_lib (bk_ParentRoot
           (plain_block 9 (headerRoot (attested_header h)) h)))) = Inr (plain_block 8 zero_hash h)"
    and "ConvertToHeader doc_lib (plain_block 8 zero_hash h) = Inr (attested_header h)"
    and "block_at (unit_client h) 5 = Inr (plain_block 5 zero_hash h)"
    and "block_at (unit_client h) 9 = Inr (plain_block 9 (headerRoot (attested_header h)) h)"
    and "BytesToHash doc_lib (bk_StateRoot (plain_block s' p' h)) = h"
    and "GetBlock (Client (unit_client h)) (EncodeHex doc_lib (cp_Root (st_FinalizedCheckpoint unit_state)))
        = Inr (plain_block s p r)"
proof -
  have parent: "BytesToHash doc_lib (bk_ParentRoot (plain_block 9 (headerRoot (attested_header h)) h)) = headerRoot (attested_header h)"
    by (simp add: plain_block_def doc_lib_doc(1))
  show "GetBlock (Client (unit_client h)) (HashString doc_lib (BytesToHash doc_lib (bk_ParentRoot
      (plain_block 9 (headerRoot (attested_header h)) h)))) = Inr (plain_block 8 zero_hash h)"
    unfolding parent by (simp add: unit_block_simps)
  show "ConvertToHeader doc_lib (plain_block 8 zero_hash h) = Inr (attested_header h)"
    by (simp add: plain_header_eq attested_header_def)
  show "GetBlock (Client (unit_client h)) (EncodeHex doc_lib (cp_Root (st_FinalizedCheckpoint unit_state)))
      = Inr (plain_block s p r)" using assms by (simp add: unit_state_def doc_strings)
  show "BytesToHash doc_lib (bk_StateRoot (plain_block s' p' h)) = h" by (simp add: plain_block_def doc_lib_doc(1))
qed (simp_all add: block_at_def numerals unit_block_simps)

text \<open>The client at slot 5 makes an update signed in slot 9, with finality; at slot 9 there is nothing newer.\<close>

lemma unit_update:
  assumes "\<And>h. choose_slot since (unit_client h) 5 target = Inr 9"
  obtains h t u where "\<And>slot. GetBeaconState doc_lib (unit_client h) slot = Inr (unit_state, t)" and "tree_root t = h"
    and "MakeUpdate doc_lib unit_bls since (unit_client h) 5 target = Inr (Some u)"
    and "up_SignatureSlot u = 9" and "up_AttestedHeader u = attested_header h" and "hd_Slot (up_FinalizedHeader u) \<in> {6, 8}"
proof -
  obtain h t s p r where parts: "\<forall>slot. GetBeaconState doc_lib (unit_client h) slot = Inr (unit_state, t)" "tree_root t = h"
    "\<forall>curSlot. \<exists>u0. prove_committee doc_lib unit_bls (unit_client h) curSlot
       (plain_block 9 (headerRoot (attested_header h)) h) (attested_header h) h = Inr u0"
    "unit_block h (HashString doc_lib (headerRoot finalized_header)) = Inr (plain_block s p r)" "s \<in> {6, 8}"
    by (rule unit_parts)
  note node = unit_answered [OF parts(4)]
  obtain u0 where u0: "prove_committee doc_lib unit_bls (unit_client h) 5
      (plain_block 9 (headerRoot (attested_header h)) h) (attested_header h)
      (BytesToHash doc_lib (bk_StateRoot (plain_block 5 zero_hash h))) = Inr u0"
    unfolding node(5) using parts(3) by blast
  have bits: "BitsBytes doc_lib (bd_SyncCommitteeBits (bk_Body (plain_block 9 (headerRoot (attested_header h)) h))) = replicate 64 255"
    by (simp add: plain_block_def doc_lib_def)
  have gt: "5 < s" using parts(5) by auto
  have "\<exists>u. MakeUpdate doc_lib unit_bls since (unit_client h) 5 target = Inr (Some u)
      \<and> up_SignatureSlot u = bk_Slot (plain_block 9 (headerRoot (attested_header h)) h)
      \<and> up_AttestedHeader u = attested_header h \<and> up_FinalizedHeader u = plain_header s p r"
    by (rule MakeUpdate_run [OF assms unit_head node(1-3) u0 _ parts(1) [rule_format] _ node(6) plain_header_eq _ _ bits])
      (use parts(2) gt in \<open>simp_all add: attested_header_def plain_header_def sample_spec_def\<close>)
  then show ?thesis
    using that [OF parts(1) [rule_format] parts(2)] parts(5) by (auto simp: plain_block_def plain_header_def)
qed

lemma unit_nothing_new:
  assumes "\<And>h. choose_slot since (unit_client h) 9 target = Inr 9"
  obtains h where "MakeUpdate doc_lib unit_bls since (unit_client h) 9 target = Inr None"
proof -
  obtain h t s p r where parts: "\<forall>slot. GetBeaconState doc_lib (unit_client h) slot = Inr (unit_state, t)" "tree_root t = h"
    "\<forall>curSlot. \<exists>u0. prove_committee doc_lib unit_bls (unit_client h) curSlot
       (plain_block 9 (headerRoot (attested_header h)) h) (attested_header h) h = Inr u0"
    "unit_block h (HashString doc_lib (headerRoot finalized_header)) = Inr (plain_block s p r)" "s \<in> {6, 8}"
    by (rule unit_parts)
  note node = unit_answered [OF parts(4)]
  obtain u0 where u0: "prove_committee doc_lib unit_bls (unit_client h) 9
      (plain_block 9 (headerRoot (attested_header h)) h) (attested_header h)
      (BytesToHash doc_lib (bk_StateRoot (plain_block 9 (headerRoot (attested_header h)) h))) = Inr u0"
    unfolding node(5) using parts(3) by blast
  show ?thesis
    by (rule that, rule MakeUpdate_nil [OF assms unit_head node(1,2,4) u0
        _ parts(1) [rule_format] _ node(6) plain_header_eq])
      (use parts(2,5) in \<open>auto simp: attested_header_def plain_header_def\<close>)
qed

lemmas unit_MakeUpdate = unit_update [OF unit_choose]

subsection \<open>The theorems at this run\<close>

theorem find_head_last_witness:
  "\<forall>h. find_head doc_lib (unit_client h) 10 = Inr (plain_block 9 (headerRoot (attested_header h)) h)"
proof
  fix h
  have ten: "FormatUint 10 = ''10''" by code_simp
  have "''10'' \<noteq> HashString doc_lib r" for r by (simp add: doc_lib_def)
  then have "skipped doc_lib (unit_client h) 10"
    by (simp add: skipped_def block_at_def ten unit_block_def)
  then have "\<exists>k. (\<forall>j < k. skipped doc_lib (unit_client h) (10 - of_nat j))
      \<and> block_at (unit_client h) (10 - of_nat k) = Inr (plain_block 9 (headerRoot (attested_header h)) h)
      \<and> enough_signatures doc_lib (unit_client h) (plain_block 9 (headerRoot (attested_header h)) h)"
    by (intro exI [of _ 1]) (simp add: block_at_def numerals unit_block_simps unit_enough)
  then show "find_head doc_lib (unit_client h) 10 = Inr (plain_block 9 (headerRoot (attested_header h)) h)"
    using find_head_last [OF unit_answers] by blast
qed

theorem MakeUpdate_checked_witness:
  "\<exists>h u head. MakeUpdate doc_lib unit_bls (\<lambda>_. 0) (unit_client h) 5 9 = Inr (Some u)
    \<and> find_head doc_lib (unit_client h) 9 = Inr head \<and> up_SignatureSlot u = bk_Slot head
    \<and> 5 < hd_Slot (up_FinalizedHeader u)"
proof -
  obtain h u where u: "MakeUpdate doc_lib unit_bls (\<lambda>_. 0) (unit_client h) 5 9 = Inr (Some u)"
    using unit_MakeUpdate by metis
  from MakeUpdate_checked [OF u] u unit_choose [of h] show ?thesis by auto
qed

theorem MakeUpdate_finality_accepted_witness:
  "\<exists>h u. MakeUpdate doc_lib unit_bls (\<lambda>_. 0) (unit_client h) 5 9 = Inr (Some u)
    \<and> restoreMerkleRoot (headerRoot finalized_header) FINALIZED_ROOT_INDEX (up_FinalityBranch u)
        = Some (hd_StateRoot (up_AttestedHeader u))"
proof -
  obtain h u where u: "MakeUpdate doc_lib unit_bls (\<lambda>_. 0) (unit_client h) 5 9 = Inr (Some u)"
    using unit_MakeUpdate by metis
  have "BytesToHash doc_lib (cp_Root (st_FinalizedCheckpoint unit_state)) = headerRoot finalized_header"
    by (simp add: unit_state_def doc_lib_doc(1))
  moreover have "length (cp_Root (st_FinalizedCheckpoint unit_state)) = 32" by (simp add: unit_state_def)
  ultimately show ?thesis
    using MakeUpdate_finality_accepted [OF u _ doc_lib_doc(1,3), of unit_state] u by auto
qed

theorem MakeUpdate_current_committee_witness:
  "\<exists>h u. MakeUpdate doc_lib unit_bls (\<lambda>_. 0) (unit_client h) 5 9 = Inr (Some u)
    \<and> restoreMerkleRoot (ssz_committee_root unit_committee) CURRENT_SYNC_COMMITTEE_INDEX (up_SyncCommitteeBranch u) = Some h"
proof -
  obtain h t u where u: "MakeUpdate doc_lib unit_bls (\<lambda>_. 0) (unit_client h) 5 9 = Inr (Some u)"
    and t: "GetBeaconState doc_lib (unit_client h) 5 = Inr (unit_state, t)"
    using unit_MakeUpdate by metis
  have cm: "st_CurrentSyncCommittee unit_state = unit_committee" by (simp add: unit_state_def)
  obtain b where b: "block_at (unit_client h) 5 = Inr b" "restoreMerkleRoot (ssz_committee_root unit_committee)
      CURRENT_SYNC_COMMITTEE_INDEX (up_SyncCommitteeBranch u) = Some (BytesToHash doc_lib (bk_StateRoot b))"
    using MakeUpdate_current_committee [OF u doc_lib_doc(1,3) t, unfolded cm] unit_committee_facts(1) by blast
  then have "b = plain_block 5 zero_hash h" by (simp add: block_at_def numerals unit_block_simps)
  with b u show ?thesis by (auto simp: plain_block_def doc_lib_doc(1))
qed



end
