(* ===== verification/Tx_Sender.thy ===== *)
theory Tx_Sender
  imports Go_Values
begin

section \<open>Sending transactions (oracle/sender/sender.go)\<close>

text \<open>
  The execution-layer node and the keystore are outside the repository. A node has a state \<open>'w\<close> (the
  chain, its pool, the time that passes while the oracle waits), which every request may change: a call
  is a function from the state before to a result and the state after. \<open>SendTx\<close> mutates its two
  pointer arguments, so the sender and the transaction are results as well. The polling loop of
  \<open>WaitReceipt\<close> need not end.
\<close>

type_synonym address = "byte list"
type_synonym ('w, 'a) io = "'w \<Rightarrow> 'a go \<times> 'w"

definition bind_io :: "('w, 'a) io \<Rightarrow> ('a \<Rightarrow> ('w, 'b) io) \<Rightarrow> ('w, 'b) io" where
  "bind_io m f = (\<lambda>w. case m w of (Inl e, w') \<Rightarrow> (Inl e, w') | (Inr a, w') \<Rightarrow> f a w')"

definition pure_io :: "'a go \<Rightarrow> ('w, 'a) io" where
  "pure_io m = (\<lambda>w. (m, w))"

definition map_res :: "('a go \<Rightarrow> 'b go) \<Rightarrow> ('w, 'a) io \<Rightarrow> ('w, 'b) io" where
  "map_res f m = (\<lambda>w. let (r, w') = m w in (f r, w'))"

lemma bind_io_simps [simp]:
  "m w = (Inl e, w') \<Longrightarrow> bind_io m f w = (Inl e, w')" "m w = (Inr a, w') \<Longrightarrow> bind_io m f w = f a w'"
  by (simp_all add: bind_io_def)

lemma bind_io_eq_Inr:
  "bind_io m f w = (Inr b, w'') \<longleftrightarrow> (\<exists>a w'. m w = (Inr a, w') \<and> f a w' = (Inr b, w''))"
  by (auto simp: bind_io_def split: prod.splits sum.splits)

lemma pure_io_apply [simp]: "pure_io m w = (m, w)"
  by (simp add: pure_io_def)

lemma map_res_apply: "m w = (r, w') \<Longrightarrow> map_res f m w = (f r, w')"
  by (simp add: map_res_def)

lemma map_res_eq: "map_res f m w = (r, w') \<longleftrightarrow> (\<exists>r'. m w = (r', w') \<and> f r' = r)"
  by (auto simp: map_res_def split: prod.splits)

subsection \<open>Transactions, logs and receipts\<close>

record DynamicFeeTx =
  tx_ChainID :: "int option"
  tx_Nonce :: u64
  tx_GasTipCap :: "int option"
  tx_GasFeeCap :: "int option"
  tx_Gas :: u64
  tx_To :: "address option"
  tx_Value :: "int option"
  tx_Data :: "byte list"
  tx_AccessList :: "byte list"

record CallMsg =
  cm_From :: "address option"
  cm_To :: "address option"
  cm_GasFeeCap :: "int option"
  cm_GasTipCap :: "int option"
  cm_Value :: "int option"
  cm_Data :: "byte list"
  cm_AccessList :: "byte list"

record Log =
  lg_Address :: address
  lg_Topics :: "hash list"
  lg_Data :: "byte list"
  lg_BlockNumber :: u64
  lg_BlockHash :: hash
  lg_TxIndex :: u64
  lg_Index :: u64

record Receipt =
  rc_TxHash :: hash
  rc_BlockNumber :: "int option"
  rc_Status :: u64
  rc_GasUsed :: u64
  rc_Logs :: "Log list"

text \<open>The literal \<^verbatim>\<open>&types.DynamicFeeTx{To: &to, Data: data}\<close>\<close>

definition new_tx :: "address \<Rightarrow> byte list \<Rightarrow> DynamicFeeTx" where
  "new_tx to data =
     \<lparr>tx_ChainID = None, tx_Nonce = 0, tx_GasTipCap = None, tx_GasFeeCap = None, tx_Gas = 0, tx_To = Some to,
      tx_Value = None, tx_Data = data, tx_AccessList = []\<rparr>"

subsection \<open>The node and the wallet\<close>

record ('w, 'tx) eth1 =
  ChainID :: "('w, int) io"
  NonceAt :: "address \<Rightarrow> ('w, u64) io"
  EstimateGas :: "CallMsg \<Rightarrow> ('w, u64) io"
  SendTransaction :: "'tx \<Rightarrow> ('w, unit) io"
  TransactionReceipt :: "hash \<Rightarrow> ('w, Receipt) io"
  CallContract :: "CallMsg \<Rightarrow> ('w, byte list) io"
  FilterLogs :: "address list \<Rightarrow> hash list option list \<Rightarrow> ('w, Log list) io"
  BlockByHash :: "hash \<Rightarrow> ('w, hash list) io"           \<comment> \<open>the hashes of the block's transactions\<close>
  Wait :: "'w \<Rightarrow> goerr option \<times> 'w"                      \<comment> \<open>five seconds, or the context's error\<close>

record ('key, 'tx) wallet =
  ReadKeystore :: "string \<Rightarrow> byte list go"
  DecryptKey :: "byte list \<Rightarrow> string \<Rightarrow> 'key go"
  KeyAddress :: "'key \<Rightarrow> address"
  SignNewTx :: "'key \<Rightarrow> int \<Rightarrow> DynamicFeeTx \<Rightarrow> 'tx go"   \<comment> \<open>the London signer of a chain id\<close>
  TxHash :: "'tx \<Rightarrow> hash"

subsection \<open>TxSender\<close>

record 'key TxSender =
  ts_ChainID :: int
  MaxFeePerGas :: int
  MaxTipPerGas :: int
  Nonce :: u64
  acc :: 'key
  signer :: int

definition NewTxSender ::
  "('w, 'tx) eth1 \<Rightarrow> ('key, 'tx) wallet \<Rightarrow> string \<Rightarrow> string \<Rightarrow> ('w, 'key TxSender) io"
where
  "NewTxSender E W keystorePath keystorePassword =
     bind_io (pure_io (wrap_err ''can't read keystore file'' (ReadKeystore W keystorePath))) (\<lambda>file.
     bind_io (pure_io (wrap_err ''can't decrypt keystore file'' (DecryptKey W file keystorePassword))) (\<lambda>k.
     bind_io (map_res (wrap_err ''can't get chain id'') (ChainID E)) (\<lambda>chainID.
     bind_io (map_res (wrap_err ''can't get account starting nonce'') (NonceAt E (KeyAddress W k))) (\<lambda>nonce.
     pure_io (Inr \<lparr>ts_ChainID = chainID, MaxFeePerGas = 1000000000, MaxTipPerGas = 1000000000, Nonce = nonce,
                   acc = k, signer = chainID\<rparr>)))))"

subsection \<open>SendTx\<close>

text \<open>The assignments before the gas estimation.\<close>

definition fill_tx :: "'key TxSender \<Rightarrow> DynamicFeeTx \<Rightarrow> DynamicFeeTx" where
  "fill_tx s tx =
     tx\<lparr>tx_ChainID := Some (ts_ChainID s),
        tx_GasFeeCap := (if tx_GasFeeCap tx = None then Some (MaxFeePerGas s) else tx_GasFeeCap tx),
        tx_GasTipCap := (if tx_GasTipCap tx = None then Some (MaxTipPerGas s) else tx_GasTipCap tx),
        tx_Nonce := Nonce s\<rparr>"

definition gas_msg :: "address \<Rightarrow> DynamicFeeTx \<Rightarrow> CallMsg" where
  "gas_msg from_address tx =
     \<lparr>cm_From = Some from_address, cm_To = tx_To tx, cm_GasFeeCap = tx_GasFeeCap tx, cm_GasTipCap = tx_GasTipCap tx,
      cm_Value = tx_Value tx, cm_Data = tx_Data tx, cm_AccessList = tx_AccessList tx\<rparr>"

definition set_gas :: "('w, 'tx) eth1 \<Rightarrow> ('key, 'tx) wallet \<Rightarrow> 'key TxSender \<Rightarrow> DynamicFeeTx \<Rightarrow> ('w, DynamicFeeTx) io" where
  "set_gas E W s tx =
     (if tx_Gas tx = 0 then
        bind_io (map_res (wrap_err ''gas estimation failed'') (EstimateGas E (gas_msg (KeyAddress W (acc s)) tx)))
          (\<lambda>gas. pure_io (Inr (tx\<lparr>tx_Gas := gas * 3 div 2\<rparr>)))
      else pure_io (Inr tx))"

definition SendTx ::
  "('w, 'tx) eth1 \<Rightarrow> ('key, 'tx) wallet \<Rightarrow> 'key TxSender \<Rightarrow> DynamicFeeTx \<Rightarrow> 'w \<Rightarrow>
   'tx go \<times> 'key TxSender \<times> DynamicFeeTx \<times> 'w"
where
  "SendTx E W s tx w =
     (let tx = fill_tx s tx in
      case set_gas E W s tx w of
        (Inl e, w) \<Rightarrow> (Inl e, s, tx, w)
      | (Inr tx, w) \<Rightarrow>
          (case SignNewTx W (acc s) (signer s) tx of
             Inl e \<Rightarrow> (Inl e, s, tx, w)
           | Inr signedTx \<Rightarrow>
               (case SendTransaction E signedTx w of
                  (Inl e, w) \<Rightarrow> (Inl e, s, tx, w)
                | (Inr _, w) \<Rightarrow> (Inr signedTx, s\<lparr>Nonce := Nonce s + 1\<rparr>, tx, w))))"

subsection \<open>WaitReceipt\<close>

partial_function (option) WaitReceipt_loop :: "('w, 'tx) eth1 \<Rightarrow> hash \<Rightarrow> 'w \<Rightarrow> (Receipt go \<times> 'w) option" where
  "WaitReceipt_loop E h w =
     (case TransactionReceipt E h w of
        (Inr receipt, w) \<Rightarrow> Some (Inr receipt, w)
      | (Inl (Err e), w) \<Rightarrow>
          (if errors_Is e EthNotFound then
             (case Wait E w of
                (Some e, w) \<Rightarrow> Some (Inl (Err e), w)
              | (None, w) \<Rightarrow> WaitReceipt_loop E h w)
           else Some (Inl (Err e), w))
      | (Inl f, w) \<Rightarrow> Some (Inl f, w))"

definition WaitReceipt :: "('w, 'tx) eth1 \<Rightarrow> ('key, 'tx) wallet \<Rightarrow> 'tx \<Rightarrow> ('w, Receipt) io" where
  "WaitReceipt E W tx w =
     (case WaitReceipt_loop E (TxHash W tx) w of None \<Rightarrow> (Inl Hang, w) | Some r \<Rightarrow> r)"

subsection \<open>What SendTx does\<close>

lemma fill_tx_fields [simp]:
  "tx_ChainID (fill_tx s tx) = Some (ts_ChainID s)" "tx_Nonce (fill_tx s tx) = Nonce s"
  "tx_Gas (fill_tx s tx) = tx_Gas tx" "tx_To (fill_tx s tx) = tx_To tx" "tx_Value (fill_tx s tx) = tx_Value tx"
  "tx_Data (fill_tx s tx) = tx_Data tx" "tx_AccessList (fill_tx s tx) = tx_AccessList tx"
  "tx_GasFeeCap (fill_tx s tx) = Some (case tx_GasFeeCap tx of None \<Rightarrow> MaxFeePerGas s | Some v \<Rightarrow> v)"
  "tx_GasTipCap (fill_tx s tx) = Some (case tx_GasTipCap tx of None \<Rightarrow> MaxTipPerGas s | Some v \<Rightarrow> v)"
  by (auto simp: fill_tx_def split: option.splits)

lemma set_gas_Inr:
  "set_gas E W s tx w = (Inr tx', w') \<longleftrightarrow>
     (if tx_Gas tx = 0
      then \<exists>gas. EstimateGas E (gas_msg (KeyAddress W (acc s)) tx) w = (Inr gas, w') \<and> tx' = tx\<lparr>tx_Gas := gas * 3 div 2\<rparr>
      else tx' = tx \<and> w' = w)"
  by (auto simp: set_gas_def bind_io_eq_Inr map_res_eq)

text \<open>The successful sends: what was handed to the node.\<close>

lemma SendTx_Inr:
  assumes "SendTx E W s tx w = (Inr stx, s', tx', w')"
  shows "s' = s\<lparr>Nonce := Nonce s + 1\<rparr>" and "SignNewTx W (acc s) (signer s) tx' = Inr stx"
    and "\<exists>w1. set_gas E W s (fill_tx s tx) w = (Inr tx', w1) \<and> SendTransaction E stx w1 = (Inr (), w')"
  using assms by (auto simp: SendTx_def Let_def split: prod.splits sum.splits)

lemma SendTx_Inl: "SendTx E W s tx w = (Inl e, s', tx', w') \<Longrightarrow> s' = s"
  by (auto simp: SendTx_def Let_def split: prod.splits sum.splits)

text \<open>The transaction that is signed, for a gas limit.\<close>

definition sent_tx :: "'key TxSender \<Rightarrow> DynamicFeeTx \<Rightarrow> u64 \<Rightarrow> DynamicFeeTx" where
  "sent_tx s tx gas = \<lparr>tx_ChainID = Some (ts_ChainID s), tx_Nonce = Nonce s,
     tx_GasTipCap = Some (case tx_GasTipCap tx of None \<Rightarrow> MaxTipPerGas s | Some v \<Rightarrow> v),
     tx_GasFeeCap = Some (case tx_GasFeeCap tx of None \<Rightarrow> MaxFeePerGas s | Some v \<Rightarrow> v),
     tx_Gas = gas, tx_To = tx_To tx, tx_Value = tx_Value tx, tx_Data = tx_Data tx,
     tx_AccessList = tx_AccessList tx\<rparr>"

text \<open>C22. When \<^verbatim>\<open>SendTx\<close> succeeds, the signed transaction it handed to the node has the sender's chain id and
  nonce, the caller's recipient, value, data and access list, the caller's fee caps or else the sender's
  defaults, and the caller's gas limit or else the estimate times three halves; and the sender's nonce has
  advanced by one. When it fails the sender is unchanged, so the nonce is used again.\<close>

theorem SendTx_outcome:
  assumes "SendTx E W s tx w = (r, s', tx', w')"
  shows "case r of
      Inl e \<Rightarrow> s' = s
    | Inr stx \<Rightarrow>
        s' = s\<lparr>Nonce := Nonce s + 1\<rparr>
      \<and> (\<exists>w1. SendTransaction E stx w1 = (Inr (), w'))
      \<and> (\<exists>gas. SignNewTx W (acc s) (signer s) (sent_tx s tx gas) = Inr stx
          \<and> (if tx_Gas tx \<noteq> 0 then gas = tx_Gas tx
             else \<exists>g w1. EstimateGas E (gas_msg (KeyAddress W (acc s)) (fill_tx s tx)) w = (Inr g, w1) \<and> gas = g * 3 div 2))"
proof (cases r)
  case (Inl e)
  with assms show ?thesis using SendTx_Inl by simp
next
  case (Inr stx)
  note sent = SendTx_Inr [OF assms [unfolded Inr]]
  obtain w1 where w1: "set_gas E W s (fill_tx s tx) w = (Inr tx', w1)" "SendTransaction E stx w1 = (Inr (), w')"
    using sent(3) by blast
  have eq: "tx' = (fill_tx s tx)\<lparr>tx_Gas := tx_Gas tx'\<rparr>" using w1(1) by (auto simp: set_gas_Inr split: if_splits)
  have "tx' = sent_tx s tx (tx_Gas tx')"
    by (subst eq) (rule DynamicFeeTx.equality, simp_all add: sent_tx_def)
  moreover have "if tx_Gas tx \<noteq> 0 then tx_Gas tx' = tx_Gas tx
      else \<exists>g w1. EstimateGas E (gas_msg (KeyAddress W (acc s)) (fill_tx s tx)) w = (Inr g, w1) \<and> tx_Gas tx' = g * 3 div 2"
    using w1(1) by (auto simp: set_gas_Inr split: if_splits)
  ultimately show ?thesis
    unfolding Inr using sent(1,2) w1(2) by (simp only: sum.case) metis
qed

text \<open>C36. The gas limit \<^verbatim>\<open>SendTx\<close> derives from an estimate \<open>g\<close> is \<open>3 g div 2\<close>, at least the estimate, as
  long as \<open>3 g\<close> fits in 64 bits; beyond that the multiplication wraps, and the limit is below the estimate.\<close>

theorem SendTx_gas_limit:
  assumes "SendTx E W s tx w = (Inr stx, s', tx', w')" and "tx_Gas tx = 0"
    and "EstimateGas E (gas_msg (KeyAddress W (acc s)) (fill_tx s tx)) w = (Inr g, w1)"
  shows "(3 * unat g < 2 ^ 64 \<longrightarrow> unat (tx_Gas tx') = 3 * unat g div 2 \<and> unat g \<le> unat (tx_Gas tx'))
    \<and> (2 ^ 64 \<le> 3 * unat g \<longrightarrow> tx_Gas tx' < g)"
proof -
  have gas: "tx_Gas tx' = g * 3 div 2"
    using SendTx_Inr(3) [OF assms(1)] assms(2,3) by (auto simp: set_gas_Inr)
  have three: "unat (g * 3) = 3 * unat g mod 2 ^ 64" by (simp add: unat_word_ariths mult.commute)
  have limit: "unat (tx_Gas tx') = 3 * unat g mod 2 ^ 64 div 2" by (simp only: gas unat_div three unat_numeral) simp
  show ?thesis
  proof (cases "3 * unat g < 2 ^ 64")
    case True
    then have "unat (tx_Gas tx') = 3 * unat g div 2" using limit by simp
    moreover have "unat g \<le> 3 * unat g div 2" by simp
    ultimately show ?thesis using True by simp
  next
    case False
    have g: "unat g < 2 ^ 64" using unsigned_less [of g, where 'a = nat] by simp
    define q r where "q = 3 * unat g div 2 ^ 64" and "r = 3 * unat g mod 2 ^ 64"
    have split: "3 * unat g = q * 2 ^ 64 + r" and r: "r < 2 ^ 64" by (simp_all add: q_def r_def)
    have "1 \<le> q" using False split r by (cases q) auto
    then have "r + 2 ^ 64 \<le> 3 * unat g" using split by (cases q) auto
    then have "r div 2 < unat g" using g by linarith
    then have "unat (tx_Gas tx') < unat g" using limit by (simp add: r_def)
    then show ?thesis using False by (simp add: word_less_nat_alt)
  qed
qed

subsection \<open>What WaitReceipt does\<close>

text \<open>The node's state after one unsuccessful poll, if the loop goes on.\<close>

definition pending :: "('w, 'tx) eth1 \<Rightarrow> hash \<Rightarrow> 'w \<Rightarrow> 'w option" where
  "pending E h w =
     (case TransactionReceipt E h w of
        (Inl (Err e), w) \<Rightarrow>
          (if errors_Is e EthNotFound then (case Wait E w of (None, w) \<Rightarrow> Some w | _ \<Rightarrow> None) else None)
      | _ \<Rightarrow> None)"

fun pending_n :: "('w, 'tx) eth1 \<Rightarrow> hash \<Rightarrow> nat \<Rightarrow> 'w \<Rightarrow> 'w option" where
  "pending_n E h 0 w = Some w"
| "pending_n E h (Suc k) w = (case pending E h w of None \<Rightarrow> None | Some w' \<Rightarrow> pending_n E h k w')"

lemma pending_n_last:
  "pending_n E h (Suc k) w = (case pending_n E h k w of None \<Rightarrow> None | Some w' \<Rightarrow> pending E h w')"
proof (induction k arbitrary: w)
  case (Suc k)
  show ?case
  proof (cases "pending E h w")
    case (Some v)
    then show ?thesis using Suc.IH [of v] by (simp only: pending_n.simps(2) option.case)
  qed simp
qed (simp split: option.splits)

lemma WaitReceipt_loop_pending:
  "pending E h w = Some w' \<Longrightarrow> WaitReceipt_loop E h w = WaitReceipt_loop E h w'"
  by (subst WaitReceipt_loop.simps)
    (auto simp: pending_def split: prod.splits sum.splits failure.splits if_splits option.splits)

lemma WaitReceipt_loop_pending_n:
  "pending_n E h k w = Some w' \<Longrightarrow> WaitReceipt_loop E h w = WaitReceipt_loop E h w'"
  by (induction k arbitrary: w) (auto split: option.splits dest: WaitReceipt_loop_pending)

lemma WaitReceipt_loop_stop:
  "pending E h w = None \<Longrightarrow> \<exists>r w'. WaitReceipt_loop E h w = Some (r, w')
     \<and> (\<forall>rc v. TransactionReceipt E h w = (Inr rc, v) \<longleftrightarrow> r = Inr rc \<and> v = w')"
  by (subst WaitReceipt_loop.simps)
    (auto simp: pending_def split: prod.splits sum.splits failure.splits if_splits option.splits)

lemma WaitReceipt_loop_Some:
  assumes "WaitReceipt_loop E h w = Some r"
  shows "\<exists>k w1. pending_n E h k w = Some w1 \<and> pending E h w1 = None"
  using assms
proof (rule WaitReceipt_loop.raw_induct [rotated,
      where P = "\<lambda>E h w r. \<exists>k w1. pending_n E h k w = Some w1 \<and> pending E h w1 = None"])
  fix loop and E :: "('a, 'b) eth1" and h w r
  assume IH: "\<And>E h w r. loop E h w = Some r \<Longrightarrow> \<exists>k w1. pending_n E h k w = Some w1 \<and> pending E h w1 = None"
    and eq: "(case TransactionReceipt E h w of
        (Inr receipt, w) \<Rightarrow> Some (Inr receipt, w)
      | (Inl (Err e), w) \<Rightarrow>
          (if errors_Is e EthNotFound then
             (case Wait E w of (Some e, w) \<Rightarrow> Some (Inl (Err e), w) | (None, w) \<Rightarrow> loop E h w)
           else Some (Inl (Err e), w))
      | (Inl f, w) \<Rightarrow> Some (Inl f, w)) = Some r"
  show "\<exists>k w1. pending_n E h k w = Some w1 \<and> pending E h w1 = None"
  proof (cases "pending E h w")
    case None
    then show ?thesis by (intro exI [of _ 0]) simp
  next
    case (Some w')
    then have "loop E h w' = Some r"
      using eq by (auto simp: pending_def split: prod.splits sum.splits failure.splits if_splits option.splits)
    from IH [OF this] obtain k w1 where "pending_n E h k w' = Some w1" "pending E h w1 = None" by blast
    with Some show ?thesis by (intro exI [of _ "Suc k"]) auto
  qed
qed

text \<open>C37. \<^verbatim>\<open>WaitReceipt\<close> returns a receipt exactly when, after some number of polls that all answered "not
  found", a poll answers with it; and if every poll answers "not found" it never returns: there is no
  deadline.\<close>

theorem WaitReceipt_polls:
  "((\<exists>w'. WaitReceipt E W tx w = (Inr rc, w')) \<longleftrightarrow>
      (\<exists>k w1 w'. pending_n E (TxHash W tx) k w = Some w1 \<and> TransactionReceipt E (TxHash W tx) w1 = (Inr rc, w')))
   \<and> ((\<forall>k. pending_n E (TxHash W tx) k w \<noteq> None) \<longrightarrow> WaitReceipt E W tx w = (Inl Hang, w))"
proof (cases "WaitReceipt_loop E (TxHash W tx) w")
  case None
  have "pending E (TxHash W tx) w1 \<noteq> None" if "pending_n E (TxHash W tx) k w = Some w1" for k w1
    using WaitReceipt_loop_pending_n [OF that] WaitReceipt_loop_stop None by (metis option.distinct(1))
  moreover have "pending E (TxHash W tx) w1 = None" if "TransactionReceipt E (TxHash W tx) w1 = (Inr rc, w')" for w1 w'
    using that by (simp add: pending_def)
  ultimately have "\<not> (\<exists>k w1 w'. pending_n E (TxHash W tx) k w = Some w1
      \<and> TransactionReceipt E (TxHash W tx) w1 = (Inr rc, w'))" by metis
  then show ?thesis using None by (simp add: WaitReceipt_def)
next
  case (Some res)
  then obtain k w1 where k: "pending_n E (TxHash W tx) k w = Some w1" "pending E (TxHash W tx) w1 = None"
    using WaitReceipt_loop_Some [OF Some] by blast
  obtain r w' where r: "WaitReceipt_loop E (TxHash W tx) w1 = Some (r, w')"
    "\<And>rc v. TransactionReceipt E (TxHash W tx) w1 = (Inr rc, v) \<longleftrightarrow> r = Inr rc \<and> v = w'"
    using WaitReceipt_loop_stop [OF k(2)] by blast
  have run: "WaitReceipt E W tx w = (r, w')"
    using WaitReceipt_loop_pending_n [OF k(1)] r(1) by (simp add: WaitReceipt_def)
  have last: "v = w1" if "pending_n E (TxHash W tx) j w = Some v" "pending E (TxHash W tx) v = None" for j v
    using that k
  proof (induction j arbitrary: k w)
    case 0
    then show ?case by (cases k) auto
  next
    case (Suc j)
    then show ?case by (cases k) (auto split: option.splits)
  qed
  have "pending_n E (TxHash W tx) (Suc k) w = None"
    unfolding pending_n_last using k by simp
  moreover have "pending E (TxHash W tx) v = None" if "TransactionReceipt E (TxHash W tx) v = (Inr rc, w'')" for v w''
    using that by (simp add: pending_def)
  then have "(\<exists>k w1 w'. pending_n E (TxHash W tx) k w = Some w1 \<and> TransactionReceipt E (TxHash W tx) w1 = (Inr rc, w'))
      \<longleftrightarrow> (\<exists>w'. TransactionReceipt E (TxHash W tx) w1 = (Inr rc, w'))"
    using last k(1) by metis
  then have "(\<exists>k w1 w'. pending_n E (TxHash W tx) k w = Some w1 \<and> TransactionReceipt E (TxHash W tx) w1 = (Inr rc, w'))
      \<longleftrightarrow> r = Inr rc"
    unfolding r(2) by blast
  ultimately show ?thesis unfolding run by blast
qed

subsection \<open>A node to instantiate the theorems with\<close>

text \<open>The state counts the requests that change it; a receipt appears after two waits, or never.\<close>

definition sample_receipt :: "u64 \<Rightarrow> Receipt" where
  "sample_receipt status =
     \<lparr>rc_TxHash = zero_hash, rc_BlockNumber = Some 3, rc_Status = status, rc_GasUsed = 21000, rc_Logs = []\<rparr>"

definition sample_eth1 :: "bool \<Rightarrow> u64 \<Rightarrow> (nat, DynamicFeeTx) eth1" where
  "sample_eth1 mined status =
     \<lparr>ChainID = \<lambda>w. (Inr 1, w), NonceAt = \<lambda>_ w. (Inr 7, w), EstimateGas = \<lambda>_ w. (Inr 100, w),
      SendTransaction = \<lambda>_ w. (Inr (), w),
      TransactionReceipt = \<lambda>_ w. (if mined \<and> 2 \<le> w then Inr (sample_receipt status) else Inl (Err EthNotFound), w),
      CallContract = \<lambda>_ w. (Inr (replicate 31 0 @ [5]), w), FilterLogs = \<lambda>_ _ w. (Inr [], w),
      BlockByHash = \<lambda>_ w. (Inr [], w), Wait = \<lambda>w. (None, w + 1)\<rparr>"

definition sample_wallet :: "(unit, DynamicFeeTx) wallet" where
  "sample_wallet =
     \<lparr>ReadKeystore = \<lambda>_. Inr [], DecryptKey = \<lambda>_ _. Inr (), KeyAddress = \<lambda>_. replicate 20 9,
      SignNewTx = \<lambda>_ _ tx. Inr tx, TxHash = \<lambda>_. zero_hash\<rparr>"

definition sample_sender :: "unit TxSender" where
  "sample_sender =
     \<lparr>ts_ChainID = 1, MaxFeePerGas = 1000000000, MaxTipPerGas = 1000000000, Nonce = 7, acc = (), signer = 1\<rparr>"

lemma sample_SendTx:
  "SendTx (sample_eth1 mined status) sample_wallet sample_sender (new_tx to data) w
   = (Inr (sent_tx sample_sender (new_tx to data) 150), sample_sender\<lparr>Nonce := 8\<rparr>,
      sent_tx sample_sender (new_tx to data) 150, w)"
  by (simp add: SendTx_def set_gas_def bind_io_def map_res_def sample_eth1_def sample_wallet_def new_tx_def
      fill_tx_def sent_tx_def sample_sender_def Let_def)

theorem SendTx_outcome_witness:
  "\<exists>stx s' tx' w'. SendTx (sample_eth1 True 1) sample_wallet sample_sender (new_tx [1] [2]) 0 = (Inr stx, s', tx', w')
     \<and> s' = sample_sender\<lparr>Nonce := 8\<rparr>
     \<and> (\<exists>gas. SignNewTx sample_wallet (acc sample_sender) (signer sample_sender)
            (sent_tx sample_sender (new_tx [1] [2]) gas) = Inr stx)"
  using SendTx_outcome [OF sample_SendTx [of True 1 "[1]" "[2]" 0]] sample_SendTx [of True 1 "[1]" "[2]" 0]
  by auto

theorem SendTx_gas_limit_witness:
  "\<exists>stx s' tx' w'. SendTx (sample_eth1 True 1) sample_wallet sample_sender (new_tx [1] [2]) 0 = (Inr stx, s', tx', w')
     \<and> unat (tx_Gas tx') = 150"
proof -
  have "EstimateGas (sample_eth1 True 1) (gas_msg (KeyAddress sample_wallet (acc sample_sender))
      (fill_tx sample_sender (new_tx [1] [2]))) 0 = (Inr 100, 0)" by (simp add: sample_eth1_def)
  with SendTx_gas_limit [OF sample_SendTx [of True 1 "[1]" "[2]" 0], of 100 0] sample_SendTx [of True 1 "[1]" "[2]" 0]
  show ?thesis by (simp add: new_tx_def)
qed

lemma sample_pending: "\<not> mined \<or> w < 2 \<Longrightarrow> pending (sample_eth1 mined status) h w = Some (w + 1)"
  by (auto simp: pending_def sample_eth1_def)

lemma sample_pending_n: "pending_n (sample_eth1 False status) h k w = Some (w + k)"
  by (induction k arbitrary: w) (simp_all add: sample_pending)

theorem WaitReceipt_polls_witness:
  "(\<exists>w'. WaitReceipt (sample_eth1 True 1) sample_wallet (new_tx [] []) 0 = (Inr (sample_receipt 1), w'))
   \<and> WaitReceipt (sample_eth1 False 1) sample_wallet (new_tx [] []) 0 = (Inl Hang, 0)"
proof
  have "pending_n (sample_eth1 True 1) (TxHash sample_wallet (new_tx [] [])) 2 0 = Some 2"
    by (simp add: numeral_2_eq_2 sample_pending)
  moreover have "TransactionReceipt (sample_eth1 True 1) (TxHash sample_wallet (new_tx [] [])) 2 = (Inr (sample_receipt 1), 2)"
    by (simp add: sample_eth1_def)
  ultimately show "\<exists>w'. WaitReceipt (sample_eth1 True 1) sample_wallet (new_tx [] []) 0 = (Inr (sample_receipt 1), w')"
    using WaitReceipt_polls [of "sample_eth1 True 1" sample_wallet "new_tx [] []" 0 "sample_receipt 1"] by blast
  show "WaitReceipt (sample_eth1 False 1) sample_wallet (new_tx [] []) 0 = (Inl Hang, 0)"
    using WaitReceipt_polls [of "sample_eth1 False 1" sample_wallet "new_tx [] []" 0 "sample_receipt 1"]
    by (simp add: sample_pending_n)
qed

end
