(* ===== verification/Contract_Format.thy ===== *)
theory Contract_Format
  imports Tx_Sender Externals
begin

section \<open>Contract ABIs and the text of a receipt (oracle/contract)\<close>

text \<open>
  \<^verbatim>\<open>abi.go\<close> parses the embedded ABI files, \<^verbatim>\<open>format.go\<close> prints a receipt with its decoded events. The ABI
  codec is go-ethereum's: the record \<open>abi\<close>. Decoding an event fills a map from argument names to values.
\<close>

record Argument =
  arg_Name :: string
  arg_Indexed :: bool

record Event =
  ev_Name :: string
  ev_Inputs :: "Argument list"

text \<open>A decoded value: \<^verbatim>\<open>[32]uint8\<close>, \<^verbatim>\<open>[]uint8\<close>, or anything else with what \<^verbatim>\<open>fmt.Sprint\<close> prints.\<close>

datatype abi_value = Bytes32 hash | ByteSlice "byte list" | Printed string

text \<open>The arguments of \<^verbatim>\<open>Pack\<close> that the oracle passes; \<open>'u\<close> is the update of the light client.\<close>

datatype 'u abi_arg = BigInt int | ByteArg "byte list" | Hashes "hash list" | ByteLists "byte list list" | Struct 'u

record 'u abi =
  EventByID :: "hash \<Rightarrow> Event go"
  EventID :: "string \<Rightarrow> hash"                  \<comment> \<open>\<^verbatim>\<open>Events[name].ID\<close>\<close>
  UnpackIntoMap :: "Argument list \<Rightarrow> (string \<rightharpoonup> abi_value) \<Rightarrow> byte list \<Rightarrow> (string \<rightharpoonup> abi_value) go"
  ParseTopicsIntoMap :: "(string \<rightharpoonup> abi_value) \<Rightarrow> Argument list \<Rightarrow> hash list \<Rightarrow> (string \<rightharpoonup> abi_value) go"
  Pack :: "string \<Rightarrow> 'u abi_arg list \<Rightarrow> byte list go"

subsection \<open>abi.go\<close>

definition MustParseABI :: "(byte list \<Rightarrow> 'u abi go) \<Rightarrow> byte list \<Rightarrow> 'u abi go" where
  "MustParseABI abi_JSON raw = must (abi_JSON raw)"

subsection \<open>format.go\<close>

fun Indexed :: "Argument list \<Rightarrow> Argument list" where
  "Indexed [] = []"
| "Indexed (a # as) = (if arg_Indexed a then a # Indexed as else Indexed as)"

definition nl :: string where
  "nl = [CHR 0x0A]"

definition tab :: string where
  "tab = [CHR 0x09]"

definition print_value :: "lib \<Rightarrow> abi_value option \<Rightarrow> string" where
  "print_value L v =
     (case v of Some (Bytes32 h) \<Rightarrow> EncodeHex L (Bytes h)
      | Some (ByteSlice bs) \<Rightarrow> EncodeHex L bs
      | Some (Printed s) \<Rightarrow> s
      | None \<Rightarrow> ''<nil>'')"

fun print_args :: "lib \<Rightarrow> (string \<rightharpoonup> abi_value) \<Rightarrow> bool \<Rightarrow> Argument list \<Rightarrow> string" where
  "print_args L m first [] = []"
| "print_args L m first (a # as) =
     (if first then [] else '', '') @ arg_Name a @ '': '' @ print_value L (m (arg_Name a)) @ print_args L m False as"

definition print_raw :: "lib \<Rightarrow> Event \<Rightarrow> Log \<Rightarrow> string" where
  "print_raw L ev e = tab @ ev_Name ev @ ''(raw: '' @ EncodeHex L (lg_Data e) @ '')'' @ nl"

text \<open>The body of the loop over the logs: the text it appends.\<close>

definition print_log :: "lib \<Rightarrow> 'u abi \<Rightarrow> Log \<Rightarrow> string go" where
  "print_log L A e =
     (case lg_Topics e of
        [] \<Rightarrow> Inr []
      | topic # topics \<Rightarrow>
          (case EventByID A topic of
             Inl (Err _) \<Rightarrow> Inr []
           | Inl f \<Rightarrow> Inl f
           | Inr ev \<Rightarrow>
               (case (if lg_Data e \<noteq> [] then UnpackIntoMap A (ev_Inputs ev) Map.empty (lg_Data e) else Inr Map.empty) of
                  Inl (Err _) \<Rightarrow> Inr (print_raw L ev e)
                | Inl f \<Rightarrow> Inl f
                | Inr m \<Rightarrow>
                    (case (if topics \<noteq> [] then ParseTopicsIntoMap A m (Indexed (ev_Inputs ev)) topics else Inr m) of
                       Inl (Err _) \<Rightarrow> Inr (print_raw L ev e)
                     | Inl f \<Rightarrow> Inl f
                     | Inr m \<Rightarrow> Inr (tab @ ev_Name ev @ ''('' @ print_args L m True (ev_Inputs ev) @ '')'' @ nl)))))"

definition FormatReceipt :: "lib \<Rightarrow> 'u abi \<Rightarrow> Receipt \<Rightarrow> string go" where
  "FormatReceipt L A r =
     bind (map_go (print_log L A) (rc_Logs r)) (\<lambda>logs.
     Inr (replicate 50 (CHR ''#'')
          @ nl @ ''Tx hash: '' @ HashString L (rc_TxHash r) @ nl
          @ ''Block number: '' @ (case rc_BlockNumber r of None \<Rightarrow> ''<nil>'' | Some n \<Rightarrow> fmt_int n) @ nl
          @ ''Status: '' @ FormatUint (rc_Status r) @ nl
          @ ''Gas used: '' @ FormatUint (rc_GasUsed r) @ nl
          @ (if rc_Logs r \<noteq> [] then ''Logs:'' @ nl else [])
          @ concat logs
          @ replicate 50 (CHR ''#'')))"

lemma Indexed_filter: "Indexed as = filter arg_Indexed as"
  by (induction as) auto

text \<open>A codec that reports its failures as errors never makes the printing fail.\<close>

definition only_errors :: "'a go \<Rightarrow> bool" where
  "only_errors m = (case m of Inr _ \<Rightarrow> True | Inl (Err _) \<Rightarrow> True | _ \<Rightarrow> False)"

definition codec_errors :: "'u abi \<Rightarrow> bool" where
  "codec_errors A \<longleftrightarrow>
     (\<forall>t. only_errors (EventByID A t)) \<and> (\<forall>as m bs. only_errors (UnpackIntoMap A as m bs)) \<and>
     (\<forall>m as ts. only_errors (ParseTopicsIntoMap A m as ts))"

lemma only_errorsE:
  assumes "only_errors m"
  obtains e where "m = Inl (Err e)" | a where "m = Inr a"
  using assms by (auto simp: only_errors_def split: sum.splits failure.splits)

lemma print_log_total:
  assumes "codec_errors A"
  shows "\<exists>s. print_log L A e = Inr s"
proof (cases "lg_Topics e")
  case (Cons topic topics)
  let ?unpack = "\<lambda>ev. if lg_Data e \<noteq> [] then UnpackIntoMap A (ev_Inputs ev) Map.empty (lg_Data e) else Inr Map.empty"
  let ?parse = "\<lambda>ev m. if topics \<noteq> [] then ParseTopicsIntoMap A m (Indexed (ev_Inputs ev)) topics else Inr m"
  have event: "only_errors (EventByID A topic)" and unpack: "\<And>ev. only_errors (?unpack ev)"
    and parse: "\<And>ev m. only_errors (?parse ev m)"
    using assms by (simp_all add: codec_errors_def only_errors_def)
  show ?thesis
  proof (rule only_errorsE [OF event])
    fix ev assume ev: "EventByID A topic = Inr ev"
    show ?thesis
    proof (rule only_errorsE [OF unpack [of ev]])
      fix m assume m: "?unpack ev = Inr m"
      show ?thesis
        by (rule only_errorsE [OF parse [of m ev]])
          (simp_all only: print_log_def Cons list.case ev m sum.case failure.case, blast+)
    qed (simp only: print_log_def Cons list.case ev sum.case failure.case, blast)
  qed (simp only: print_log_def Cons list.case sum.case failure.case, blast)
qed (simp add: print_log_def)

lemma FormatReceipt_total:
  assumes "codec_errors A"
  shows "\<exists>s. FormatReceipt L A r = Inr s"
proof -
  obtain f where "\<And>e. print_log L A e = Inr (f e)" using print_log_total [OF assms] by metis
  then show ?thesis using map_go_total [of "rc_Logs r" "print_log L A" f] by (simp add: FormatReceipt_def)
qed

end
