(* ===== verification/Runs.thy ===== *)
theory Runs
  imports Main
begin

section \<open>Runs of labelled systems\<close>

text \<open>
  A component that goes on for ever, the worker or the contract, is a relation between states whose steps
  may carry a label: what the step sent or announced. A run collects the labels. The locale
  \<open>progress\<close> is what both components promise: an invariant, and a level that a silent step never lowers and
  a labelled step raises.
\<close>

inductive run :: "('s \<Rightarrow> 'l option \<Rightarrow> 's \<Rightarrow> bool) \<Rightarrow> 's \<Rightarrow> 'l list \<Rightarrow> 's \<Rightarrow> bool" for step s0 where
  start: "run step s0 [] s0"
| silent: "run step s0 ls s \<Longrightarrow> step s None s' \<Longrightarrow> run step s0 ls s'"
| labelled: "run step s0 ls s \<Longrightarrow> step s (Some l) s' \<Longrightarrow> run step s0 (ls @ [l]) s'"

lemma run_silent: "step s None s' \<Longrightarrow> run step s [] s'"
  by (rule run.silent [OF run.start])

lemma run_labelled: "step s (Some l) s' \<Longrightarrow> run step s [l] s'"
  using run.labelled [OF run.start, of step s l s'] by simp

locale progress =
  fixes step :: "'s \<Rightarrow> 'l option \<Rightarrow> 's \<Rightarrow> bool" and ok :: "'s \<Rightarrow> bool" and level :: "'s \<Rightarrow> nat"
  assumes ok_step: "ok s \<Longrightarrow> step s lb s' \<Longrightarrow> ok s'"
    and silent_level: "ok s \<Longrightarrow> step s None s' \<Longrightarrow> level s \<le> level s'"
    and labelled_level: "ok s \<Longrightarrow> step s (Some l) s' \<Longrightarrow> level s < level s'"
begin

lemma run_ok: "run step s0 ls s \<Longrightarrow> ok s0 \<Longrightarrow> ok s"
  by (induction rule: run.induct) (auto intro: ok_step)

lemma run_level: "run step s0 ls s \<Longrightarrow> ok s0 \<Longrightarrow> level s0 + length ls \<le> level s"
proof (induction rule: run.induct)
  case (silent ls s s')
  then show ?case using silent_level [OF run_ok] by fastforce
next
  case (labelled ls s l s')
  then show ?case using labelled_level [OF run_ok] by fastforce
qed simp

lemma run_mono: "run step s0 ls s \<Longrightarrow> ok s0 \<Longrightarrow> level s0 \<le> level s"
  using run_level by fastforce

text \<open>A bounded level bounds the number of labelled steps.\<close>

lemma run_bounded: "run step s0 ls s \<Longrightarrow> ok s0 \<Longrightarrow> level s \<le> n \<Longrightarrow> length ls \<le> n - level s0"
  using run_level by fastforce

end

end
