(* ===== verification/Light_Commands.thy ===== *)
theory Light_Commands
  imports Update_Proofs Contract_Format Runs
begin

section \<open>The light client commands (oracle/cmd/light\_client)\<close>

text \<open>
  \<^verbatim>\<open>prove\<close> writes updates to files, \<^verbatim>\<open>send_proof\<close> submits one such file, \<^verbatim>\<open>worker\<close> does both in a loop that
  never ends. The beacon node and the clock move on while a command runs: every call of
  \<^verbatim>\<open>MakeUpdate\<close> has an observation of its own, the node it talks to and the time. Fatal errors end the
  process. The main loop of the worker is a step relation: between two iterations the world may change in
  any way.
\<close>

record ('w, 'tx, 'key, 'pk, 'sig) env =
  Lib :: lib
  Bls :: "('pk, 'sig) bls"
  Http :: http
  Codecs :: codecs
  OpenConfig :: "string \<Rightarrow> byte list go"
  DecodeYaml :: "byte list \<Rightarrow> Config go"
  Dial :: "string \<Rightarrow> ('w, 'tx) eth1 go"
  Wallet :: "('key, 'tx) wallet"
  BeaconLightClientABI :: "('pk, 'sig) Update abi"
  OpenOutput :: "string \<Rightarrow> ('w, unit) io"
  EncodeJson :: "('pk, 'sig) Update \<Rightarrow> ('w, unit) io"
  CloseOutput :: "('w, unit) io"
  OpenProof :: "string \<Rightarrow> ('w, byte list) io"
  DecodeJson :: "byte list \<Rightarrow> ('pk, 'sig) Update go"

text \<open>What one call of \<^verbatim>\<open>MakeUpdate\<close> sees: the time since genesis and the beacon node.\<close>

type_synonym observation = "(int \<Rightarrow> u64) \<times> Eth2Client"

definition make_update ::
  "('w, 'tx, 'key, 'pk, 'sig) env \<Rightarrow> observation \<Rightarrow> LightClient \<Rightarrow> u64 \<Rightarrow> u64 \<Rightarrow> ('pk, 'sig) Update option go"
where
  "make_update V ob c slot target = MakeUpdate (Lib V) (Bls V) (fst ob) (c\<lparr>Client := snd ob\<rparr>) slot target"

text \<open>\<^verbatim>\<open>updateTargerSlot\<close>\<close>

definition update_target :: "('pk, 'sig) Update \<Rightarrow> u64" where
  "update_target u = (if hd_Slot (up_FinalizedHeader u) > 0 then hd_Slot (up_FinalizedHeader u)
                      else hd_Slot (up_AttestedHeader u))"

text \<open>The section \<^verbatim>\<open>eth1\<close> of the configuration, a pointer that may be nil.\<close>

definition eth1_config :: "Config \<Rightarrow> Eth1Config go" where
  "eth1_config cfg = (case Eth1 cfg of None \<Rightarrow> Inl (Panic ''nil pointer dereference'') | Some e \<Rightarrow> Inr e)"

text \<open>\<^verbatim>\<open>Pack("head")\<close>, the call, and \<^verbatim>\<open>binary.BigEndian.Uint64(res[24:32])\<close>\<close>

definition head_slot :: "('w, 'tx, 'key, 'pk, 'sig) env \<Rightarrow> ('w, 'tx) eth1 \<Rightarrow> address \<Rightarrow> ('w, u64) io" where
  "head_slot V E contract =
     bind_io (pure_io (fatal_err (Pack (BeaconLightClientABI V) ''head'' []))) (\<lambda>data.
     bind_io (map_res fatal_err (CallContract E
       \<lparr>cm_From = None, cm_To = Some contract, cm_GasFeeCap = None, cm_GasTipCap = None, cm_Value = None,
        cm_Data = data, cm_AccessList = []\<rparr>)) (\<lambda>res.
     pure_io (bind (subslice res 24 32) get_uint64_be)))"

subsection \<open>worker\<close>

record ('w, 'tx, 'key) worker =
  wk_client :: LightClient
  wk_eth :: "('w, 'tx) eth1"
  wk_contract :: address
  wk_slot :: u64
  wk_sender :: "'key TxSender"

definition worker_init :: "('w, 'tx, 'key, 'pk, 'sig) env \<Rightarrow> string \<Rightarrow> ('w, ('w, 'tx, 'key) worker) io" where
  "worker_init V configFile =
     bind_io (pure_io (fatal_err (ReadFromFile (OpenConfig V) (DecodeYaml V) configFile))) (\<lambda>cfg.
     bind_io (pure_io (fatal_err (NewLightClient (Lib V) (Http V) (Codecs V) (Eth2 cfg) True))) (\<lambda>c.
     bind_io (pure_io (eth1_config cfg)) (\<lambda>e.
     bind_io (pure_io (fatal_err (Dial V (URL (e1_Client e))))) (\<lambda>eth.
     bind_io (head_slot V eth (e1_Contract e)) (\<lambda>slot.
     bind_io (map_res fatal_err (NewTxSender eth (Wallet V) (e1_Keystore e) (e1_KeystorePassword e))) (\<lambda>s.
     pure_io (Inr \<lparr>wk_client = c, wk_eth = eth, wk_contract = e1_Contract e, wk_slot = slot, wk_sender = s\<rparr>)))))))"

text \<open>One iteration: the transaction it sent, if any, the worker afterwards, and the world.\<close>

definition worker_iteration ::
  "('w, 'tx, 'key, 'pk, 'sig) env \<Rightarrow> observation \<Rightarrow> ('w, 'tx, 'key) worker \<Rightarrow> 'w \<Rightarrow>
   'tx option go \<times> ('w, 'tx, 'key) worker \<times> 'w"
where
  "worker_iteration V ob wk w =
     (case fatal_err (make_update V ob (wk_client wk) (wk_slot wk) 0) of
        Inl f \<Rightarrow> (Inl f, wk, w)
      | Inr None \<Rightarrow> (Inr None, wk, w)
      | Inr (Some update) \<Rightarrow>
          (let target = update_target update in
           case fatal_err (Pack (BeaconLightClientABI V) ''step'' [Struct update]) of
             Inl f \<Rightarrow> (Inl f, wk, w)
           | Inr data \<Rightarrow>
               (case SendTx (wk_eth wk) (Wallet V) (wk_sender wk) (new_tx (wk_contract wk) data) w of
                  (r, s, _, w) \<Rightarrow>
                    (let wk = wk\<lparr>wk_sender := s\<rparr> in
                     case fatal_err r of
                       Inl f \<Rightarrow> (Inl f, wk, w)
                     | Inr signedTx \<Rightarrow>
                         (case WaitReceipt (wk_eth wk) (Wallet V) signedTx w of
                            (r, w) \<Rightarrow>
                              (case bind (fatal_err r) (FormatReceipt (Lib V) (BeaconLightClientABI V)) of
                                 Inl f \<Rightarrow> (Inl f, wk, w)
                               | Inr _ \<Rightarrow> (Inr (Some signedTx), wk\<lparr>wk_slot := target\<rparr>, w)))))))"

text \<open>The loop: an iteration that returns, and the world that has moved on at the next tick.\<close>

inductive worker_step ::
  "('w, 'tx, 'key, 'pk, 'sig) env \<Rightarrow> ('w, 'tx, 'key) worker \<times> 'w \<Rightarrow> 'tx option \<Rightarrow> ('w, 'tx, 'key) worker \<times> 'w \<Rightarrow> bool"
  for V where
  tick: "worker_iteration V ob wk w = (Inr sent, wk', w') \<Longrightarrow> worker_step V (wk, w) sent (wk', w'')"

inductive_cases worker_stepE: "worker_step V (wk, w) sent s'"


subsection \<open>prove\<close>

text \<open>\<^verbatim>\<open>strings.ReplaceAll\<close> with a pattern that is not empty\<close>

function ReplaceAll :: "string \<Rightarrow> string \<Rightarrow> string \<Rightarrow> string" where
  "ReplaceAll s old new =
     (if s = [] then []
      else if old \<noteq> [] \<and> take (length old) s = old then new @ ReplaceAll (drop (length old) s) old new
      else hd s # ReplaceAll (tl s) old new)"
  by pat_completeness auto
termination
  by (relation "measure (\<lambda>(s, old, new). length s)") auto

declare ReplaceAll.simps [simp del]

record prove_flags =
  pf_config :: string
  pf_currentSlot :: u64
  pf_targetSlot :: u64
  pf_output :: string
  pf_n :: int
  pf_finality :: bool

definition prove_start ::
  "('w, 'tx, 'key, 'pk, 'sig) env \<Rightarrow> prove_flags \<Rightarrow> ('w, LightClient \<times> u64) io"
where
  "prove_start V fl =
     bind_io (pure_io (fatal_err (ReadFromFile (OpenConfig V) (DecodeYaml V) (pf_config fl)))) (\<lambda>cfg.
     bind_io (pure_io (fatal_err (NewLightClient (Lib V) (Http V) (Codecs V) (Eth2 cfg) (pf_finality fl)))) (\<lambda>c.
     if pf_currentSlot fl \<noteq> 0 then pure_io (Inr (c, pf_currentSlot fl))
     else
       (case Eth1 cfg of
          None \<Rightarrow> pure_io (Inl (Fatal ''missing eth1 client config''))
        | Some e \<Rightarrow>
            bind_io (pure_io (fatal_err (Dial V (URL (e1_Client e))))) (\<lambda>eth.
            bind_io (head_slot V eth (e1_Contract e)) (\<lambda>slot. pure_io (Inr (c, slot)))))))"

definition output_path :: "string \<Rightarrow> u64 \<Rightarrow> u64 \<Rightarrow> string" where
  "output_path pattern slot target =
     ReplaceAll (ReplaceAll pattern ''<from>'' (FormatUint slot)) ''<to>'' (FormatUint target)"

text \<open>One iteration: the slot of the next one. A nil update is dereferenced.\<close>

definition prove_iteration ::
  "('w, 'tx, 'key, 'pk, 'sig) env \<Rightarrow> observation \<Rightarrow> LightClient \<Rightarrow> string \<Rightarrow> u64 \<Rightarrow> u64 \<Rightarrow> ('w, u64) io"
where
  "prove_iteration V ob c pattern slot target =
     bind_io (pure_io (fatal_err (make_update V ob c slot target))) (\<lambda>r.
     case r of
       None \<Rightarrow> pure_io (Inl (Panic ''nil pointer dereference''))
     | Some update \<Rightarrow>
         bind_io (map_res fatal_err (OpenOutput V (output_path pattern slot (update_target update)))) (\<lambda>_.
         bind_io (map_res fatal_err (EncodeJson V update)) (\<lambda>_.
         bind_io (map_res fatal_err (CloseOutput V)) (\<lambda>_.
         pure_io (Inr (update_target update))))))"

fun prove_loop ::
  "('w, 'tx, 'key, 'pk, 'sig) env \<Rightarrow> (nat \<Rightarrow> observation) \<Rightarrow> LightClient \<Rightarrow> string \<Rightarrow> nat \<Rightarrow> nat \<Rightarrow> u64 \<Rightarrow> u64 \<Rightarrow>
   ('w, u64) io"
where
  "prove_loop V obs c pattern i 0 slot target = pure_io (Inr slot)"
| "prove_loop V obs c pattern i (Suc n) slot target =
     bind_io (prove_iteration V (obs i) c pattern slot target) (\<lambda>slot'.
     prove_loop V obs c pattern (i + 1) n slot' 0)"

definition prove_main ::
  "('w, 'tx, 'key, 'pk, 'sig) env \<Rightarrow> (nat \<Rightarrow> observation) \<Rightarrow> prove_flags \<Rightarrow> ('w, u64) io"
where
  "prove_main V obs fl =
     bind_io (prove_start V fl) (\<lambda>(c, slot).
     prove_loop V obs c (pf_output fl) 0 (nat (pf_n fl)) slot (pf_targetSlot fl))"

subsection \<open>send\_proof\<close>

definition send_proof_data ::
  "('w, 'tx, 'key, 'pk, 'sig) env \<Rightarrow> bool \<Rightarrow> string \<Rightarrow> ('w, byte list) io"
where
  "send_proof_data V applyCandidate proofFilePath =
     (if applyCandidate then pure_io (fatal_err (Pack (BeaconLightClientABI V) ''applyCandidate'' []))
      else
        bind_io (map_res fatal_err (OpenProof V proofFilePath)) (\<lambda>f.
        bind_io (pure_io (fatal_err (DecodeJson V f))) (\<lambda>prf.
        pure_io (fatal_err (Pack (BeaconLightClientABI V) ''step'' [Struct prf])))))"

text \<open>\<^verbatim>\<open>SendTx\<close>, \<^verbatim>\<open>WaitReceipt\<close> and the printing of the receipt, at the end of every command.\<close>

definition send_and_wait ::
  "lib \<Rightarrow> 'u abi \<Rightarrow> ('w, 'tx) eth1 \<Rightarrow> ('key, 'tx) wallet \<Rightarrow> 'key TxSender \<Rightarrow> DynamicFeeTx \<Rightarrow> ('w, 'tx \<times> Receipt) io"
where
  "send_and_wait L A E W s tx w =
     (case SendTx E W s tx w of
        (r, _, _, w) \<Rightarrow>
          bind_io (pure_io (fatal_err r)) (\<lambda>signedTx.
          bind_io (map_res fatal_err (WaitReceipt E W signedTx)) (\<lambda>receipt.
          bind_io (pure_io (FormatReceipt L A receipt)) (\<lambda>_.
          pure_io (Inr (signedTx, receipt))))) w)"

definition send_proof_main ::
  "('w, 'tx, 'key, 'pk, 'sig) env \<Rightarrow> string \<Rightarrow> bool \<Rightarrow> string \<Rightarrow> ('w, 'tx \<times> Receipt) io"
where
  "send_proof_main V configFile applyCandidate proofFilePath =
     bind_io (pure_io (fatal_err (ReadFromFile (OpenConfig V) (DecodeYaml V) configFile))) (\<lambda>cfg.
     bind_io (pure_io (eth1_config cfg)) (\<lambda>e.
     bind_io (pure_io (fatal_err (Dial V (URL (e1_Client e))))) (\<lambda>eth.
     bind_io (map_res fatal_err (NewTxSender eth (Wallet V) (e1_Keystore e) (e1_KeystorePassword e))) (\<lambda>s.
     bind_io (send_proof_data V applyCandidate proofFilePath) (\<lambda>data.
     send_and_wait (Lib V) (BeaconLightClientABI V) eth (Wallet V) s (new_tx (e1_Contract e) data))))))"

subsection \<open>The worker's runs\<close>

lemma MakeUpdate_newer:
  assumes "MakeUpdate L B since c curSlot targetSlot = Inr (Some u)" and "WithFinality c"
  shows "curSlot < hd_Slot (up_FinalizedHeader u)" and "update_target u = hd_Slot (up_FinalizedHeader u)"
proof -
  from assms(1) obtain u0 u1 ws where run: "add_finality L c curSlot u0 = Inr (Some u1)"
    "u = u1\<lparr>up_SyncAggregateBitList := ws\<rparr>" by (elim MakeUpdateE)
  then show lt: "curSlot < hd_Slot (up_FinalizedHeader u)"
    using assms(2) by (auto simp: add_finality_def Let_def bind_eq_Inr not_le split: if_splits prod.splits)
  then have "0 < hd_Slot (up_FinalizedHeader u)" by (metis le_less_trans word_zero_le)
  then show "update_target u = hd_Slot (up_FinalizedHeader u)" by (simp add: update_target_def)
qed

text \<open>The two ways an iteration returns.\<close>

lemma worker_iteration_Inr:
  assumes "worker_iteration V ob wk w = (Inr sent, wk', w')"
  shows "(sent = None \<and> wk' = wk \<and> make_update V ob (wk_client wk) (wk_slot wk) 0 = Inr None) \<or>
    (\<exists>u data stx s tx w1 rc. sent = Some stx
      \<and> make_update V ob (wk_client wk) (wk_slot wk) 0 = Inr (Some u)
      \<and> Pack (BeaconLightClientABI V) ''step'' [Struct u] = Inr data
      \<and> SendTx (wk_eth wk) (Wallet V) (wk_sender wk) (new_tx (wk_contract wk) data) w = (Inr stx, s, tx, w1)
      \<and> WaitReceipt (wk_eth wk) (Wallet V) stx w1 = (Inr rc, w')
      \<and> wk' = wk\<lparr>wk_sender := s, wk_slot := update_target u\<rparr>)"
proof (cases "make_update V ob (wk_client wk) (wk_slot wk) 0")
  case (Inl f)
  with assms show ?thesis
    by (cases f) (simp_all add: worker_iteration_def fatal_err_def)
next
  case (Inr r)
  show ?thesis
  proof (cases r)
    case None
    with Inr assms show ?thesis by (simp add: worker_iteration_def)
  next
    case (Some u)
    with Inr assms obtain data where data: "Pack (BeaconLightClientABI V) ''step'' [Struct u] = Inr data"
      by (auto simp: worker_iteration_def Let_def split: sum.splits)
    obtain r s tx w1 where tx: "SendTx (wk_eth wk) (Wallet V) (wk_sender wk) (new_tx (wk_contract wk) data) w = (r, s, tx, w1)"
      by (metis prod_cases4)
    with Inr Some data assms obtain stx where stx: "r = Inr stx"
      by (auto simp: worker_iteration_def Let_def split: sum.splits)
    obtain r' w2 where rc: "WaitReceipt (wk_eth wk) (Wallet V) stx w1 = (r', w2)" by fastforce
    with Inr Some data tx stx assms obtain receipt where "r' = Inr receipt"
      by (auto simp: worker_iteration_def Let_def bind_eq_Inr split: sum.splits)
    with Inr Some data tx stx rc assms show ?thesis
      by (auto simp: worker_iteration_def Let_def split: sum.splits)
  qed
qed

definition worker_ok :: "('w, 'tx, 'key) worker \<times> 'w \<Rightarrow> bool" where
  "worker_ok s \<longleftrightarrow> WithFinality (wk_client (fst s))"

definition worker_level :: "('w, 'tx, 'key) worker \<times> 'w \<Rightarrow> nat" where
  "worker_level s = unat (wk_slot (fst s))"

interpretation wk: progress "worker_step V" worker_ok worker_level for V :: "('w, 'tx, 'key, 'pk, 'sig) env"
proof
  fix s :: "('w, 'tx, 'key) worker \<times> 'w" and l s'
  assume ok: "worker_ok s"
  {
    assume "worker_step V s l s'"
    then show "worker_ok s'"
      using ok by cases (auto simp: worker_ok_def dest: worker_iteration_Inr)
  next
    assume "worker_step V s None s'"
    then show "worker_level s \<le> worker_level s'"
      by cases (auto simp: worker_level_def dest: worker_iteration_Inr)
  next
    fix tx assume "worker_step V s (Some tx) s'"
    then obtain ob wk w wk' w' w'' where s: "s = (wk, w)" "s' = (wk', w'')"
      and it: "worker_iteration V ob wk w = (Inr (Some tx), wk', w')"
      by (auto elim: worker_step.cases)
    from worker_iteration_Inr [OF it] obtain u where
      u: "make_update V ob (wk_client wk) (wk_slot wk) 0 = Inr (Some u)" and slot: "wk_slot wk' = update_target u"
      by auto
    have "WithFinality ((wk_client wk)\<lparr>Client := snd ob\<rparr>)" using ok by (simp add: worker_ok_def s)
    from MakeUpdate_newer [OF u [unfolded make_update_def] this] slot
    show "worker_level s < worker_level s'" by (simp add: worker_level_def s word_less_nat_alt)
  }
qed

text \<open>The sender along a run: one nonce per transaction, each signed with the next nonce.\<close>

definition nonce_used :: "('key, 'tx) wallet \<Rightarrow> 'key TxSender \<Rightarrow> u64 \<Rightarrow> 'tx \<Rightarrow> bool" where
  "nonce_used W s n stx \<longleftrightarrow> (\<exists>tx. SignNewTx W (acc s) (signer s) tx = Inr stx \<and> tx_Nonce tx = n)"

lemma SendTx_nonce_used:
  assumes "SendTx E W s tx w = (Inr stx, s', tx', w')"
  shows "nonce_used W s (Nonce s) stx" and "s' = s\<lparr>Nonce := Nonce s + 1\<rparr>"
proof -
  note sent = SendTx_Inr [OF assms]
  from sent(3) have "tx_Nonce tx' = Nonce s" by (auto simp: set_gas_Inr split: if_splits)
  with sent(2) show "nonce_used W s (Nonce s) stx" by (auto simp: nonce_used_def)
  show "s' = s\<lparr>Nonce := Nonce s + 1\<rparr>" by (rule sent(1))
qed

lemma worker_run_sender:
  assumes "run (worker_step V) s0 txs s"
  shows "wk_sender (fst s) = (wk_sender (fst s0))\<lparr>Nonce := Nonce (wk_sender (fst s0)) + of_nat (length txs)\<rparr>
    \<and> (\<forall>i < length txs. nonce_used (Wallet V) (wk_sender (fst s0)) (Nonce (wk_sender (fst s0)) + of_nat i) (txs ! i))"
  using assms
proof (induction rule: run.induct)
  case (silent txs s s')
  from silent(2) have "wk_sender (fst s') = wk_sender (fst s)"
    by cases (auto dest: worker_iteration_Inr)
  with silent.IH show ?case by simp
next
  case (labelled txs s stx s')
  let ?s0 = "wk_sender (fst s0)"
  from labelled(2) obtain ob wk w wk' w' w'' where s: "s = (wk, w)" "s' = (wk', w'')"
    and it: "worker_iteration V ob wk w = (Inr (Some stx), wk', w')" by (auto elim: worker_step.cases)
  from worker_iteration_Inr [OF it] obtain data sd tx w1 where
    tx: "SendTx (wk_eth wk) (Wallet V) (wk_sender wk) (new_tx (wk_contract wk) data) w = (Inr stx, sd, tx, w1)"
    and wk': "wk_sender wk' = sd" by auto
  have cur: "wk_sender wk = ?s0\<lparr>Nonce := Nonce ?s0 + of_nat (length txs)\<rparr>" using labelled.IH by (simp add: s)
  have "nonce_used (Wallet V) ?s0 (Nonce ?s0 + of_nat (length txs)) stx"
    using SendTx_nonce_used(1) [OF tx] by (simp add: nonce_used_def cur)
  moreover have "wk_sender wk' = ?s0\<lparr>Nonce := Nonce ?s0 + of_nat (Suc (length txs))\<rparr>"
    using SendTx_nonce_used(2) [OF tx] by (simp add: wk' cur algebra_simps)
  ultimately show ?case using labelled.IH by (auto simp: s nth_append less_Suc_eq)
qed simp

text \<open>C13. Along every run of the worker, however the beacon node, the clock and the execution node behave:
  the slot never decreases and every transaction sent raises it, so a worker started at slot \<open>n\<close> sends at
  most \<open>2 ^ 64 - n\<close> transactions; the transactions are signed with consecutive nonces from the account's
  first one, none skipped and none used twice; and the sender's nonce is the next one.\<close>

theorem worker_run_invariant:
  assumes "run (worker_step V) (wk0, w0) txs (wk, w)" and "WithFinality (wk_client wk0)"
  shows "unat (wk_slot wk0) + length txs \<le> unat (wk_slot wk)
    \<and> unat (wk_slot wk0) + length txs < 2 ^ 64
    \<and> Nonce (wk_sender wk) = Nonce (wk_sender wk0) + of_nat (length txs)
    \<and> (\<forall>i < length txs. nonce_used (Wallet V) (wk_sender wk0) (Nonce (wk_sender wk0) + of_nat i) (txs ! i))"
proof -
  have "unat (wk_slot wk0) + length txs \<le> unat (wk_slot wk)"
    using wk.run_level [OF assms(1)] assms(2) by (simp add: worker_ok_def worker_level_def)
  moreover have "unat (wk_slot wk) < 2 ^ 64" using unsigned_less [of "wk_slot wk", where 'a = nat] by simp
  ultimately show ?thesis using worker_run_sender [OF assms(1)] by auto
qed

text \<open>An iteration that gets a receipt goes on, whatever the receipt says.\<close>

lemma worker_iteration_run:
  assumes "make_update V ob (wk_client wk) (wk_slot wk) 0 = Inr (Some u)"
    and "Pack (BeaconLightClientABI V) ''step'' [Struct u] = Inr data"
    and "SendTx (wk_eth wk) (Wallet V) (wk_sender wk) (new_tx (wk_contract wk) data) w = (Inr stx, s, tx, w1)"
    and "WaitReceipt (wk_eth wk) (Wallet V) stx w1 = (Inr rc, w2)" and "codec_errors (BeaconLightClientABI V)"
  shows "worker_iteration V ob wk w = (Inr (Some stx), wk\<lparr>wk_sender := s, wk_slot := update_target u\<rparr>, w2)"
proof -
  obtain out where "FormatReceipt (Lib V) (BeaconLightClientABI V) rc = Inr out"
    using FormatReceipt_total [OF assms(5)] by blast
  then show ?thesis using assms(1-4) by (simp add: worker_iteration_def Let_def)
qed

text \<open>C35. The worker does not look at the status of a receipt: once its transaction is mined, reverted or
  not, an iteration ends with the slot raised to the one of its update, and the sender ready for the next
  nonce. After a reverted transaction the worker is ahead of the contract's head.\<close>

theorem worker_ignores_status:
  assumes "make_update V ob (wk_client wk) (wk_slot wk) 0 = Inr (Some u)" and "WithFinality (wk_client wk)"
    and "Pack (BeaconLightClientABI V) ''step'' [Struct u] = Inr data"
    and "SendTx (wk_eth wk) (Wallet V) (wk_sender wk) (new_tx (wk_contract wk) data) w = (Inr stx, s, tx, w1)"
    and "WaitReceipt (wk_eth wk) (Wallet V) stx w1 = (Inr (rc\<lparr>rc_Status := status\<rparr>), w2)"
    and "codec_errors (BeaconLightClientABI V)"
  shows "\<exists>wk'. worker_iteration V ob wk w = (Inr (Some stx), wk', w2)
    \<and> wk_slot wk' = hd_Slot (up_FinalizedHeader u) \<and> wk_slot wk < wk_slot wk'
    \<and> wk_sender wk' = (wk_sender wk)\<lparr>Nonce := Nonce (wk_sender wk) + 1\<rparr>"
proof -
  have "WithFinality ((wk_client wk)\<lparr>Client := snd ob\<rparr>)" using assms(2) by simp
  note newer = MakeUpdate_newer [OF assms(1) [unfolded make_update_def] this]
  show ?thesis
    using worker_iteration_run [OF assms(1,3-6)] newer SendTx_nonce_used(2) [OF assms(4)] by simp
qed

subsection \<open>The chain of proofs that prove writes\<close>

text \<open>Updates that follow each other: each starts at the slot the one before it leads to.\<close>

fun update_chain ::
  "('w, 'tx, 'key, 'pk, 'sig) env \<Rightarrow> (nat \<Rightarrow> observation) \<Rightarrow> LightClient \<Rightarrow> nat \<Rightarrow> u64 \<Rightarrow> u64 \<Rightarrow>
   ('pk, 'sig) Update list \<Rightarrow> u64 \<Rightarrow> bool"
where
  "update_chain V obs c i slot target [] slot' = (slot' = slot)"
| "update_chain V obs c i slot target (u # us) slot' =
     (make_update V (obs i) c slot target = Inr (Some u)
      \<and> update_chain V obs c (i + 1) (update_target u) 0 us slot')"

lemma update_chain_level:
  "update_chain V obs c i slot target us slot' \<Longrightarrow> WithFinality c \<Longrightarrow> unat slot + length us \<le> unat slot'"
proof (induction us arbitrary: i slot target)
  case (Cons u us)
  then have "make_update V (obs i) c slot target = Inr (Some u)"
    and "unat (update_target u) + length us \<le> unat slot'"
    using Cons.IH [of "i + 1" "update_target u" 0] by simp_all
  moreover from this(1) have "unat slot < unat (update_target u)"
    using MakeUpdate_newer [of "Lib V" "Bls V" _ "c\<lparr>Client := snd (obs i)\<rparr>"] Cons.prems(2)
    by (simp add: make_update_def word_less_nat_alt)
  ultimately show ?case by simp
qed simp

text \<open>A file system that opens, writes and closes every file.\<close>

definition files_work :: "('w, 'tx, 'key, 'pk, 'sig) env \<Rightarrow> bool" where
  "files_work V \<longleftrightarrow>
     (\<forall>p w. \<exists>w'. OpenOutput V p w = (Inr (), w')) \<and> (\<forall>u w. \<exists>w'. EncodeJson V u w = (Inr (), w')) \<and>
     (\<forall>w. \<exists>w'. CloseOutput V w = (Inr (), w'))"

lemma prove_iteration_Inr:
  assumes "files_work V"
  shows "(\<exists>w'. prove_iteration V ob c pattern slot target w = (Inr slot', w')) \<longleftrightarrow>
     (\<exists>u. make_update V ob c slot target = Inr (Some u) \<and> slot' = update_target u)"
proof (cases "make_update V ob c slot target")
  case (Inl f)
  then show ?thesis by (cases f) (simp_all add: prove_iteration_def bind_io_def fatal_err_def)
next
  case (Inr r)
  show ?thesis
  proof (cases r)
    case None
    with Inr show ?thesis by (simp add: prove_iteration_def bind_io_def)
  next
    case (Some u)
    let ?p = "output_path pattern slot (update_target u)"
    obtain w1 w2 w3 where "OpenOutput V ?p w = (Inr (), w1)" "EncodeJson V u w1 = (Inr (), w2)"
      "CloseOutput V w2 = (Inr (), w3)"
      using assms unfolding files_work_def by metis
    with Inr Some show ?thesis by (auto simp: prove_iteration_def bind_io_def map_res_def)
  qed
qed

text \<open>C39. \<^verbatim>\<open>prove -n\<close> succeeds exactly when \<open>n\<close> updates in a row can be made, and then they form a chain: the
  first starts at the given slot with the given target, each of the others at the slot the previous one leads
  to, and each leads to a higher slot.\<close>

theorem prove_loop_chain:
  fixes V :: "('w, 'tx, 'key, 'pk, 'sig) env"
  assumes "files_work V"
  shows "((\<exists>w'. prove_loop V obs c pattern i n slot target w = (Inr slot', w')) \<longleftrightarrow>
      (\<exists>us. length us = n \<and> update_chain V obs c i slot target us slot'))
    \<and> (WithFinality c \<longrightarrow> (\<forall>us. update_chain V obs c i slot target us slot' \<longrightarrow> unat slot + length us \<le> unat slot'))"
proof
  show "(\<exists>w'. prove_loop V obs c pattern i n slot target w = (Inr slot', w')) \<longleftrightarrow>
      (\<exists>us. length us = n \<and> update_chain V obs c i slot target us slot')"
  proof (induction n arbitrary: i slot target w)
    case 0
    then show ?case by auto
  next
    case (Suc n)
    let ?it = "prove_iteration V (obs i) c pattern slot target w"
      and ?chain = "\<lambda>s. \<exists>us. length us = n \<and> update_chain V obs c (i + 1) s 0 us slot'"
    have "(\<exists>w'. prove_loop V obs c pattern i (Suc n) slot target w = (Inr slot', w')) \<longleftrightarrow>
        (\<exists>s w1. ?it = (Inr s, w1) \<and> (\<exists>w'. prove_loop V obs c pattern (i + 1) n s 0 w1 = (Inr slot', w')))"
      by (simp only: prove_loop.simps bind_io_eq_Inr) blast
    also have "\<dots> \<longleftrightarrow> (\<exists>s. (\<exists>w1. ?it = (Inr s, w1)) \<and> ?chain s)" unfolding Suc.IH by blast
    also have "\<dots> \<longleftrightarrow> (\<exists>u. make_update V (obs i) c slot target = Inr (Some u) \<and> ?chain (update_target u))"
      unfolding prove_iteration_Inr [OF assms] by blast
    also have "\<dots> \<longleftrightarrow> (\<exists>us. length us = Suc n \<and> update_chain V obs c i slot target us slot')"
    proof -
      have "(\<exists>us. length us = Suc n \<and> P us) \<longleftrightarrow> (\<exists>u us. length us = n \<and> P (u # us))" for P :: "('pk, 'sig) Update list \<Rightarrow> bool"
        by (metis length_Suc_conv)
      then show ?thesis by auto
    qed
    finally show ?case .
  qed
qed (use update_chain_level in blast)

text \<open>When there is nothing to prove, \<^verbatim>\<open>MakeUpdate\<close> returns nil without an error, and \<^verbatim>\<open>prove\<close> dereferences
  it: after any number of updates the process panics at the first nil one, having written nothing for it.\<close>

lemma prove_panics_on_nil:
  assumes "prove_loop V obs c pattern i k slot target w = (Inr slot', w')" and "k < n"
    and "make_update V (obs (i + k)) c slot' (if k = 0 then target else 0) = Inr None"
  shows "prove_loop V obs c pattern i n slot target w = (Inl (Panic ''nil pointer dereference''), w')"
  using assms
proof (induction k arbitrary: i n slot target w)
  case 0
  then obtain m where "n = Suc m" by (cases n) auto
  with 0 show ?case by (simp add: prove_iteration_def bind_io_def)
next
  case (Suc k)
  then obtain m where n: "n = Suc m" and m: "k < m" by (cases n) auto
  from Suc.prems(1) obtain s w1 where "prove_iteration V (obs i) c pattern slot target w = (Inr s, w1)"
    and "prove_loop V obs c pattern (i + 1) k s 0 w1 = (Inr slot', w')"
    by (auto simp: bind_io_eq_Inr)
  with Suc.IH [OF this(2) m] Suc.prems(3) show ?case by (simp add: n)
qed

end
