(* ===== verification/Command_Samples.thy ===== *)
theory Command_Samples
  imports Update_Samples Light_Commands
begin

section \<open>The commands on the sample node\<close>

text \<open>
  The worker and \<^verbatim>\<open>prove\<close> on the sample beacon node and execution node: the instances at which the
  theorems on the commands are applied. The clock shows slot 9, so a client at slot 5 finds the update
  signed there, and a client at slot 9 finds nothing new.
\<close>

definition unit_abi :: "(unit, byte list) Update abi" where
  "unit_abi =
     \<lparr>EventByID = \<lambda>_. Inl (Err (Msg ''no event'')), EventID = \<lambda>_. zero_hash,
      UnpackIntoMap = \<lambda>_ m _. Inr m, ParseTopicsIntoMap = \<lambda>m _ _. Inr m, Pack = \<lambda>_ _. Inr [1, 2, 3, 4]\<rparr>"

definition unit_env :: "u64 \<Rightarrow> (nat, DynamicFeeTx, unit, unit, byte list) env" where
  "unit_env status =
     \<lparr>Lib = doc_lib, Bls = unit_bls, Http = transport (silent_node 404), Codecs = decoders (silent_node 404),
      OpenConfig = \<lambda>_. Inr [], DecodeYaml = \<lambda>_. Inl (Err (Msg ''EOF'')), Dial = \<lambda>_. Inr (sample_eth1 True status),
      Wallet = sample_wallet, BeaconLightClientABI = unit_abi, OpenOutput = \<lambda>_ w. (Inr (), w),
      EncodeJson = \<lambda>_ w. (Inr (), w), CloseOutput = \<lambda>w. (Inr (), w), OpenProof = \<lambda>_ w. (Inr [], w),
      DecodeJson = \<lambda>_. Inl (Err (Msg ''EOF''))\<rparr>"

definition unit_ob :: "hash \<Rightarrow> observation" where
  "unit_ob h = (\<lambda>_. 108, Client (unit_client h))"

definition unit_worker :: "hash \<Rightarrow> u64 \<Rightarrow> (nat, DynamicFeeTx, unit) worker" where
  "unit_worker h status =
     \<lparr>wk_client = unit_client h, wk_eth = sample_eth1 True status, wk_contract = replicate 20 1, wk_slot = 5,
      wk_sender = sample_sender\<rparr>"

lemma unit_simps [simp]:
  "Lib (unit_env status) = doc_lib" "Wallet (unit_env status) = sample_wallet"
  "BeaconLightClientABI (unit_env status) = unit_abi" "Pack unit_abi f as = Inr [1, 2, 3, 4]"
  "wk_client (unit_worker h status) = unit_client h" "wk_eth (unit_worker h status) = sample_eth1 True status"
  "wk_contract (unit_worker h status) = replicate 20 1" "wk_slot (unit_worker h status) = 5"
  "wk_sender (unit_worker h status) = sample_sender"
  by (simp_all add: unit_env_def unit_worker_def unit_abi_def)

lemma unit_codec: "codec_errors unit_abi"
  by (simp add: codec_errors_def unit_abi_def only_errors_def)

lemma unit_files: "files_work (unit_env status)"
  by (simp add: files_work_def unit_env_def)

lemma unit_make_update:
  "make_update (unit_env status) (unit_ob h) (unit_client h) slot target
   = MakeUpdate doc_lib unit_bls (\<lambda>_. 108) (unit_client h) slot target"
  by (simp add: make_update_def unit_env_def unit_ob_def)

lemma unit_clock: "choose_slot (\<lambda>_. 108) (unit_client h) 5 0 = Inr 9"
  by (simp add: choose_slot_def slots_per_period_def sample_spec_def Let_def)

lemma unit_wait: "WaitReceipt (sample_eth1 True status) sample_wallet tx 0 = (Inr (sample_receipt status), 2)"
proof -
  let ?E = "sample_eth1 True status"
  have "pending_n ?E (TxHash sample_wallet tx) 2 0 = Some 2"
    by (simp add: numeral_2_eq_2 sample_pending)
  note polls = WaitReceipt_loop_pending_n [OF this]
  have "TransactionReceipt ?E (TxHash sample_wallet tx) 2 = (Inr (sample_receipt status), 2)"
    by (simp add: sample_eth1_def)
  then have "WaitReceipt_loop ?E (TxHash sample_wallet tx) 2 = Some (Inr (sample_receipt status), 2)"
    by (subst WaitReceipt_loop.simps) simp
  with polls show ?thesis by (simp add: WaitReceipt_def)
qed

text \<open>One iteration of the worker: it sends the update with nonce 7.\<close>

definition unit_tx :: DynamicFeeTx where
  "unit_tx = sent_tx sample_sender (new_tx (replicate 20 1) [1, 2, 3, 4]) 150"

lemma unit_step:
  obtains h u where "make_update (unit_env status) (unit_ob h) (unit_client h) 5 0 = Inr (Some u)"
    and "worker_iteration (unit_env status) (unit_ob h) (unit_worker h status) 0
      = (Inr (Some unit_tx), (unit_worker h status)\<lparr>wk_sender := sample_sender\<lparr>Nonce := 8\<rparr>, wk_slot := update_target u\<rparr>, 2)"
proof -
  obtain h u where u: "MakeUpdate doc_lib unit_bls (\<lambda>_. 108) (unit_client h) 5 0 = Inr (Some u)"
    using unit_update [OF unit_clock] by metis
  show ?thesis
  proof (rule that [of h u])
    show up: "make_update (unit_env status) (unit_ob h) (unit_client h) 5 0 = Inr (Some u)"
      using u by (simp only: unit_make_update)
    show "worker_iteration (unit_env status) (unit_ob h) (unit_worker h status) 0
      = (Inr (Some unit_tx), (unit_worker h status)\<lparr>wk_sender := sample_sender\<lparr>Nonce := 8\<rparr>, wk_slot := update_target u\<rparr>, 2)"
      by (rule worker_iteration_run [where data = "[1, 2, 3, 4]" and ?w1.0 = 0 and rc = "sample_receipt status"])
        (simp_all add: up unit_tx_def sample_SendTx unit_wait unit_codec)
  qed
qed

theorem worker_run_invariant_witness:
  "\<exists>h wk w. run (worker_step (unit_env 1)) (unit_worker h 1, 0) [unit_tx] (wk, w)
    \<and> 5 + 1 \<le> unat (wk_slot wk) \<and> Nonce (wk_sender wk) = 8
    \<and> nonce_used sample_wallet sample_sender 7 unit_tx"
proof -
  obtain h wk w where it: "worker_iteration (unit_env 1) (unit_ob h) (unit_worker h 1) 0 = (Inr (Some unit_tx), wk, w)"
    using unit_step by metis
  have run: "run (worker_step (unit_env 1)) (unit_worker h 1, 0) [unit_tx] (wk, w)"
    by (rule run_labelled, rule tick [OF it])
  show ?thesis
    using worker_run_invariant [OF run] run by (auto simp: sample_sender_def)
qed

theorem worker_ignores_status_witness:
  "\<exists>h wk'. worker_iteration (unit_env 0) (unit_ob h) (unit_worker h 0) 0 = (Inr (Some unit_tx), wk', 2)
    \<and> wk_slot (unit_worker h 0) < wk_slot wk'"
proof -
  obtain h u where u: "make_update (unit_env 0) (unit_ob h) (unit_client h) 5 0 = Inr (Some u)"
    using unit_step by metis
  have "\<exists>wk'. worker_iteration (unit_env 0) (unit_ob h) (unit_worker h 0) 0 = (Inr (Some unit_tx), wk', 2)
    \<and> wk_slot wk' = hd_Slot (up_FinalizedHeader u) \<and> wk_slot (unit_worker h 0) < wk_slot wk'
    \<and> wk_sender wk' = (wk_sender (unit_worker h 0))\<lparr>Nonce := Nonce (wk_sender (unit_worker h 0)) + 1\<rparr>"
    by (rule worker_ignores_status [where data = "[1, 2, 3, 4]" and ?w1.0 = 0 and rc = "sample_receipt 1" and status = 0])
      (simp_all add: u unit_tx_def sample_SendTx unit_wait unit_codec sample_receipt_def)
  then show ?thesis by blast
qed

theorem prove_loop_chain_witness:
  "\<exists>h w' slot'. prove_loop (unit_env 1) (\<lambda>_. unit_ob h) (unit_client h) ''proof'' 0 1 5 0 (0 :: nat) = (Inr slot', w')
    \<and> 5 + 1 \<le> unat slot'"
proof -
  obtain h u where u: "make_update (unit_env 1) (unit_ob h) (unit_client h) 5 0 = Inr (Some u)"
    using unit_step by metis
  then have chain: "update_chain (unit_env 1) (\<lambda>_. unit_ob h) (unit_client h) 0 5 0 [u] (update_target u)" by simp
  note both = prove_loop_chain [OF unit_files, of 1 "\<lambda>_. unit_ob h" "unit_client h" "''proof''" 0 1 5 0 0 "update_target u"]
  from both chain obtain w' where
    "prove_loop (unit_env 1) (\<lambda>_. unit_ob h) (unit_client h) ''proof'' 0 1 5 0 0 = (Inr (update_target u), w')"
    by (metis One_nat_def length_Cons list.size(3))
  moreover have "5 + 1 \<le> unat (update_target u)" using both chain by fastforce
  ultimately show ?thesis by blast
qed

lemma prove_panics_on_nil_witness:
  "\<exists>h. prove_loop (unit_env 1) (\<lambda>_. unit_ob h) (unit_client h) ''proof'' 0 3 9 0 (0 :: nat)
    = (Inl (Panic ''nil pointer dereference''), 0)"
proof -
  have "choose_slot (\<lambda>_. 108) (unit_client h) 9 0 = Inr 9" for h
    by (simp add: choose_slot_def slots_per_period_def sample_spec_def Let_def)
  then obtain h where "MakeUpdate doc_lib unit_bls (\<lambda>_. 108) (unit_client h) 9 0 = Inr None"
    by (rule unit_nothing_new)
  then have "make_update (unit_env 1) (unit_ob h) (unit_client h) 9 (if 0 = (0 :: nat) then 0 else 0) = Inr None"
    by (simp add: unit_make_update)
  moreover have "prove_loop (unit_env 1) (\<lambda>_. unit_ob h) (unit_client h) ''proof'' 0 0 9 0 (0 :: nat) = (Inr 9, 0)" by simp
  ultimately show ?thesis using prove_panics_on_nil [of "unit_env 1" "\<lambda>_. unit_ob h" "unit_client h" "''proof''" 0 0 9 0 0 9 0 3] by auto
qed

end
