(* ===== verification/Contract_Runs.thy ===== *)
theory Contract_Runs
  imports Light_Contract Runs
begin

section \<open>The light client contract over time\<close>

text \<open>
  The transactions the contract accepts, in any order and at any times: a step of its transition relation is
  one successful call of \<^verbatim>\<open>step\<close> or \<^verbatim>\<open>applyCandidate\<close>, labelled with the slot of the event
  \<^verbatim>\<open>HeadUpdated\<close> if it emits one. A call that reverts leaves the state as it is and is no step. The calldata
  has the coordinates of the keys and of the signature; the oracle's library values are erased to \<open>unit\<close>.
\<close>

inductive contract_step :: "precompiles \<Rightarrow> light_contract \<Rightarrow> u64 option \<Rightarrow> light_contract \<Rightarrow> bool" for P where
  head_update: "step P now s (u :: (unit, unit) Update) = Some s' \<Longrightarrow> lc_head s' \<noteq> lc_head s \<Longrightarrow> contract_step P s (Some (lc_head s')) s'"
| candidate_update: "step P now s (u :: (unit, unit) Update) = Some s' \<Longrightarrow> lc_head s' = lc_head s \<Longrightarrow> contract_step P s None s'"
| candidate_applied: "applyCandidate now s = Some s' \<Longrightarrow> contract_step P s (Some (lc_head s')) s'"

text \<open>The two effects a call has: a new head above the old one, or a new candidate.\<close>

definition advances :: "light_contract \<Rightarrow> light_contract \<Rightarrow> bool" where
  "advances s s' \<longleftrightarrow> (\<exists>slot h. lc_head s < slot \<and> s' = setHead slot h s)"

lemma advances_head: "advances s s' \<Longrightarrow> lc_head s < lc_head s'"
  by (auto simp: advances_def setHead_def)

lemma require_eq_Some [simp]: "require b m = Some a \<longleftrightarrow> b \<and> m = Some a"
  by (simp add: require_def)

lemma step_Some:
  assumes "step P now s u = Some s'"
  shows "advances s s' \<or> (\<exists>b. s' = s\<lparr>lc_best := b\<rparr>)"
  using assms unfolding step_def Let_def advances_def
  by (simp del: hashPair_node split: option.splits if_splits) (auto simp: setCandidate_def)

lemma applyCandidate_Some: "applyCandidate now s = Some s' \<Longrightarrow> advances s s'"
  by (auto simp: applyCandidate_def Let_def advances_def split: option.splits)

lemma contract_step_cases:
  assumes "contract_step P s l s'"
  shows "(\<exists>slot. l = Some slot \<and> lc_head s' = slot \<and> advances s s') \<or> (l = None \<and> (\<exists>b. s' = s\<lparr>lc_best := b\<rparr>))"
  using assms
proof cases
  case (candidate_update now u)
  then have "\<not> advances s s'" using advances_head by fastforce
  then show ?thesis using candidate_update(1) step_Some [OF candidate_update(2)] by simp
qed (auto dest: step_Some applyCandidate_Some)

interpretation chain: progress "contract_step P" "\<lambda>_. True" "\<lambda>s. unat (lc_head s)" for P
proof
  fix s l s' assume "contract_step P s (Some l) s'"
  then show "unat (lc_head s) < unat (lc_head s')"
    using contract_step_cases advances_head by (fastforce simp: word_less_nat_alt)
qed (auto dest: contract_step_cases)

lemma sorted_le_last: "sorted_wrt (<) xs \<Longrightarrow> x \<in> set xs \<Longrightarrow> x \<le> last xs" for x :: "'a :: linorder"
  by (induction xs) (auto intro: less_imp_le)

lemma run_sorted:
  assumes "run (contract_step P) s0 slots s"
  shows "sorted_wrt (<) (lc_head s0 # slots) \<and> last (lc_head s0 # slots) = lc_head s"
  using assms
proof (induction rule: run.induct)
  case (silent ls s s')
  then show ?case by (auto dest: contract_step_cases)
next
  case (labelled ls s l s')
  from labelled(2) have step: "l = lc_head s'" "lc_head s < lc_head s'"
    using contract_step_cases advances_head by fastforce+
  have "x < lc_head s'" if "x \<in> set (lc_head s0 # ls)" for x
    using that labelled.IH sorted_le_last step(2) by (metis le_less_trans)
  then show ?case using labelled.IH step by (auto simp: sorted_wrt_append)
qed simp

text \<open>C14. Whatever updates and candidates are submitted to the light client contract, in whatever order and at
  whatever times: the slots announced by \<^verbatim>\<open>HeadUpdated\<close> rise strictly from the starting head to the current
  one, a header stored at or below the head is never overwritten, so a state root that a bridge contract
  once read for a slot stays the same, headers are stored only at announced slots, and the chain's constants
  do not change.\<close>

theorem contract_run_invariant:
  assumes "run (contract_step P) s0 slots s"
  shows "sorted_wrt (<) (lc_head s0 # slots) \<and> last (lc_head s0 # slots) = lc_head s
    \<and> (\<forall>slot. slot \<le> lc_head s0 \<or> slot \<notin> set slots \<longrightarrow> lc_headers s slot = lc_headers s0 slot)
    \<and> GENESIS_VALIDATORS_ROOT s = GENESIS_VALIDATORS_ROOT s0 \<and> GENESIS_TIME s = GENESIS_TIME s0
    \<and> UPDATE_TIMEOUT s = UPDATE_TIMEOUT s0"
proof -
  have "(\<forall>slot. slot \<le> lc_head s0 \<or> slot \<notin> set slots \<longrightarrow> lc_headers s slot = lc_headers s0 slot)
    \<and> GENESIS_VALIDATORS_ROOT s = GENESIS_VALIDATORS_ROOT s0 \<and> GENESIS_TIME s = GENESIS_TIME s0
    \<and> UPDATE_TIMEOUT s = UPDATE_TIMEOUT s0"
    using assms
  proof (induction rule: run.induct)
    case (silent ls s s')
    then show ?case by (auto dest: contract_step_cases)
  next
    case (labelled ls s l s')
    have "lc_head s0 \<le> lc_head s" using chain.run_mono [OF labelled(1)] by (simp add: word_le_nat_alt)
    with labelled contract_step_cases [OF labelled(2)] show ?case
      by (auto simp: advances_def setHead_def)
  qed simp
  then show ?thesis using run_sorted [OF assms] by blast
qed

text \<open>A contract whose candidate of slot 9 may be applied.\<close>

definition waiting_contract :: light_contract where
  "waiting_contract =
     \<lparr>GENESIS_VALIDATORS_ROOT = zero_hash, GENESIS_TIME = 0, UPDATE_TIMEOUT = 100, lc_head = 5,
      lc_headers = (\<lambda>_. (zero_hash, zero_hash)),
      lc_best = \<lparr>bv_slot = 9, bv_signatures = 300, bv_timeout = 200, bv_root = Hash (replicate 32 1),
                 bv_stateRoot = Hash (replicate 32 2)\<rparr>\<rparr>"

theorem contract_run_invariant_witness:
  "\<exists>s. run (contract_step (sample_precompiles negP1)) waiting_contract [9] s
    \<and> lc_head s = 9 \<and> lc_headers s 5 = (zero_hash, zero_hash)"
proof -
  let ?P = "sample_precompiles negP1"
  let ?s = "setHead 9 (Hash (replicate 32 1), Hash (replicate 32 2)) waiting_contract"
  have "Bytes (Hash (replicate 32 1)) \<noteq> Bytes zero_hash" by (simp add: zero_hash_def)
  then have "Hash (replicate 32 1) \<noteq> zero_hash" by metis
  then have "applyCandidate 30000 waiting_contract = Some ?s"
    by (simp add: applyCandidate_def waiting_contract_def curSlot_at_def require_def setHead_def)
  from candidate_applied [OF this, of ?P] have "contract_step ?P waiting_contract (Some 9) ?s" by (simp add: setHead_def)
  from run_labelled [of "contract_step ?P", OF this]
  have run: "run (contract_step ?P) waiting_contract [9] ?s" by (simp add: setHead_def)
  show ?thesis
    using contract_run_invariant [OF run] run by (intro exI [of _ ?s]) (auto simp: waiting_contract_def)
qed

end
