(* ===== verification/Rlp_Reader.thy ===== *)
theory Rlp_Reader
  imports Go_Values
begin

section \<open>Reading RLP (contracts/amb/libraries/RLPReader.sol)\<close>

text \<open>
  The bridge contract reads trie nodes, accounts and receipts with a library that computes pointers into
  memory. It never checks that an item ends where its container ends, so it may read behind an object;
  the memory is therefore a function on all addresses. A \<^verbatim>\<open>bytes memory\<close> value is the memory from its first
  byte on: \<open>alloc\<close> says what that memory is, and \<open>alloc_ok\<close> that it starts with the bytes of the value.
  Pointers stay far below \<open>2 ^ 256\<close> (an item starts inside its container and is shorter than \<open>2 ^ 64 + 9\<close>), so
  they are natural numbers; a checked subtraction that underflows reverts. \<open>None\<close> is a revert, gas is not counted.
\<close>

subsection \<open>RLP\<close>

datatype rlp = Str "byte list" | Items "rlp list"

fun byte_length :: "nat \<Rightarrow> nat" where
  "byte_length n = (if n = 0 then 0 else byte_length (n div 256) + 1)"

declare byte_length.simps [simp del]

text \<open>The prefix of a payload of \<open>n\<close> bytes.\<close>

definition rlp_prefix :: "nat \<Rightarrow> nat \<Rightarrow> byte list" where
  "rlp_prefix base n =
     (if n < 56 then [of_nat (base + n)]
      else of_nat (base + 55 + byte_length n) # be_bytes (byte_length n) n)"

definition single_byte :: "byte list \<Rightarrow> bool" where
  "single_byte bs \<longleftrightarrow> length bs = 1 \<and> unat (hd bs) < 0x80"

fun rlp_bytes :: "rlp \<Rightarrow> byte list" where
  "rlp_bytes (Str bs) = (if single_byte bs then bs else rlp_prefix 0x80 (length bs) @ bs)"
| "rlp_bytes (Items xs) = rlp_prefix 0xc0 (length (concat (map rlp_bytes xs))) @ concat (map rlp_bytes xs)"

subsection \<open>The reader\<close>

type_synonym memory = "nat \<Rightarrow> byte"

definition read :: "memory \<Rightarrow> nat \<Rightarrow> nat \<Rightarrow> byte list" where
  "read m p n = map (\<lambda>i. m (p + i)) [0 ..< n]"

definition mload :: "memory \<Rightarrow> nat \<Rightarrow> nat" where
  "mload m p = be_nat (read m p 32)"

record RLPItem =
  ri_len :: nat
  ri_memPtr :: nat

definition toRlpItem :: "byte list \<Rightarrow> RLPItem" where
  "toRlpItem item = \<lparr>ri_len = length item, ri_memPtr = 0\<rparr>"

definition itemLength :: "memory \<Rightarrow> nat \<Rightarrow> nat" where
  "itemLength m memPtr =
     (let byte0 = unat (m memPtr) in
      if byte0 < 0x80 then 1
      else if byte0 < 0xb8 then byte0 - 0x80 + 1
      else if byte0 < 0xc0 then
        (let byteLen = byte0 - 0xb7; dataLen = mload m (memPtr + 1) div 256 ^ (32 - byteLen)
         in dataLen + (byteLen + 1))
      else if byte0 < 0xf8 then byte0 - 0xc0 + 1
      else
        (let byteLen = byte0 - 0xf7; dataLen = mload m (memPtr + 1) div 256 ^ (32 - byteLen)
         in dataLen + (byteLen + 1)))"

definition payloadOffset :: "memory \<Rightarrow> nat \<Rightarrow> nat" where
  "payloadOffset m memPtr =
     (let byte0 = unat (m memPtr) in
      if byte0 < 0x80 then 0
      else if byte0 < 0xb8 \<or> byte0 \<ge> 0xc0 \<and> byte0 < 0xf8 then 1
      else if byte0 < 0xc0 then byte0 - (0xb8 - 1) + 1
      else byte0 - (0xf8 - 1) + 1)"

definition payloadLocation :: "memory \<Rightarrow> RLPItem \<Rightarrow> (nat \<times> nat) option" where
  "payloadLocation m item =
     (let offset = payloadOffset m (ri_memPtr item) in
      if offset \<le> ri_len item then Some (ri_memPtr item + offset, ri_len item - offset) else None)"

definition rlp_isList :: "memory \<Rightarrow> RLPItem \<Rightarrow> bool" where
  "rlp_isList m item \<longleftrightarrow> ri_len item \<noteq> 0 \<and> \<not> unat (m (ri_memPtr item)) < 0xc0"

lemma itemLength_pos [simp]: "0 < itemLength m p"
  by (simp add: itemLength_def Let_def)

text \<open>\<^verbatim>\<open>numItems\<close>; every item has at least one byte.\<close>

function num_items_loop :: "memory \<Rightarrow> nat \<Rightarrow> nat \<Rightarrow> nat \<Rightarrow> nat" where
  "num_items_loop m endPtr currPtr count =
     (if currPtr < endPtr then num_items_loop m endPtr (currPtr + itemLength m currPtr) (count + 1) else count)"
  by auto
termination
  by (relation "measure (\<lambda>(m, e, c, n). e - c)") (auto simp: diff_less_mono2)

declare num_items_loop.simps [simp del]

definition numItems :: "memory \<Rightarrow> RLPItem \<Rightarrow> nat" where
  "numItems m item =
     (if ri_len item = 0 then 0
      else num_items_loop m (ri_memPtr item + ri_len item) (ri_memPtr item + payloadOffset m (ri_memPtr item)) 0)"

fun list_loop :: "memory \<Rightarrow> nat \<Rightarrow> nat \<Rightarrow> RLPItem list" where
  "list_loop m 0 memPtr = []"
| "list_loop m (Suc n) memPtr =
     \<lparr>ri_len = itemLength m memPtr, ri_memPtr = memPtr\<rparr> # list_loop m n (memPtr + itemLength m memPtr)"

definition toList :: "memory \<Rightarrow> RLPItem \<Rightarrow> RLPItem list option" where
  "toList m item =
     (if rlp_isList m item
      then Some (list_loop m (numItems m item) (ri_memPtr item + payloadOffset m (ri_memPtr item)))
      else None)"

definition toUint :: "memory \<Rightarrow> RLPItem \<Rightarrow> nat option" where
  "toUint m item =
     (if 0 < ri_len item \<and> ri_len item \<le> 33 then
        (case payloadLocation m item of
           None \<Rightarrow> None
         | Some (memPtr, len) \<Rightarrow>
             Some (if len < 32 then mload m memPtr div 256 ^ (32 - len) else mload m memPtr))
      else None)"

definition toUintStrict :: "memory \<Rightarrow> RLPItem \<Rightarrow> nat option" where
  "toUintStrict m item = (if ri_len item = 33 then Some (mload m (ri_memPtr item + 1)) else None)"

text \<open>An address is the number of its 20 bytes.\<close>

definition toAddress :: "memory \<Rightarrow> RLPItem \<Rightarrow> nat option" where
  "toAddress m item = (if ri_len item = 21 then map_option (\<lambda>v. v mod 2 ^ 160) (toUint m item) else None)"

definition toBytes :: "memory \<Rightarrow> RLPItem \<Rightarrow> byte list option" where
  "toBytes m item =
     (if 0 < ri_len item
      then map_option (\<lambda>(memPtr, len). read m memPtr len) (payloadLocation m item)
      else None)"

subsection \<open>Memory that holds bytes\<close>

definition holds :: "memory \<Rightarrow> nat \<Rightarrow> byte list \<Rightarrow> bool" where
  "holds m p bs \<longleftrightarrow> read m p (length bs) = bs"

definition alloc_ok :: "(byte list \<Rightarrow> memory) \<Rightarrow> bool" where
  "alloc_ok alloc \<longleftrightarrow> (\<forall>bs. holds (alloc bs) 0 bs)"

lemma length_read [simp]: "length (read m p n) = n"
  by (simp add: read_def)

lemma read_0 [simp]: "read m p 0 = []"
  by (simp add: read_def)

lemma read_add: "read m p (a + b) = read m p a @ read m (p + a) b"
  by (rule nth_equalityI) (auto simp: read_def nth_append add.assoc)

lemma holds_append: "holds m p (xs @ ys) \<longleftrightarrow> holds m p xs \<and> holds m (p + length xs) ys"
  by (auto simp: holds_def read_add)

lemma holds_Nil [simp]: "holds m p []"
  by (simp add: holds_def)

lemma holds_Cons: "holds m p (x # xs) \<longleftrightarrow> m p = x \<and> holds m (p + 1) xs"
  using holds_append [of m p "[x]" xs] by (simp add: holds_def read_def)

lemma mload_div: "k \<le> 32 \<Longrightarrow> mload m p div 256 ^ (32 - k) = be_nat (read m p k)"
proof -
  assume k: "k \<le> 32"
  have "read m p 32 = read m p k @ read m (p + k) (32 - k)" using read_add [of m p k "32 - k"] k by simp
  moreover have "be_nat (read m (p + k) (32 - k)) < 256 ^ (32 - k)" using be_nat_less [of "read m (p + k) (32 - k)"] by simp
  ultimately show ?thesis by (simp add: mload_def be_nat_append)
qed

subsection \<open>Reading back an encoding\<close>

lemma byte_length_less: "n < 256 ^ byte_length n"
proof (induction n rule: byte_length.induct)
  case (1 n)
  then show ?case by (cases "n = 0") (simp_all add: byte_length.simps [of n] div_less_iff_less_mult mult.commute)
qed

lemma byte_length_le: "n < 256 ^ k \<Longrightarrow> byte_length n \<le> k"
proof (induction n arbitrary: k rule: byte_length.induct)
  case (1 n)
  show ?case
  proof (cases "n = 0")
    case False
    with 1(2) obtain j where j: "k = Suc j" by (cases k) auto
    with 1(2) have "n div 256 < 256 ^ j" by (simp add: div_less_iff_less_mult mult.commute)
    with 1(1) [OF False] False j show ?thesis by (simp add: byte_length.simps [of n])
  qed (simp add: byte_length.simps)
qed

lemma byte_length_pos: "0 < n \<Longrightarrow> 0 < byte_length n"
  by (simp add: byte_length.simps [of n])

lemma be_nat_byte_length [simp]: "be_nat (be_bytes (byte_length n) n) = n"
  using byte_length_less by (simp add: be_nat_be_bytes)

text \<open>An encoding the reader can take in: every payload is shorter than \<open>2 ^ 64\<close>.\<close>

definition payload :: "rlp \<Rightarrow> byte list" where
  "payload r = (case r of Str bs \<Rightarrow> bs | Items xs \<Rightarrow> concat (map rlp_bytes xs))"

definition rlp_base :: "rlp \<Rightarrow> nat" where
  "rlp_base r = (case r of Str _ \<Rightarrow> 0x80 | Items _ \<Rightarrow> 0xc0)"

fun rlp_ok :: "rlp \<Rightarrow> bool" where
  "rlp_ok (Str bs) \<longleftrightarrow> length bs < 2 ^ 64"
| "rlp_ok (Items xs) \<longleftrightarrow> length (concat (map rlp_bytes xs)) < 2 ^ 64 \<and> (\<forall>x \<in> set xs. rlp_ok x)"

definition rlp_single :: "rlp \<Rightarrow> bool" where
  "rlp_single r = (case r of Str bs \<Rightarrow> single_byte bs | Items _ \<Rightarrow> False)"

lemma rlp_bytes_payload:
  "rlp_bytes r = (if rlp_single r then payload r else rlp_prefix (rlp_base r) (length (payload r)) @ payload r)"
  by (cases r) (simp_all add: payload_def rlp_base_def rlp_single_def)

lemma rlp_ok_payload: "rlp_ok r \<Longrightarrow> length (payload r) < 256 ^ 8"
  by (cases r) (simp_all add: payload_def)

text \<open>What the reader computes from the first bytes of an encoding.\<close>

lemma reader_encoding:
  assumes h: "holds m p (rlp_bytes r)" and ok: "rlp_ok r"
  shows itemLength_encoding: "itemLength m p = length (rlp_bytes r)"
    and payloadOffset_encoding: "payloadOffset m p + length (payload r) = length (rlp_bytes r)"
    and payload_encoding: "holds m (p + payloadOffset m p) (payload r)"
proof -
  let ?n = "length (payload r)"
  have base: "rlp_base r = 0x80 \<or> rlp_base r = 0xc0" by (simp add: rlp_base_def split: rlp.splits)
  have "itemLength m p = length (rlp_bytes r) \<and> payloadOffset m p + ?n = length (rlp_bytes r)
    \<and> holds m (p + payloadOffset m p) (payload r)"
  proof (cases "rlp_single r")
    case True
    then obtain b where b: "payload r = [b]" "unat b < 0x80"
      by (auto simp: rlp_single_def single_byte_def payload_def length_Suc_conv split: rlp.splits)
    then have "m p = b" using h True by (simp add: rlp_bytes_payload holds_Cons)
    with b h True show ?thesis by (simp add: rlp_bytes_payload itemLength_def payloadOffset_def)
  next
    case long: False
    have enc: "rlp_bytes r = rlp_prefix (rlp_base r) ?n @ payload r" using long by (simp add: rlp_bytes_payload)
    show ?thesis
    proof (cases "?n < 56")
      case True
      have "rlp_base r + ?n < 256" using True base by auto
      then have u: "unat (of_nat (rlp_base r + ?n) :: byte) = rlp_base r + ?n"
        by (simp only: unat_of_nat) (simp add: take_bit_eq_mod)
      have "m p = of_nat (rlp_base r + ?n)" "holds m (p + 1) (payload r)"
        using h True by (simp_all add: enc rlp_prefix_def holds_Cons holds_append)
      then have b: "unat (m p) = rlp_base r + ?n" using u by simp
      have "payloadOffset m p = 1" "itemLength m p = ?n + 1"
        using b True base by (auto simp: payloadOffset_def itemLength_def Let_def)
      then show ?thesis using \<open>holds m (p + 1) (payload r)\<close> True by (simp add: enc rlp_prefix_def)
    next
      case False
      let ?k = "byte_length ?n"
      have k: "0 < ?k" "?k \<le> 8"
        using byte_length_pos [of ?n] byte_length_le [OF rlp_ok_payload [OF ok]] False by (linarith, simp)
      have "rlp_base r + 55 + ?k < 256" using k base by auto
      then have u: "unat (of_nat (rlp_base r + 55 + ?k) :: byte) = rlp_base r + 55 + ?k"
        by (simp only: unat_of_nat) (simp add: take_bit_eq_mod)
      have "m p = of_nat (rlp_base r + 55 + ?k)" and len: "holds m (p + 1) (be_bytes ?k ?n)"
        and pay: "holds m (p + 1 + ?k) (payload r)"
        using h False by (simp_all add: enc rlp_prefix_def holds_Cons holds_append)
      then have b: "unat (m p) = rlp_base r + 55 + ?k" using u by simp
      have "mload m (p + 1) div 256 ^ (32 - ?k) = ?n"
        using mload_div [of ?k m "p + 1"] len k by (simp add: holds_def)
      then have "itemLength m p = ?n + (?k + 1)" "payloadOffset m p = ?k + 1"
        using b k base by (auto simp: payloadOffset_def itemLength_def Let_def)
      then show ?thesis using pay False by (simp add: enc rlp_prefix_def add.assoc add.commute)
    qed
  qed
  then show "itemLength m p = length (rlp_bytes r)" "payloadOffset m p + ?n = length (rlp_bytes r)"
    "holds m (p + payloadOffset m p) (payload r)" by simp_all
qed

lemma rlp_bytes_nonempty [simp]: "rlp_bytes r \<noteq> []"
  by (cases r) (auto simp: rlp_prefix_def single_byte_def)

text \<open>The item of an encoding at an address.\<close>

definition item_of :: "nat \<Rightarrow> rlp \<Rightarrow> RLPItem" where
  "item_of p r = \<lparr>ri_len = length (rlp_bytes r), ri_memPtr = p\<rparr>"

lemma toRlpItem_encoding: "toRlpItem (rlp_bytes r) = item_of 0 r"
  by (simp add: toRlpItem_def item_of_def)

fun slots :: "nat \<Rightarrow> rlp list \<Rightarrow> RLPItem list" where
  "slots p [] = []"
| "slots p (x # xs) = item_of p x # slots (p + length (rlp_bytes x)) xs"

lemma length_slots [simp]: "length (slots p xs) = length xs"
  by (induction xs arbitrary: p) auto

lemma slots_nth:
  assumes "i < length xs" and "holds m p (concat (map rlp_bytes xs))"
  obtains q where "slots p xs ! i = item_of q (xs ! i)" and "holds m q (rlp_bytes (xs ! i))"
  using assms
proof (induction xs arbitrary: p i thesis)
  case (Cons x xs)
  show ?case
  proof (cases i)
    case 0
    then show ?thesis using Cons.prems by (auto simp: holds_append)
  next
    case (Suc j)
    then show ?thesis using Cons.prems by (auto simp: holds_append intro: Cons.IH)
  qed
qed simp

lemma num_items_loop_encoding:
  assumes "holds m p (concat (map rlp_bytes xs))" and "\<forall>x \<in> set xs. rlp_ok x"
  shows "num_items_loop m (p + length (concat (map rlp_bytes xs))) p count = count + length xs"
  using assms
proof (induction xs arbitrary: p count)
  case (Cons x xs)
  then have "itemLength m p = length (rlp_bytes x)" by (simp add: holds_append itemLength_encoding)
  moreover have "0 < length (rlp_bytes x)" by simp
  ultimately show ?case
    using Cons.IH [of "p + length (rlp_bytes x)" "count + 1"] Cons.prems
    by (subst num_items_loop.simps) (simp add: holds_append add.assoc)
qed (simp add: num_items_loop.simps)

lemma list_loop_encoding:
  assumes "holds m p (concat (map rlp_bytes xs))" and "\<forall>x \<in> set xs. rlp_ok x"
  shows "list_loop m (length xs) p = slots p xs"
  using assms
  by (induction xs arbitrary: p) (auto simp: holds_append itemLength_encoding item_of_def)

lemma first_byte_list:
  assumes "holds m p (rlp_bytes r)" and "rlp_ok r"
  shows "unat (m p) < 0xc0 \<longleftrightarrow> (case r of Str _ \<Rightarrow> True | Items _ \<Rightarrow> False)"
proof (cases "rlp_single r")
  case True
  then show ?thesis using assms(1)
    by (auto simp: rlp_single_def single_byte_def length_Suc_conv holds_Cons split: rlp.splits)
next
  case long: False
  let ?n = "length (payload r)"
  have enc: "rlp_bytes r = rlp_prefix (rlp_base r) ?n @ payload r" using long by (simp add: rlp_bytes_payload)
  have "byte_length ?n \<le> 8" using byte_length_le [OF rlp_ok_payload [OF assms(2)]] .
  then have lt: "rlp_base r + (if ?n < 56 then ?n else 55 + byte_length ?n) < rlp_base r + 64" by simp
  have "m p = of_nat (rlp_base r + (if ?n < 56 then ?n else 55 + byte_length ?n))"
    using assms(1) by (simp add: enc rlp_prefix_def holds_append holds_Cons add.assoc split: if_splits)
  moreover have "rlp_base r + 64 \<le> 256" by (simp add: rlp_base_def split: rlp.splits)
  ultimately have "unat (m p) = rlp_base r + (if ?n < 56 then ?n else 55 + byte_length ?n)"
    using lt by (simp only: unat_of_nat) (simp add: take_bit_eq_mod)
  then obtain d where "unat (m p) = rlp_base r + d" "d < 64" using lt by (meson add_less_cancel_left)
  then show ?thesis by (cases r) (simp_all add: rlp_base_def)
qed

lemma rlp_isList_encoding:
  "holds m p (rlp_bytes r) \<Longrightarrow> rlp_ok r \<Longrightarrow> rlp_isList m (item_of p r) \<longleftrightarrow> (\<exists>xs. r = Items xs)"
  using first_byte_list [of m p r] by (cases r) (simp_all add: rlp_isList_def item_of_def del: rlp_bytes.simps)

text \<open>The items of an encoded list are its elements, one after the other.\<close>

lemma toList_encoding:
  assumes "holds m p (rlp_bytes (Items xs))" and "rlp_ok (Items xs)"
  obtains q where "toList m (item_of p (Items xs)) = Some (slots q xs)" and "holds m q (concat (map rlp_bytes xs))"
proof
  let ?q = "p + payloadOffset m p" and ?e = "concat (map rlp_bytes xs)"
  show h: "holds m ?q ?e" using payload_encoding [OF assms] by (simp add: payload_def)
  have "p + length (rlp_bytes (Items xs)) = ?q + length ?e"
    using payloadOffset_encoding [OF assms] by (simp add: payload_def del: rlp_bytes.simps)
  then have "numItems m (item_of p (Items xs)) = length xs"
    using num_items_loop_encoding [OF h, of 0] assms(2)
    by (simp add: numItems_def item_of_def add.assoc del: rlp_bytes.simps)
  then show "toList m (item_of p (Items xs)) = Some (slots ?q xs)"
    using rlp_isList_encoding [OF assms] list_loop_encoding [OF h] assms(2)
    by (simp add: toList_def item_of_def del: rlp_bytes.simps)
qed

lemma toList_Str: "holds m p (rlp_bytes (Str bs)) \<Longrightarrow> rlp_ok (Str bs) \<Longrightarrow> toList m (item_of p (Str bs)) = None"
  using rlp_isList_encoding [of m p "Str bs"] by (simp add: toList_def del: rlp_bytes.simps)

lemma payloadLocation_encoding:
  assumes "holds m p (rlp_bytes r)" and "rlp_ok r"
  shows "payloadLocation m (item_of p r) = Some (p + payloadOffset m p, length (payload r))"
  using payloadOffset_encoding [OF assms] by (auto simp: payloadLocation_def item_of_def Let_def)

lemma toBytes_encoding:
  assumes "holds m p (rlp_bytes r)" and "rlp_ok r"
  shows "toBytes m (item_of p r) = Some (payload r)"
  using payloadLocation_encoding [OF assms] payload_encoding [OF assms]
  by (simp add: toBytes_def item_of_def holds_def)

lemma toUint_encoding:
  assumes "holds m p (rlp_bytes r)" and "rlp_ok r" and "length (rlp_bytes r) \<le> 33" and "length (payload r) \<le> 32"
  shows "toUint m (item_of p r) = Some (be_nat (payload r))"
proof -
  let ?n = "length (payload r)"
  have "read m (p + payloadOffset m p) ?n = payload r" using payload_encoding [OF assms(1,2)] by (simp add: holds_def)
  then have "mload m (p + payloadOffset m p) div 256 ^ (32 - ?n) = be_nat (payload r)"
    using mload_div [OF assms(4)] by simp
  then show ?thesis
    using payloadLocation_encoding [OF assms(1,2)] assms(3,4)
    by (cases "?n = 32") (simp_all add: toUint_def item_of_def)
qed

lemma toUintStrict_encoding:
  assumes "holds m p (rlp_bytes (Str bs))" and "length bs = 32"
  shows "toUintStrict m (item_of p (Str bs)) = Some (be_nat bs)"
proof -
  have e: "rlp_bytes (Str bs) = 0xa0 # bs" using assms(2) by (simp add: single_byte_def rlp_prefix_def)
  with assms have "read m (p + 1) 32 = bs" by (simp add: holds_Cons) (simp add: holds_def)
  then show ?thesis unfolding toUintStrict_def item_of_def e using assms(2) by (simp add: mload_def)
qed

lemma toAddress_encoding:
  assumes "holds m p (rlp_bytes (Str bs))" and "length bs = 20"
  shows "toAddress m (item_of p (Str bs)) = Some (be_nat bs)"
proof -
  have len: "length (rlp_bytes (Str bs)) = 21" using assms(2) by (simp add: single_byte_def rlp_prefix_def)
  have "be_nat bs < 2 ^ 160" using be_nat_less [of bs] assms(2) by (simp add: power_mult [symmetric, of 2 8 20, simplified])
  then show ?thesis
    using toUint_encoding [OF assms(1)] len assms(2) by (simp add: toAddress_def item_of_def payload_def del: rlp_bytes.simps)
qed

subsection \<open>Sizes\<close>

lemma length_rlp_bytes_le:
  assumes "length (payload r) < 2 ^ 64"
  shows "length (rlp_bytes r) \<le> length (payload r) + 9"
proof -
  have "byte_length (length (payload r)) \<le> 8" using assms by (intro byte_length_le) simp
  then have "length (rlp_prefix b (length (payload r))) \<le> 9" for b by (simp add: rlp_prefix_def)
  then show ?thesis by (simp add: rlp_bytes_payload add.commute)
qed

text \<open>A bound on the size of an encoding, without the case distinctions of the prefixes.\<close>

fun rlp_size :: "rlp \<Rightarrow> nat" where
  "rlp_size (Str bs) = length bs + 9"
| "rlp_size (Items xs) = sum_list (map rlp_size xs) + 9"

lemma rlp_size_ok: "rlp_size r < 2 ^ 64 \<Longrightarrow> rlp_ok r \<and> length (rlp_bytes r) \<le> rlp_size r"
proof (induction r)
  case (Str bs)
  then show ?case using length_rlp_bytes_le [of "Str bs"] by (simp add: payload_def del: rlp_bytes.simps)
next
  case (Items xs)
  have small: "rlp_size x < 2 ^ 64" if "x \<in> set xs" for x
    using Items.prems member_le_sum_list [of "rlp_size x" "map rlp_size xs"] that by simp
  have "length (concat (map rlp_bytes xs)) = sum_list (map (length \<circ> rlp_bytes) xs)" by (simp add: length_concat)
  also have "\<dots> \<le> sum_list (map rlp_size xs)" using Items.IH small by (intro sum_list_mono) simp
  finally have len: "length (payload (Items xs)) \<le> sum_list (map rlp_size xs)" by (simp add: payload_def)
  with Items.prems have "length (payload (Items xs)) < 2 ^ 64" by simp
  then show ?case
    using length_rlp_bytes_le [of "Items xs"] len Items.IH small by (auto simp: payload_def simp del: rlp_bytes.simps)
qed

subsection \<open>Nested items\<close>

fun rlp_at :: "rlp \<Rightarrow> nat list \<Rightarrow> rlp option" where
  "rlp_at r [] = Some r"
| "rlp_at (Items xs) (i # path) = (if i < length xs then rlp_at (xs ! i) path else None)"
| "rlp_at (Str bs) (i # path) = None"

text \<open>The same path with the reader: one \<^verbatim>\<open>toList\<close> per step.\<close>

fun item_at :: "memory \<Rightarrow> RLPItem \<Rightarrow> nat list \<Rightarrow> RLPItem option" where
  "item_at m item [] = Some item"
| "item_at m item (i # path) =
     (case toList m item of
        None \<Rightarrow> None
      | Some ls \<Rightarrow> if i < length ls then item_at m (ls ! i) path else None)"

lemma item_at_encoding:
  assumes "holds m p (rlp_bytes r)" and "rlp_ok r"
  shows "case rlp_at r path of
      None \<Rightarrow> item_at m (item_of p r) path = None
    | Some s \<Rightarrow> \<exists>q. item_at m (item_of p r) path = Some (item_of q s) \<and> holds m q (rlp_bytes s) \<and> rlp_ok s"
  using assms
proof (induction r path arbitrary: p rule: rlp_at.induct)
  case (2 xs i path)
  obtain q where q: "toList m (item_of p (Items xs)) = Some (slots q xs)" "holds m q (concat (map rlp_bytes xs))"
    using toList_encoding [OF 2(2,3)] .
  show ?case
  proof (cases "i < length xs")
    case True
    obtain q' where "slots q xs ! i = item_of q' (xs ! i)" "holds m q' (rlp_bytes (xs ! i))"
      using slots_nth [OF True q(2)] .
    with 2(1) [OF True, of q'] 2(3) True q(1) show ?thesis by (cases "rlp_at (xs ! i) path") simp_all
  qed (simp add: q)
qed (auto simp: toList_Str simp del: rlp_bytes.simps)

text \<open>C19. What the contract's RLP reader gets out of an encoding, wherever it lies in memory and whatever follows
  it there: every path of list indices leads to the item of the value at that path, whose bytes the reader copies
  out exactly and which it takes for a list exactly if it is one; and the reader reverts on every path that the
  value does not have.\<close>

theorem reader_roundtrip:
  assumes "alloc_ok alloc" and "rlp_ok r"
  shows "case rlp_at r path of
      None \<Rightarrow> item_at (alloc (rlp_bytes r)) (toRlpItem (rlp_bytes r)) path = None
    | Some s \<Rightarrow> \<exists>item. item_at (alloc (rlp_bytes r)) (toRlpItem (rlp_bytes r)) path = Some item
         \<and> toBytes (alloc (rlp_bytes r)) item = Some (payload s)
         \<and> (rlp_isList (alloc (rlp_bytes r)) item \<longleftrightarrow> (\<exists>xs. s = Items xs))"
  using item_at_encoding [of "alloc (rlp_bytes r)" 0 r path] assms toBytes_encoding rlp_isList_encoding
  by (fastforce simp: alloc_ok_def toRlpItem_encoding split: option.splits)

text \<open>A log of two topics; behind it the memory is not zero.\<close>

definition sample_alloc :: "byte list \<Rightarrow> memory" where
  "sample_alloc bs = (\<lambda>i. if i < length bs then bs ! i else 0xff)"

lemma sample_alloc_ok: "alloc_ok sample_alloc"
  by (auto simp: alloc_ok_def holds_def read_def sample_alloc_def intro: nth_equalityI)

theorem reader_roundtrip_witness:
  "\<exists>item. item_at (sample_alloc (rlp_bytes (Items [Str [7], Items [Str [1, 2], Str []]])))
       (toRlpItem (rlp_bytes (Items [Str [7], Items [Str [1, 2], Str []]]))) [1, 0] = Some item
     \<and> toBytes (sample_alloc (rlp_bytes (Items [Str [7], Items [Str [1, 2], Str []]]))) item = Some [1, 2]"
  using reader_roundtrip [OF sample_alloc_ok, of "Items [Str [7], Items [Str [1, 2], Str []]]" "[1, 0]"]
  by (auto simp: payload_def single_byte_def rlp_prefix_def)

end
