(* ===== verification/Trie_Contract.thy ===== *)
theory Trie_Contract
  imports Rlp_Reader Merkle_Contract
begin

section \<open>The trie walk of the bridge contract (contracts/amb/libraries/MPT.sol)\<close>

text \<open>
  \<^verbatim>\<open>readProof\<close> follows a key from the first node of a proof to a leaf, checking every node against the hash
  in its parent. It looks at the key in branch nodes only: the paths of extensions and leaves are skipped, not
  compared. The hash function is an argument \<open>K\<close> (keccak256 is not defined by the repository), \<open>alloc\<close> is the memory
  of a node.
\<close>

subsection \<open>The code\<close>

definition mpt_nibble :: "u256 \<Rightarrow> nat \<Rightarrow> nat" where
  "mpt_nibble key i = unat (drop_bit (unat (4 * (63 - of_nat i) :: u256)) key) mod 16"

definition decodePathLength :: "byte list \<Rightarrow> (nat \<times> bool) option" where
  "decodePathLength path =
     (case path of
        [] \<Rightarrow> None
      | b # _ \<Rightarrow> let nibble = unat b div 16 in Some ((length path - 1) * 2 + nibble mod 2, nibble > 1))"

text \<open>The loop, on the current node and the rest of the proof.\<close>

fun read_proof_loop ::
  "(byte list \<Rightarrow> memory) \<Rightarrow> (byte list \<Rightarrow> hash) \<Rightarrow> u256 \<Rightarrow> byte list \<Rightarrow> nat \<Rightarrow> byte list list \<Rightarrow> byte list option"
and read_proof_next ::
  "(byte list \<Rightarrow> memory) \<Rightarrow> (byte list \<Rightarrow> hash) \<Rightarrow> u256 \<Rightarrow> nat option \<Rightarrow> nat \<Rightarrow> byte list list \<Rightarrow> byte list option"
where
  "read_proof_loop alloc K key node pos rest =
     (let m = alloc node in
      case toList m (toRlpItem node) of
        None \<Rightarrow> None
      | Some ls \<Rightarrow>
          if length ls = 17 then read_proof_next alloc K key (toUint m (ls ! mpt_nibble key pos)) (pos + 1) rest
          else if length ls = 2 then
            (case toBytes m (ls ! 0) of
               None \<Rightarrow> None
             | Some path \<Rightarrow>
                 (case decodePathLength path of
                    None \<Rightarrow> None
                  | Some (n, isLeaf) \<Rightarrow>
                      if isLeaf then toBytes m (ls ! 1)
                      else read_proof_next alloc K key (toUint m (ls ! 1)) (pos + n) rest))
          else None)"
| "read_proof_next alloc K key None pos rest = None"
| "read_proof_next alloc K key (Some root) pos [] = None"
| "read_proof_next alloc K key (Some root) pos (node # rest) =
     (if Hash (be_bytes 32 root) = K node then read_proof_loop alloc K key node pos rest else None)"

definition readProof ::
  "(byte list \<Rightarrow> memory) \<Rightarrow> (byte list \<Rightarrow> hash) \<Rightarrow> u256 \<Rightarrow> byte list list \<Rightarrow> byte list option"
where
  "readProof alloc K key nodes =
     (case nodes of [] \<Rightarrow> None | node # rest \<Rightarrow> read_proof_loop alloc K key node 0 rest)"

subsection \<open>Merkle Patricia tries\<close>

text \<open>
  The trie as the Ethereum specification has it. A branch has sixteen children and a value; a child whose
  encoding is shorter than 32 bytes is part of its parent.
\<close>

datatype trie = Leaf "nat list" "byte list" | Ext "nat list" trie | Branch "trie option list" "byte list"

fun nibble_bytes :: "nat list \<Rightarrow> byte list" where
  "nibble_bytes (a # b # ns) = of_nat (16 * a + b) # nibble_bytes ns"
| "nibble_bytes _ = []"

definition hex_prefix :: "bool \<Rightarrow> nat list \<Rightarrow> byte list" where
  "hex_prefix leaf ns =
     (let flag = (if leaf then 2 else 0) in
      if even (length ns) then of_nat (16 * flag) # nibble_bytes ns
      else of_nat (16 * (flag + 1) + hd ns) # nibble_bytes (tl ns))"

fun node_rlp :: "(byte list \<Rightarrow> hash) \<Rightarrow> trie \<Rightarrow> rlp" and node_ref :: "(byte list \<Rightarrow> hash) \<Rightarrow> trie \<Rightarrow> rlp" where
  "node_rlp K (Leaf ns v) = Items [Str (hex_prefix True ns), Str v]"
| "node_rlp K (Ext ns t) = Items [Str (hex_prefix False ns), node_ref K t]"
| "node_rlp K (Branch ts v) = Items (map (\<lambda>c. case c of None \<Rightarrow> Str [] | Some t \<Rightarrow> node_ref K t) ts @ [Str v])"
| "node_ref K t =
     (let r = node_rlp K t in if length (rlp_bytes r) < 32 then r else Str (Bytes (K (rlp_bytes r))))"

text \<open>The tries that the contract can read: nibbles are below 16, branches are complete, payloads have lengths that
  RLP can express, values are in leaves, and no node but the root is short enough to be part of its parent.\<close>

fun trie_ok :: "(byte list \<Rightarrow> hash) \<Rightarrow> trie \<Rightarrow> bool" where
  "trie_ok K (Leaf ns v) \<longleftrightarrow> (\<forall>n \<in> set ns. n < 16) \<and> rlp_ok (node_rlp K (Leaf ns v))"
| "trie_ok K (Ext ns t) \<longleftrightarrow> (\<forall>n \<in> set ns. n < 16) \<and> rlp_ok (node_rlp K (Ext ns t))
     \<and> trie_ok K t \<and> 32 \<le> length (rlp_bytes (node_rlp K t))"
| "trie_ok K (Branch ts v) \<longleftrightarrow> length ts = 16 \<and> v = [] \<and> rlp_ok (node_rlp K (Branch ts v))
     \<and> (\<forall>c \<in> set ts. case c of None \<Rightarrow> True | Some t \<Rightarrow> trie_ok K t \<and> 32 \<le> length (rlp_bytes (node_rlp K t)))"

lemma size_child: "i < length ts \<Longrightarrow> ts ! i = Some t \<Longrightarrow> size t < size (Branch ts v)"
proof -
  assume "i < length ts" "ts ! i = Some t"
  then have "Some t \<in> set ts" by (metis nth_mem)
  then have "size_option size (Some t) \<le> size_list (size_option size) ts" by (rule size_list_estimation') simp
  then show ?thesis by simp
qed

lemma trie_ok_child:
  assumes "trie_ok K (Branch ts v)" and "i < length ts" and "ts ! i = Some t"
  shows "trie_ok K t" and "32 \<le> length (rlp_bytes (node_rlp K t))"
proof -
  have "Some t \<in> set ts" using assms(2,3) by (metis nth_mem)
  then show "trie_ok K t" "32 \<le> length (rlp_bytes (node_rlp K t))" using assms(1) by auto
qed

text \<open>The value at a key.\<close>

function lookup :: "trie \<Rightarrow> nat list \<Rightarrow> byte list option" where
  "lookup (Leaf p v) ns = (if ns = p then Some v else None)"
| "lookup (Ext p t) ns = (if take (length p) ns = p then lookup t (drop (length p) ns) else None)"
| "lookup (Branch ts v) [] = (if v = [] then None else Some v)"
| "lookup (Branch ts v) (n # ns) =
     (if n < length ts then (case ts ! n of None \<Rightarrow> None | Some t \<Rightarrow> lookup t ns) else None)"
  by pat_completeness auto
termination
  by (relation "measure (\<lambda>(t, ns). size t)") (auto dest: size_child [simplified])

text \<open>The nodes on the way to a key, root first: a proof as nodes serve it.\<close>

function trie_proof :: "(byte list \<Rightarrow> hash) \<Rightarrow> trie \<Rightarrow> nat list \<Rightarrow> byte list list" where
  "trie_proof K (Leaf p v) ns = [rlp_bytes (node_rlp K (Leaf p v))]"
| "trie_proof K (Ext p t) ns = rlp_bytes (node_rlp K (Ext p t)) #
     (if take (length p) ns = p then trie_proof K t (drop (length p) ns) else [])"
| "trie_proof K (Branch ts v) [] = [rlp_bytes (node_rlp K (Branch ts v))]"
| "trie_proof K (Branch ts v) (n # ns) = rlp_bytes (node_rlp K (Branch ts v)) #
     (if n < length ts then (case ts ! n of None \<Rightarrow> [] | Some t \<Rightarrow> trie_proof K t ns) else [])"
  by pat_completeness auto
termination
  by (relation "measure (\<lambda>(K, t, ns). size t)") (auto dest: size_child [simplified])

text \<open>What the contract computes, on the trie itself: it follows the nibbles of the key from branch to branch.\<close>

function walk :: "trie \<Rightarrow> (nat \<Rightarrow> nat) \<Rightarrow> nat \<Rightarrow> byte list option" where
  "walk (Leaf p v) key pos = Some v"
| "walk (Ext p t) key pos = walk t key (pos + length p)"
| "walk (Branch ts v) key pos =
     (if key pos < length ts then (case ts ! key pos of None \<Rightarrow> None | Some t \<Rightarrow> walk t key (pos + 1)) else None)"
  by pat_completeness auto
termination
  by (relation "measure (\<lambda>(t, key, pos). size t)") (auto dest: size_child [simplified])

subsection \<open>One node\<close>

lemma mpt_nibble_less [simp]: "mpt_nibble key i < 16"
  by (simp add: mpt_nibble_def)

lemma length_nibble_bytes: "length (nibble_bytes ns) = length ns div 2"
  by (induction ns rule: nibble_bytes.induct) auto

lemma decodePathLength_hex_prefix:
  assumes "\<forall>n \<in> set ns. n < 16"
  shows "decodePathLength (hex_prefix leaf ns) = Some (length ns, leaf)"
proof (cases "even (length ns)")
  case True
  then show ?thesis
    by (cases leaf) (auto simp: hex_prefix_def decodePathLength_def Let_def length_nibble_bytes)
next
  case False
  then obtain n ms where ns: "ns = n # ms" by (cases ns) auto
  with assms have n: "n < 16" by simp
  have u: "unat (of_nat (16 * (f + 1) + n) :: byte) div 16 = f + 1" if "f \<le> 2" for f
  proof -
    have "unat (of_nat (16 * (f + 1) + n) :: byte) = 16 * (f + 1) + n"
      using n that by (simp only: unat_of_nat) (simp add: take_bit_eq_mod)
    then show ?thesis using n by simp
  qed
  have "even (length ms)" using False ns by simp
  then show ?thesis
    using u [of 0] u [of 2] by (cases leaf) (auto simp: ns hex_prefix_def decodePathLength_def Let_def length_nibble_bytes)
qed

text \<open>The item of a child: its hash as a number, or 0 without a child.\<close>

definition child_root :: "(byte list \<Rightarrow> hash) \<Rightarrow> trie option \<Rightarrow> nat" where
  "child_root K c = (case c of None \<Rightarrow> 0 | Some t \<Rightarrow> be_nat (Bytes (K (rlp_bytes (node_rlp K t)))))"

definition child_rlp :: "(byte list \<Rightarrow> hash) \<Rightarrow> trie option \<Rightarrow> rlp" where
  "child_rlp K c = (case c of None \<Rightarrow> Str [] | Some t \<Rightarrow> node_ref K t)"

lemma toUint_child:
  assumes "holds m q (rlp_bytes (child_rlp K c))" and "\<forall>t. c = Some t \<longrightarrow> 32 \<le> length (rlp_bytes (node_rlp K t))"
  shows "toUint m (item_of q (child_rlp K c)) = Some (child_root K c)"
proof (cases c)
  case None
  then show ?thesis
    using toUint_encoding [of m q "Str []"] assms(1)
    by (simp add: child_rlp_def child_root_def payload_def single_byte_def rlp_prefix_def)
next
  case (Some t)
  let ?h = "Bytes (K (rlp_bytes (node_rlp K t)))"
  have r: "child_rlp K c = Str ?h" using Some assms(2) by (simp add: child_rlp_def Let_def)
  have "length (rlp_bytes (Str ?h)) = 33" by (simp add: single_byte_def rlp_prefix_def)
  then have "toUint m (item_of q (Str ?h)) = Some (be_nat ?h)"
    using toUint_encoding [of m q "Str ?h"] assms(1) unfolding r by (simp add: payload_def del: rlp_bytes.simps)
  then show ?thesis unfolding r by (simp add: child_root_def Some)
qed

lemma loop_node:
  assumes "alloc_ok alloc" and "trie_ok K t"
  shows "read_proof_loop alloc K key (rlp_bytes (node_rlp K t)) pos rest =
    (case t of
       Leaf p v \<Rightarrow> Some v
     | Ext p t' \<Rightarrow> read_proof_next alloc K key (Some (child_root K (Some t'))) (pos + length p) rest
     | Branch ts v \<Rightarrow> read_proof_next alloc K key (Some (child_root K (ts ! mpt_nibble key pos))) (pos + 1) rest)"
proof -
  let ?node = "rlp_bytes (node_rlp K t)"
  let ?m = "alloc ?node"
  obtain xs where xs: "node_rlp K t = Items xs" by (cases t) auto
  have ok: "rlp_ok (Items xs)" using assms(2) xs by (cases t) auto
  have h: "holds ?m 0 (rlp_bytes (Items xs))" using assms(1) unfolding alloc_ok_def xs [symmetric] by blast
  obtain q where q: "toList ?m (toRlpItem ?node) = Some (slots q xs)" "holds ?m q (concat (map rlp_bytes xs))"
    using toList_encoding [OF h ok] unfolding xs toRlpItem_encoding by metis
  have slot: "\<exists>q'. slots q xs ! i = item_of q' (xs ! i) \<and> holds ?m q' (rlp_bytes (xs ! i))" if "i < length xs" for i
    using slots_nth [OF that q(2)] by metis
  have bytes: "toBytes ?m (slots q xs ! i) = Some bs" if i: "i < length xs" and e: "xs ! i = Str bs" for i bs
  proof -
    obtain q' where "slots q xs ! i = item_of q' (xs ! i)" "holds ?m q' (rlp_bytes (xs ! i))" using slot [OF i] by blast
    moreover have "rlp_ok (xs ! i)" using ok nth_mem [OF i] by simp
    ultimately show ?thesis using toBytes_encoding [of ?m q' "xs ! i"] e by (simp add: payload_def del: rlp_bytes.simps)
  qed
  have child: "toUint ?m (slots q xs ! i) = Some (child_root K c)"
    if "i < length xs" "xs ! i = child_rlp K c" "\<forall>t. c = Some t \<longrightarrow> 32 \<le> length (rlp_bytes (node_rlp K t))" for i c
    using slot [OF that(1)] toUint_child [of ?m _ K c] that(2,3) by metis
  show ?thesis
  proof (cases t)
    case (Leaf p v)
    then have "xs = [Str (hex_prefix True p), Str v]" using xs by simp
    then show ?thesis
      using Leaf assms(2) q(1) bytes [of 0] bytes [of 1] decodePathLength_hex_prefix [of p True]
      by (simp add: Let_def del: rlp_bytes.simps)
  next
    case (Ext p t')
    then have e: "xs = [Str (hex_prefix False p), child_rlp K (Some t')]" using xs by (simp add: child_rlp_def)
    show ?thesis
      using Ext assms(2) q(1) bytes [of 0] child [of 1 "Some t'"] decodePathLength_hex_prefix [of p False] e
      by (simp add: Let_def del: rlp_bytes.simps node_ref.simps)
  next
    case (Branch ts v)
    then have e: "xs = map (child_rlp K) ts @ [Str v]" and len: "length ts = 16"
      using xs assms(2) by (auto simp: child_rlp_def)
    let ?i = "mpt_nibble key pos"
    have i: "?i < length ts" by (simp add: len)
    then have "xs ! ?i = child_rlp K (ts ! ?i)" by (simp add: e nth_append)
    moreover have "\<forall>t. ts ! ?i = Some t \<longrightarrow> 32 \<le> length (rlp_bytes (node_rlp K t))"
      using trie_ok_child(2) [OF _ i] assms(2) Branch by blast
    ultimately have "toUint ?m (slots q xs ! ?i) = Some (child_root K (ts ! ?i))"
      using child [of ?i "ts ! ?i"] i e by simp
    then show ?thesis using Branch q(1) e len by (simp add: Let_def del: rlp_bytes.simps)
  qed
qed

subsection \<open>What a proof shows\<close>

fun encodings :: "(byte list \<Rightarrow> hash) \<Rightarrow> trie \<Rightarrow> byte list set" where
  "encodings K (Leaf p v) = {rlp_bytes (node_rlp K (Leaf p v))}"
| "encodings K (Ext p t) = insert (rlp_bytes (node_rlp K (Ext p t))) (encodings K t)"
| "encodings K (Branch ts v) = insert (rlp_bytes (node_rlp K (Branch ts v)))
     (\<Union>c \<in> set ts. case c of None \<Rightarrow> {} | Some t \<Rightarrow> encodings K t)"

text \<open>A proof that breaks the hash function: one of its nodes has the hash of another node of the trie, or the hash 0.\<close>

definition forged :: "(byte list \<Rightarrow> hash) \<Rightarrow> byte list list \<Rightarrow> trie \<Rightarrow> bool" where
  "forged K nodes t \<longleftrightarrow> (\<exists>a \<in> set nodes. K a = zero_hash \<or> (\<exists>b \<in> encodings K t. a \<noteq> b \<and> K a = K b))"

lemma forged_Cons: "\<not> forged K (a # rest) t \<Longrightarrow> \<not> forged K rest t"
  by (auto simp: forged_def)

lemma encodings_root [simp]: "rlp_bytes (node_rlp K t) \<in> encodings K t"
  by (cases t) simp_all

lemma encodings_child: "i < length ts \<Longrightarrow> ts ! i = Some t \<Longrightarrow> encodings K t \<subseteq> encodings K (Branch ts v)"
proof -
  assume "i < length ts" "ts ! i = Some t"
  then have "Some t \<in> set ts" by (metis nth_mem)
  then show ?thesis by force
qed

lemma forged_mono: "\<not> forged K rest t \<Longrightarrow> encodings K t' \<subseteq> encodings K t \<Longrightarrow> \<not> forged K rest t'"
  by (auto simp: forged_def)

lemma child_root_hash: "Hash (be_bytes 32 (child_root K c)) = (case c of None \<Rightarrow> zero_hash | Some t \<Rightarrow> K (rlp_bytes (node_rlp K t)))"
proof (cases c)
  case None
  have "be_bytes n 0 = replicate n 0" for n by (induction n) (simp_all add: replicate_append_same)
  then show ?thesis using None by (simp add: child_root_def zero_hash_def)
qed (simp add: child_root_def)

text \<open>One step down: the next node of the proof is the child's encoding, or the proof is forged.\<close>

lemma next_node:
  assumes "read_proof_next alloc K key (Some (child_root K c)) pos rest = Some v" and "\<forall>t. c = Some t \<longrightarrow> \<not> forged K rest t"
    and "\<forall>a \<in> set rest. K a \<noteq> zero_hash"
  obtains t rest' where "c = Some t" and "\<not> forged K rest' t"
    and "read_proof_loop alloc K key (rlp_bytes (node_rlp K t)) pos rest' = Some v"
proof -
  from assms(1) obtain node rest' where r: "rest = node # rest'" "Hash (be_bytes 32 (child_root K c)) = K node"
    "read_proof_loop alloc K key node pos rest' = Some v"
    by (cases rest) (auto split: if_splits)
  show ?thesis
  proof (cases c)
    case None
    then show ?thesis using r(1,2) assms(3) by (auto simp: child_root_hash)
  next
    case (Some t)
    then have "K (rlp_bytes (node_rlp K t)) = K node" using r(2) by (simp add: child_root_hash)
    moreover have f: "\<not> forged K (node # rest') t" using assms(2) Some r(1) by simp
    ultimately have "node = rlp_bytes (node_rlp K t)"
      by (auto simp: forged_def dest: bspec [OF _ encodings_root [of K t]])
    then show ?thesis using that Some r forged_Cons [OF f] by blast
  qed
qed

lemma loop_walk:
  assumes "alloc_ok alloc"
  shows "trie_ok K t \<Longrightarrow> \<not> forged K rest t \<Longrightarrow>
    read_proof_loop alloc K key (rlp_bytes (node_rlp K t)) pos rest = Some v \<Longrightarrow> walk t (mpt_nibble key) pos = Some v"
proof (induction t "mpt_nibble key" pos arbitrary: rest rule: walk.induct)
  case (1 p v' pos)
  then show ?case using loop_node [OF assms 1(1)] by (simp del: read_proof_loop.simps)
next
  case (2 p t pos)
  have "read_proof_next alloc K key (Some (child_root K (Some t))) (pos + length p) rest = Some v"
    using loop_node [OF assms 2(2)] 2(4) by (simp del: read_proof_loop.simps)
  moreover have "\<not> forged K rest t" by (rule forged_mono [OF 2(3)]) auto
  ultimately obtain rest' where "\<not> forged K rest' t"
    "read_proof_loop alloc K key (rlp_bytes (node_rlp K t)) (pos + length p) rest' = Some v"
    using 2(3) by (elim next_node) (auto simp: forged_def)
  with 2(1,2) show ?case by simp
next
  case (3 ts v' pos)
  let ?i = "mpt_nibble key pos"
  have i: "?i < length ts" using 3(2) by simp
  have "read_proof_next alloc K key (Some (child_root K (ts ! ?i))) (pos + 1) rest = Some v"
    using loop_node [OF assms 3(2)] 3(4) by (simp del: read_proof_loop.simps)
  moreover have "\<forall>t. ts ! ?i = Some t \<longrightarrow> \<not> forged K rest t" using forged_mono [OF 3(3) encodings_child [OF i]] by blast
  ultimately obtain t rest' where t: "ts ! ?i = Some t" "\<not> forged K rest' t"
    "read_proof_loop alloc K key (rlp_bytes (node_rlp K t)) (pos + 1) rest' = Some v"
    using 3(3) by (elim next_node) (auto simp: forged_def)
  have "trie_ok K t" using trie_ok_child(1) [OF 3(2) i t(1)] .
  with 3(1) [OF i t(1)] t i show ?case by simp
qed

text \<open>The nodes the walk passes.\<close>

definition agrees :: "(nat \<Rightarrow> nat) \<Rightarrow> nat \<Rightarrow> nat list \<Rightarrow> bool" where
  "agrees key pos ns \<longleftrightarrow> (\<forall>i < length ns. key (pos + i) = ns ! i)"

lemma agrees_Cons: "agrees key pos (n # ns) \<longleftrightarrow> key pos = n \<and> agrees key (pos + 1) ns"
  by (auto simp: agrees_def nth_Cons split: nat.splits)

lemma agrees_drop: "agrees key pos ns \<Longrightarrow> take (length p) ns = p \<Longrightarrow> agrees key (pos + length p) (drop (length p) ns)"
  by (auto simp: agrees_def add.assoc dest: spec [of _ "length p + _"])

lemma walk_lookup:
  "trie_ok K t \<Longrightarrow> lookup t ns = Some v \<Longrightarrow> agrees key pos ns \<Longrightarrow> walk t key pos = Some v"
proof (induction t ns arbitrary: pos rule: lookup.induct)
  case (2 p t ns)
  then show ?case by (auto simp: agrees_drop split: if_splits)
next
  case (4 ts v' n ns)
  then obtain t where "n < length ts" "ts ! n = Some t" "lookup t ns = Some v" by (auto split: if_splits option.splits)
  moreover from this have "trie_ok K t" using trie_ok_child(1) [OF 4(2)] by blast
  ultimately show ?case using 4(1) 4(4) by (simp add: agrees_Cons)
qed (auto split: if_splits)

lemma walk_key: "trie_ok K t \<Longrightarrow> walk t key pos = Some v \<Longrightarrow> \<exists>ns. lookup t ns = Some v"
proof (induction t key pos rule: walk.induct)
  case (2 p t key pos)
  then obtain ns where "lookup t ns = Some v" by auto
  then have "lookup (Ext p t) (p @ ns) = Some v" by simp
  then show ?case ..
next
  case (3 ts v' key pos)
  then obtain t where t: "key pos < length ts" "ts ! key pos = Some t" "walk t key (pos + 1) = Some v"
    by (auto split: if_splits option.splits)
  then have "trie_ok K t" using trie_ok_child(1) [OF 3(2)] by blast
  then obtain ns where "lookup t ns = Some v" using 3(1) t by blast
  then have "lookup (Branch ts v') (key pos # ns) = Some v" using t by simp
  then show ?case ..
qed auto

lemma proof_loop:
  assumes "alloc_ok alloc"
  shows "trie_ok K t \<Longrightarrow> lookup t ns = Some v \<Longrightarrow> agrees (mpt_nibble key) pos ns \<Longrightarrow>
    \<exists>rest. trie_proof K t ns = rlp_bytes (node_rlp K t) # rest
      \<and> read_proof_loop alloc K key (rlp_bytes (node_rlp K t)) pos rest = Some v"
proof (induction t ns arbitrary: pos rule: lookup.induct)
  case (1 p v' ns)
  then show ?case using loop_node [OF assms 1(1)] by (auto simp del: read_proof_loop.simps split: if_splits)
next
  case (2 p t ns)
  then have p: "take (length p) ns = p" "lookup t (drop (length p) ns) = Some v" by (auto split: if_splits)
  obtain rest where "trie_proof K t (drop (length p) ns) = rlp_bytes (node_rlp K t) # rest"
    "read_proof_loop alloc K key (rlp_bytes (node_rlp K t)) (pos + length p) rest = Some v"
    using 2(1) [OF p(1) _ p(2) agrees_drop [OF 2(4) p(1)]] 2(2) by auto
  then show ?case using loop_node [OF assms 2(2)] p by (simp add: child_root_hash del: read_proof_loop.simps)
next
  case (3 ts v')
  then show ?case by simp
next
  case (4 ts v' n ns)
  then obtain t where t: "n < length ts" "ts ! n = Some t" "lookup t ns = Some v"
    by (auto split: if_splits option.splits)
  then have "trie_ok K t" using trie_ok_child(1) [OF 4(2)] by blast
  then obtain rest where "trie_proof K t ns = rlp_bytes (node_rlp K t) # rest"
    "read_proof_loop alloc K key (rlp_bytes (node_rlp K t)) (pos + 1) rest = Some v"
    using 4(1) [OF t(1,2) _ t(3)] 4(4) by (auto simp: agrees_Cons)
  then show ?case using loop_node [OF assms 4(2)] t 4(4)
    by (simp add: child_root_hash agrees_Cons del: read_proof_loop.simps)
qed

subsection \<open>Complete and sound\<close>

lemma readProof_walk:
  assumes "alloc_ok alloc" and "trie_ok K t" and "K (hd nodes) = K (rlp_bytes (node_rlp K t))"
    and "readProof alloc K key nodes = Some v"
  shows "forged K nodes t \<or> walk t (mpt_nibble key) 0 = Some v"
proof (cases "forged K nodes t")
  case False
  from assms(4) obtain node rest where p: "nodes = node # rest" and loop: "read_proof_loop alloc K key node 0 rest = Some v"
    by (cases nodes) (auto simp: readProof_def)
  have "node = rlp_bytes (node_rlp K t)"
    using False assms(3) p by (auto simp: forged_def dest: bspec [OF _ encodings_root [of K t]])
  moreover have "\<not> forged K rest t" using False forged_Cons p by blast
  ultimately show ?thesis using loop loop_walk [OF assms(1,2)] by blast
qed simp

lemma readProof_accepted:
  assumes "alloc_ok alloc" and "trie_ok K t" and "K (hd nodes) = K (rlp_bytes (node_rlp K t))"
    and "readProof alloc K key nodes = Some v"
  shows "forged K nodes t \<or> (\<exists>ns. lookup t ns = Some v)"
  using readProof_walk [OF assms] walk_key [OF assms(2)] by blast

lemma readProof_served:
  assumes "alloc_ok alloc" and "trie_ok K t" and "lookup t ns = Some v" and "agrees (mpt_nibble key) 0 ns"
  shows "readProof alloc K key (trie_proof K t ns) = Some v"
  using proof_loop [OF assms] by (auto simp: readProof_def simp del: read_proof_loop.simps)

text \<open>C18. The proof that a node serves for a key of a trie is accepted by \<^verbatim>\<open>readProof\<close> and gives the value at
  that key, whatever nibbles the contract's 256-bit key has behind it. And what \<^verbatim>\<open>readProof\<close> returns for any proof
  whose first node has the root hash of the trie is a value of the trie, and the value at the key if the key is
  in the trie; otherwise a node of the proof is a collision with a node of the trie, or a preimage of zero.\<close>

theorem readProof_correct:
  assumes "alloc_ok alloc" and "trie_ok K t"
  shows "(\<forall>ns v. lookup t ns = Some v \<and> agrees (mpt_nibble key) 0 ns \<longrightarrow> readProof alloc K key (trie_proof K t ns) = Some v)
    \<and> (\<forall>nodes v. K (hd nodes) = K (rlp_bytes (node_rlp K t)) \<and> readProof alloc K key nodes = Some v \<longrightarrow>
         forged K nodes t \<or>
         (\<exists>ns. lookup t ns = Some v) \<and> (\<forall>ns v'. agrees (mpt_nibble key) 0 ns \<and> lookup t ns = Some v' \<longrightarrow> v' = v))"
proof (intro conjI allI impI)
  fix ns v assume "lookup t ns = Some v \<and> agrees (mpt_nibble key) 0 ns"
  then show "readProof alloc K key (trie_proof K t ns) = Some v" using readProof_served [OF assms] by blast
next
  fix nodes v assume a: "K (hd nodes) = K (rlp_bytes (node_rlp K t)) \<and> readProof alloc K key nodes = Some v"
  then have "forged K nodes t \<or> walk t (mpt_nibble key) 0 = Some v" using readProof_walk [OF assms] by blast
  then show "forged K nodes t \<or>
    (\<exists>ns. lookup t ns = Some v) \<and> (\<forall>ns v'. agrees (mpt_nibble key) 0 ns \<and> lookup t ns = Some v' \<longrightarrow> v' = v)"
    using walk_key [OF assms(2)] walk_lookup [OF assms(2)] by fastforce
qed

subsection \<open>Keys\<close>

fun key_nibbles :: "byte list \<Rightarrow> nat list" where
  "key_nibbles [] = []"
| "key_nibbles (b # bs) = unat b div 16 # unat b mod 16 # key_nibbles bs"

lemma length_key_nibbles [simp]: "length (key_nibbles bs) = 2 * length bs"
  by (induction bs) auto

lemma key_nibbles_append: "key_nibbles (xs @ ys) = key_nibbles xs @ key_nibbles ys"
  by (induction xs) auto

lemma key_nibbles_snoc_nth:
  "i < 2 * length bs \<Longrightarrow> key_nibbles bs ! i = be_nat bs div 16 ^ (2 * length bs - 1 - i) mod 16"
proof (induction bs arbitrary: i rule: rev_induct)
  case (snoc b bs)
  let ?n = "length bs"
  consider "i < 2 * ?n" | "i = 2 * ?n" | "i = 2 * ?n + 1" using snoc.prems by fastforce
  then show ?case
  proof cases
    case 1
    have "(be_nat bs * 256 + unat b) div 256 = be_nat bs" using unsigned_less [of b, where 'a = nat] by simp
    moreover have "2 * length (bs @ [b]) - 1 - i = 2 + (2 * ?n - 1 - i)" using 1 by simp
    ultimately show ?thesis
      using 1 snoc.IH [OF 1] by (simp add: key_nibbles_append nth_append power_add div_mult2_eq)
  next
    case 2
    have "(be_nat bs * 256 + unat b) div 16 mod 16 = unat b div 16"
    proof -
      have "be_nat bs * 256 + unat b = unat b + 16 * (16 * be_nat bs)" by simp
      then have "(be_nat bs * 256 + unat b) div 16 = unat b div 16 + 16 * be_nat bs" by (simp only: div_mult_self2)
      moreover have "unat b div 16 < 16" using unsigned_less [of b, where 'a = nat] by (simp add: div_less_iff_less_mult)
      ultimately show ?thesis by (simp only: mod_mult_self2 mod_less)
    qed
    then show ?thesis using 2 by (simp add: key_nibbles_append nth_append)
  next
    case 3
    have "be_nat bs * 256 + unat b = unat b + 16 * (16 * be_nat bs)" by simp
    then have "(be_nat bs * 256 + unat b) mod 16 = unat b mod 16" by (simp only: mod_mult_self2)
    then show ?thesis using 3 by (simp add: key_nibbles_append nth_append)
  qed
qed simp

text \<open>The contract's nibbles are those of the 32 bytes of the key.\<close>

lemma mpt_nibble_key:
  assumes "i < 64"
  shows "mpt_nibble key i = key_nibbles (be_bytes 32 (unat key)) ! i"
proof -
  have "(4 * (63 - of_nat i) :: u256) = of_nat (4 * (63 - i))" using assms by (simp add: of_nat_diff)
  moreover have "unat (of_nat (4 * (63 - i)) :: u256) = 4 * (63 - i)"
    by (simp only: unat_of_nat) simp
  ultimately have "mpt_nibble key i = unat key div 2 ^ (4 * (63 - i)) mod 16"
    by (simp only: mpt_nibble_def unat_drop_bit_eq drop_bit_eq_div [of _ "unat key"])
  also have "\<dots> = unat key div 16 ^ (63 - i) mod 16" by (simp add: power_mult)
  finally show ?thesis
    using assms unsigned_less [of key, where 'a = nat]
    by (simp add: key_nibbles_snoc_nth be_nat_be_bytes)
qed

lemma agrees_key:
  assumes "take (length bs) (be_bytes 32 (unat key)) = bs"
  shows "agrees (mpt_nibble key) 0 (key_nibbles bs)"
proof -
  have len: "length bs \<le> 32" using assms by (metis length_be_bytes length_take min.cobounded2 min.commute)
  have "be_bytes 32 (unat key) = bs @ drop (length bs) (be_bytes 32 (unat key))" using assms by (metis append_take_drop_id)
  then have "key_nibbles (be_bytes 32 (unat key)) = key_nibbles bs @ key_nibbles (drop (length bs) (be_bytes 32 (unat key)))"
    by (metis key_nibbles_append)
  then show ?thesis using len by (simp add: agrees_def mpt_nibble_key nth_append)
qed

lemma agrees_hash_key: "agrees (mpt_nibble (of_nat (be_nat (Bytes h)))) 0 (key_nibbles (Bytes h))"
proof (rule agrees_key)
  have "be_nat (Bytes h) < 2 ^ 256" using be_nat_less [of "Bytes h"] by (simp add: power_mult [symmetric, of 2 8 32, simplified])
  then have "unat (of_nat (be_nat (Bytes h)) :: u256) = be_nat (Bytes h)" by (simp add: unat_of_nat)
  then show "take (length (Bytes h)) (be_bytes 32 (unat (of_nat (be_nat (Bytes h)) :: u256))) = Bytes h" by simp
qed

lemma key_nibbles_less: "n \<in> set (key_nibbles bs) \<Longrightarrow> n < 16"
proof (induction bs)
  case (Cons b bs)
  have "unat b < 256" using unsigned_less [of b, where 'a = nat] by simp
  then have "unat b div 16 < 16" by (simp add: div_less_iff_less_mult)
  then show ?case using Cons by auto
qed simp

text \<open>A trie of one value.\<close>

lemma single_trie_ok:
  assumes "\<forall>n \<in> set ns. n < 16" and "length ns < 2 ^ 32" and "length v < 2 ^ 32"
  shows "trie_ok K (Leaf ns v)"
proof -
  have "length (hex_prefix True ns) \<le> length ns + 1" by (auto simp: hex_prefix_def Let_def length_nibble_bytes intro: order_trans [OF div_le_dividend])
  then have "rlp_size (node_rlp K (Leaf ns v)) < 2 ^ 64" using assms(2,3) by simp
  then show ?thesis using rlp_size_ok [of "node_rlp K (Leaf ns v)"] assms(1) by simp
qed

subsection \<open>A sample trie\<close>

definition sample_hash :: hash where
  "sample_hash = Hash (replicate 32 3)"

text \<open>Two values, whose keys differ in the first nibble.\<close>

definition sample_trie :: trie where
  "sample_trie = Branch (replicate 5 None @ [Some (Leaf [1] (replicate 40 7))] @ replicate 3 None @ [Some (Leaf [2] (replicate 40 8))]
     @ replicate 6 None) []"

lemma sample_trie_ok: "trie_ok (\<lambda>_. sample_hash) sample_trie"
proof -
  have "rlp_size (node_rlp (\<lambda>_. sample_hash) sample_trie) < 2 ^ 64"
    by (simp add: sample_trie_def node_ref.simps Let_def hex_prefix_def rlp_prefix_def single_byte_def sum_list_replicate)
  then show ?thesis
    using rlp_size_ok [of "node_rlp (\<lambda>_. sample_hash) sample_trie"]
      single_trie_ok [of "[1]" "replicate 40 7"] single_trie_ok [of "[2]" "replicate 40 8"]
    unfolding sample_trie_def by (simp add: hex_prefix_def rlp_prefix_def single_byte_def del: trie_ok.simps(1))
qed

definition sample_key :: "u256 \<Rightarrow> u256" where
  "sample_key w = push_bit 248 w"

lemma sample_nibble: "mpt_nibble (sample_key 0x51) 0 = 5" "mpt_nibble (sample_key 0x51) 1 = 1"
  "mpt_nibble (sample_key 0x52) 0 = 5" "mpt_nibble (sample_key 0x52) 1 = 2"
  by (simp_all add: mpt_nibble_def sample_key_def)

theorem readProof_correct_witness:
  "readProof sample_alloc (\<lambda>_. sample_hash) (sample_key 0x51) (trie_proof (\<lambda>_. sample_hash) sample_trie [5, 1]) = Some (replicate 40 7)"
proof -
  have "lookup sample_trie [5, 1] = Some (replicate 40 7)" by (simp add: sample_trie_def nth_append)
  moreover have "agrees (mpt_nibble (sample_key 0x51)) 0 [5, 1]"
    using sample_nibble by (simp add: agrees_Cons) (simp add: agrees_def)
  ultimately show ?thesis using readProof_correct [OF sample_alloc_ok sample_trie_ok] by blast
qed

text \<open>The paths of leaves and extensions are not compared: the contract takes the value of another key for the value
  of a key that the trie does not have.\<close>

lemma readProof_absent_key:
  "lookup sample_trie [5, 2] = None"
  "agrees (mpt_nibble (sample_key 0x52)) 0 [5, 2]"
  "readProof sample_alloc (\<lambda>_. sample_hash) (sample_key 0x52) (trie_proof (\<lambda>_. sample_hash) sample_trie [5, 1]) = Some (replicate 40 7)"
proof -
  let ?K = "\<lambda>_ :: byte list. sample_hash" and ?t = "Leaf [1] (replicate 40 7)" and ?key = "sample_key 0x52"
  show "lookup sample_trie [5, 2] = None" by (simp add: sample_trie_def nth_append)
  show "agrees (mpt_nibble ?key) 0 [5, 2]" using sample_nibble by (simp add: agrees_Cons) (simp add: agrees_def)
  have "read_proof_loop sample_alloc ?K ?key (rlp_bytes (node_rlp ?K sample_trie)) 0 [rlp_bytes (node_rlp ?K ?t)]
      = read_proof_loop sample_alloc ?K ?key (rlp_bytes (node_rlp ?K ?t)) 1 []"
    unfolding loop_node [OF sample_alloc_ok sample_trie_ok]
    by (simp add: sample_trie_def sample_nibble nth_append child_root_hash del: read_proof_loop.simps node_rlp.simps)
  also have "\<dots> = Some (replicate 40 7)"
    using loop_node [OF sample_alloc_ok single_trie_ok [of "[1]" "replicate 40 7"]] by (simp del: read_proof_loop.simps)
  finally show "readProof sample_alloc ?K ?key (trie_proof ?K sample_trie [5, 1]) = Some (replicate 40 7)"
    by (simp add: readProof_def sample_trie_def nth_append del: read_proof_loop.simps node_rlp.simps)
qed

end
