(* ===== verification/Block_Search.thy ===== *)
theory Block_Search
  imports Light_Client
begin

section \<open>FindBeaconBlockByExecutionBlockNumber (oracle/lightclient/light\_client.go)\<close>

text \<open>
  The search for the beacon slot of an execution block: a bisection between the first slot of
  Bellatrix and the head, whose inner loop steps around missed slots in a zigzag
  \<open>m, m - 1, m + 1, m - 2, \<dots>\<close>. Slots are 64-bit words and both loops may in principle run forever,
  so both are \<open>partial_function (option)\<close>: \<open>None\<close> is "never returns".
\<close>

type_synonym get_block = "string \<Rightarrow> BeaconBlock go"

text \<open>The inner loop; the second component is the variable \<^verbatim>\<open>block\<close> (nil after a failed request).\<close>

partial_function (option) probe_loop ::
  "get_block \<Rightarrow> u64 \<Rightarrow> u64 \<Rightarrow> u64 \<Rightarrow> u64 \<Rightarrow> (u64 \<times> BeaconBlock option) go option"
where
  "probe_loop get l r s m =
     (if m \<ge> l \<and> m \<le> r then
        (case get (FormatUint m) of
           Inr block \<Rightarrow> Some (Inr (m, Some block))
         | Inl (Err err) \<Rightarrow> probe_loop get l r (s + 1) (if s mod 2 = 0 then m + s else m - s)
         | Inl f \<Rightarrow> Some (Inl f))
      else Some (Inr (m, None)))"

text \<open>The condition \<^verbatim>\<open>ExecutionPayload == nil || ExecutionPayload.BlockNumber < blockNumber\<close>\<close>

definition block_before :: "u64 \<Rightarrow> BeaconBlock \<Rightarrow> bool" where
  "block_before n b = (case bd_ExecutionPayload (bk_Body b) of None \<Rightarrow> True | Some k \<Rightarrow> k < n)"

partial_function (option) bisect_loop :: "get_block \<Rightarrow> u64 \<Rightarrow> u64 \<Rightarrow> u64 \<Rightarrow> u64 go option" where
  "bisect_loop get n l r =
     (if l < r then
        Option.bind (probe_loop get l r 1 ((l + r) div 2)) (\<lambda>p. case p of
          Inl f \<Rightarrow> Some (Inl f)
        | Inr (m, block) \<Rightarrow>
            if m < l \<or> m > r then Some (Inr r)
            else (case block of
                None \<Rightarrow> Some (Inl (Panic ''nil pointer dereference''))
              | Some b \<Rightarrow> if block_before n b then bisect_loop get n (m + 1) r else bisect_loop get n l m))
      else Some (Inr l))"

definition FindBeaconBlockByExecutionBlockNumber :: "LightClient \<Rightarrow> u64 \<Rightarrow> u64 go" where
  "FindBeaconBlockByExecutionBlockNumber c blockNumber =
     bind (wrap_err ''can't get latest block'' (GetBlock (Client c) ''head'')) (\<lambda>block.
     case bd_ExecutionPayload (bk_Body block) of
       None \<Rightarrow> Inl (Err (Msg (''latest beacon block at slot '' @ FormatUint (bk_Slot block)
                              @ '' has empty execution payload'')))
     | Some latestExecutionBlock \<Rightarrow>
         if latestExecutionBlock < blockNumber
         then Inl (Err (Msg (''latest execution block number '' @ FormatUint latestExecutionBlock
                @ '' is less than target block number '' @ FormatUint blockNumber)))
         else (case bisect_loop (GetBlock (Client c)) blockNumber
                      (BellatrixForkEpoch (Spec c) * SlotsPerEpoch (Spec c)) (bk_Slot block) of
                 None \<Rightarrow> Inl Hang
               | Some res \<Rightarrow> res))"

lemma probe_out: "\<not> (l \<le> m \<and> m \<le> r) \<Longrightarrow> probe_loop get l r s m = Some (Inr (m, None))"
  by (subst probe_loop.simps) auto

lemma probe_hit:
  "l \<le> m \<and> m \<le> r \<Longrightarrow> get (FormatUint m) = Inr b \<Longrightarrow> probe_loop get l r s m = Some (Inr (m, Some b))"
  by (subst probe_loop.simps) simp

lemma probe_miss:
  "l \<le> m \<and> m \<le> r \<Longrightarrow> get (FormatUint m) = Inl (Err e) \<Longrightarrow>
   probe_loop get l r s m = probe_loop get l r (s + 1) (if s mod 2 = 0 then m + s else m - s)"
  by (subst probe_loop.simps) (simp only: if_True simp_thms sum.case failure.case)

subsection \<open>The zigzag\<close>

definition zig :: "nat \<Rightarrow> nat \<Rightarrow> int" where
  "zig m k = (if even k then int m + int (k div 2) else int m - int (Suc k div 2))"

lemma zig_0 [simp]: "zig m 0 = int m"
  by (simp add: zig_def)

lemma zig_Suc: "zig m (Suc k) = (if odd k then zig m k + int (Suc k) else zig m k - int (Suc k))"
  by (auto simp: zig_def elim!: oddE evenE)

lemma zig_covers:
  assumes "l \<le> x" and "x \<le> l + 2 * a"
  obtains k where "k \<le> 2 * a" and "zig (l + a) k = int x"
proof (cases "l + a \<le> x")
  case True
  then show ?thesis using assms by (intro that [of "2 * (x - (l + a))"]) (auto simp: zig_def)
next
  case False
  then have "Suc (2 * (l + a - x) - 1) div 2 = l + a - x" and "odd (2 * (l + a - x) - 1)" by simp_all
  with False show ?thesis using assms by (intro that [of "2 * (l + a - x) - 1"]) (auto simp: zig_def)
qed

lemma zig_range: "k \<le> 2 * a \<Longrightarrow> int l \<le> zig (l + a) k \<and> zig (l + a) k \<le> int (l + 2 * a)"
  by (auto simp: zig_def elim!: oddE evenE)

lemma zig_exit: "zig (l + a) (2 * a + 1) = int l - 1"
  by (simp add: zig_def)

subsection \<open>What the node answers\<close>

definition missed :: "get_block \<Rightarrow> nat \<Rightarrow> bool" where
  "missed get x \<longleftrightarrow> (\<exists>e. get (FormatUint (of_nat x)) = Inl (Err e))"

definition reached :: "get_block \<Rightarrow> u64 \<Rightarrow> nat \<Rightarrow> bool" where
  "reached get n x \<longleftrightarrow> (\<exists>b. get (FormatUint (of_nat x)) = Inr b \<and> \<not> block_before n b)"

definition before :: "get_block \<Rightarrow> u64 \<Rightarrow> nat \<Rightarrow> bool" where
  "before get n x \<longleftrightarrow> (\<exists>b. get (FormatUint (of_nat x)) = Inr b \<and> block_before n b)"

text \<open>
  A chain between the slots \<open>l\<close> and \<open>r\<close>: each slot has a block or is missed, block numbers do not
  decrease, and the block of slot \<open>r\<close> has reached number \<open>n\<close>.
\<close>

definition chain :: "get_block \<Rightarrow> u64 \<Rightarrow> nat \<Rightarrow> nat \<Rightarrow> bool" where
  "chain get n l r \<longleftrightarrow>
     r < 2 ^ 62 \<and> reached get n r
     \<and> (\<forall>x. l \<le> x \<and> x \<le> r \<longrightarrow> missed get x \<or> reached get n x \<or> before get n x)
     \<and> (\<forall>x y. l \<le> x \<and> x \<le> y \<and> y \<le> r \<and> reached get n x \<longrightarrow> \<not> before get n y)"

lemma chain_sub: "chain get n l r \<Longrightarrow> l \<le> l' \<Longrightarrow> r' \<le> r \<Longrightarrow> reached get n r' \<Longrightarrow> chain get n l' r'"
  unfolding chain_def by (meson le_trans le_less_trans)

lemma exclusive:
  "missed get x \<Longrightarrow> \<not> reached get n x" "missed get x \<Longrightarrow> \<not> before get n x" "reached get n x \<Longrightarrow> \<not> before get n x"
  by (auto simp: missed_def reached_def before_def)

text \<open>The inner loop finds the first slot on the zigzag that has a block, or leaves the range when
  all of it was missed.\<close>

lemma probe_zig:
  assumes l: "unat l = lo" and m: "lo + 2 * a \<le> unat r" and r: "unat r < 2 ^ 62"
    and chain: "chain get n lo (unat r)" and k: "k \<le> 2 * a + 1"
    and past: "\<And>j. j < k \<Longrightarrow> missed get (nat (zig (lo + a) j))"
  shows "(\<exists>x b. probe_loop get l r (of_nat (k + 1)) (of_int (zig (lo + a) k)) = Some (Inr (of_nat x, Some b))
            \<and> lo \<le> x \<and> x \<le> lo + 2 * a \<and> get (FormatUint (of_nat x)) = Inr b
            \<and> (x = lo + 2 * a \<longrightarrow> (\<forall>y. lo \<le> y \<and> y < x \<longrightarrow> missed get y)))
       \<or> (probe_loop get l r (of_nat (k + 1)) (of_int (zig (lo + a) k)) = Some (Inr (of_int (int lo - 1), None))
            \<and> (\<forall>y. lo \<le> y \<and> y \<le> lo + 2 * a \<longrightarrow> missed get y))"
  using k past
proof (induction "2 * a + 1 - k" arbitrary: k)
  case 0
  then have k: "k = 2 * a + 1" by simp
  have all: "missed get y" if y: "lo \<le> y" "y \<le> lo + 2 * a" for y
  proof -
    obtain j where "j \<le> 2 * a" "zig (lo + a) j = int y" by (rule zig_covers [OF y])
    then show ?thesis using 0(3) [of j] k by simp
  qed
  have "\<not> (l \<le> of_int (int lo - 1) \<and> of_int (int lo - 1) \<le> r)"
  proof (cases lo)
    case 0
    have "unat (- 1 :: u64) = 2 ^ 64 - 1" by (simp add: unsigned_minus_1_eq_mask mask_eq_exp_minus_1)
    then show ?thesis using r 0 by (simp add: word_le_nat_alt)
  next
    case (Suc p)
    then have "unat (of_int (int lo - 1) :: u64) = p"
      using l unsigned_less [of l, where 'a = nat] by (simp add: unat_of_nat)
    then show ?thesis using Suc l by (simp add: word_le_nat_alt)
  qed
  then have "probe_loop get l r (of_nat (k + 1)) (of_int (int lo - 1)) = Some (Inr (of_int (int lo - 1), None))"
    by (rule probe_out)
  then show ?case using all unfolding k zig_exit by blast
next
  case (Suc d)
  then have k: "k \<le> 2 * a" by simp
  define x where "x = nat (zig (lo + a) k)"
  have x: "zig (lo + a) k = int x" "lo \<le> x" "x \<le> lo + 2 * a"
    using zig_range [OF k, of lo] unfolding x_def by linarith+
  have xw: "unat (of_nat x :: u64) = x" using x m r by (simp add: unat_of_nat)
  have inr: "l \<le> of_nat x \<and> of_nat x \<le> r" using x l m xw by (simp add: word_le_nat_alt)
  have "missed get x \<or> (\<exists>b. get (FormatUint (of_nat x)) = Inr b)"
    using chain x m unfolding chain_def reached_def before_def by (meson le_trans)
  then show ?case
  proof
    assume "\<exists>b. get (FormatUint (of_nat x)) = Inr b"
    then obtain b where b: "get (FormatUint (of_nat x)) = Inr b" ..
    have "probe_loop get l r (of_nat (k + 1)) (of_nat x) = Some (Inr (of_nat x, Some b))"
      using inr b by (rule probe_hit)
    moreover have "missed get y" if y: "x = lo + 2 * a" "lo \<le> y" "y < x" for y
    proof -
      have "y \<le> lo + 2 * a" using y by simp
      then obtain j where j: "j \<le> 2 * a" "zig (lo + a) j = int y" by (rule zig_covers [OF y(2)])
      have "k = 2 * a"
      proof (rule ccontr)
        assume "k \<noteq> 2 * a"
        then have "zig (lo + a) k < int (lo + 2 * a)" using k by (auto simp: zig_def elim!: oddE evenE)
        then show False using y x by simp
      qed
      moreover have "j \<noteq> k" using j x y by auto
      ultimately show ?thesis using Suc.prems(2) [of j] j by simp
    qed
    ultimately show ?thesis using b x by (intro disjI1) auto
  next
    assume miss: "missed get x"
    then obtain e where e: "get (FormatUint (of_nat x)) = Inl (Err e)" by (auto simp: missed_def)
    have kw: "unat (of_nat (k + 1) :: u64) = k + 1" using k m r unfolding unat_of_nat by simp
    have par: "(of_nat (k + 1) :: u64) mod 2 = 0 \<longleftrightarrow> odd k"
      unfolding word_unat_eq_iff unat_mod kw by simp presburger
    have nxt: "(if odd k then of_nat x + of_nat (k + 1) else of_nat x - of_nat (k + 1)) = (of_int (zig (lo + a) (Suc k)) :: u64)"
      unfolding zig_Suc x by simp
    have pz: "(of_int (zig (lo + a) k) :: u64) = of_nat x" and s1: "of_nat (Suc k + 1) = of_nat (k + 1) + (1 :: u64)"
      by (simp_all only: x(1) of_int_of_nat_eq, simp)
    have "probe_loop get l r (of_nat (k + 1)) (of_int (zig (lo + a) k))
        = probe_loop get l r (of_nat (Suc k + 1)) (of_int (zig (lo + a) (Suc k)))"
      using probe_miss [of l "of_nat x" r get e "of_nat (k + 1)", OF inr e] by (simp only: par nxt pz s1)
    moreover have "missed get (nat (zig (lo + a) j))" if "j < Suc k" for j
      using that Suc.prems(2) miss x(1) by (cases "j = k") auto
    ultimately show ?thesis using Suc.hyps(1) [of "Suc k"] Suc.hyps(2) k by simp
  qed
qed

text \<open>One whole inner loop from the middle of \<open>l .. r\<close>.\<close>

lemma probe_middle:
  assumes chain: "chain get n (unat l) (unat r)" and lr: "l < r"
  obtains (found) x b where "probe_loop get l r 1 ((l + r) div 2) = Some (Inr (of_nat x, Some b))"
      and "unat l \<le> x" and "x \<le> unat r" and "get (FormatUint (of_nat x)) = Inr b"
      and "x = unat r \<Longrightarrow> even (unat r - unat l) \<and> (\<forall>y. unat l \<le> y \<and> y < unat r \<longrightarrow> missed get y)"
  | (all_missed) m where "probe_loop get l r 1 ((l + r) div 2) = Some (Inr (m, None))" and "m < l \<or> m > r"
      and "odd (unat r - unat l)" and "\<forall>y. unat l \<le> y \<and> y < unat r \<longrightarrow> missed get y"
proof -
  define a where "a = (unat r - unat l) div 2"
  have lt: "unat l < unat r" using lr by (simp add: word_less_nat_alt)
  have r: "unat r < 2 ^ 62" using chain by (simp add: chain_def)
  have top: "unat l + 2 * a \<le> unat r" "unat r \<le> unat l + 2 * a + 1" using lt by (auto simp: a_def)
  have "unat (l + r) = unat l + unat r" using lt r by (subst unat_add_lem [THEN iffD1]) simp_all
  then have "unat ((l + r) div 2) = unat l + a" using lt by (simp add: unat_div a_def)
  moreover have "unat (of_nat (unat l + a) :: u64) = unat l + a"
    using top r unfolding unat_of_nat by simp
  ultimately have "(l + r) div 2 = of_nat (unat l + a)" by (simp only: word_unat_eq_iff)
  then have mid: "(l + r) div 2 = of_int (zig (unat l + a) 0)" by (simp only: zig_0 of_int_of_nat_eq)
  have "(\<exists>x b. probe_loop get l r 1 ((l + r) div 2) = Some (Inr (of_nat x, Some b))
            \<and> unat l \<le> x \<and> x \<le> unat l + 2 * a \<and> get (FormatUint (of_nat x)) = Inr b
            \<and> (x = unat l + 2 * a \<longrightarrow> (\<forall>y. unat l \<le> y \<and> y < x \<longrightarrow> missed get y)))
       \<or> (probe_loop get l r 1 ((l + r) div 2) = Some (Inr (of_int (int (unat l) - 1), None))
            \<and> (\<forall>y. unat l \<le> y \<and> y \<le> unat l + 2 * a \<longrightarrow> missed get y))"
    using probe_zig [OF refl top(1) r chain, of 0] unfolding mid by simp
  then show ?thesis
  proof (elim disjE exE conjE)
    fix x b
    assume p: "probe_loop get l r 1 ((l + r) div 2) = Some (Inr (word_of_nat x, Some b))"
      and x: "unat l \<le> x" "x \<le> unat l + 2 * a" "get (FormatUint (word_of_nat x)) = Inr b"
      and final: "x = unat l + 2 * a \<longrightarrow> (\<forall>y. unat l \<le> y \<and> y < x \<longrightarrow> missed get y)"
    have "even (unat r - unat l) \<and> (\<forall>y. unat l \<le> y \<and> y < unat r \<longrightarrow> missed get y)" if "x = unat r"
      using that x top final by auto
    then show ?thesis using found [OF p] x top by simp
  next
    assume p: "probe_loop get l r 1 ((l + r) div 2) = Some (Inr (word_of_int (int (unat l) - 1), None))"
      and all: "\<forall>y. unat l \<le> y \<and> y \<le> unat l + 2 * a \<longrightarrow> missed get y"
    have "unat r \<noteq> unat l + 2 * a"
      using all chain lt exclusive(1) by (force simp: chain_def)
    then have odd: "odd (unat r - unat l)" using top by (simp add: le_Suc_eq)
    from \<open>unat r \<noteq> unat l + 2 * a\<close> have "\<forall>y. unat l \<le> y \<and> y < unat r \<longrightarrow> missed get y" using all top by simp
    moreover have "word_of_int (int (unat l) - 1) < l \<or> word_of_int (int (unat l) - 1) > r"
    proof (cases "unat l")
      case 0
      have "unat (- 1 :: u64) = 2 ^ 64 - 1" by (simp add: unsigned_minus_1_eq_mask mask_eq_exp_minus_1)
      then show ?thesis using r 0 by (simp add: word_less_nat_alt)
    next
      case (Suc p)
      then have "unat (word_of_int (int (unat l) - 1) :: u64) = p"
        using unsigned_less [of l, where 'a = nat] by (simp add: unat_of_nat)
      then show ?thesis using Suc by (simp add: word_less_nat_alt)
    qed
    ultimately show ?thesis using all_missed [OF p _ odd] by blast
  qed
qed

subsection \<open>The bisection\<close>

text \<open>The answer: the first slot whose block has reached the number.\<close>

definition first_reached :: "get_block \<Rightarrow> u64 \<Rightarrow> nat \<Rightarrow> nat \<Rightarrow> nat \<Rightarrow> bool" where
  "first_reached get n l r x \<longleftrightarrow>
     l \<le> x \<and> x \<le> r \<and> reached get n x \<and> (\<forall>y. l \<le> y \<and> y < x \<longrightarrow> \<not> reached get n y)"

text \<open>No two adjacent slots are missed: every step of the bisection then makes progress.\<close>

definition no_gap :: "get_block \<Rightarrow> nat \<Rightarrow> nat \<Rightarrow> bool" where
  "no_gap get l r \<longleftrightarrow> (\<forall>x. l \<le> x \<and> x + 1 < r \<longrightarrow> \<not> (missed get x \<and> missed get (x + 1)))"

lemma bisect_right:
  assumes "chain get n l r" and "before get n m" and "l \<le> m" and "m \<le> r"
  shows "m < r" and "chain get n (m + 1) r"
    and "first_reached get n (m + 1) r x \<Longrightarrow> first_reached get n l r x"
proof -
  have below: "\<not> reached get n y" if "l \<le> y" "y \<le> m" for y
    using assms that unfolding chain_def by blast
  have "reached get n r" using assms(1) by (simp add: chain_def)
  with below [of r] assms(3,4) show "m < r" by (cases "m = r") auto
  show "chain get n (m + 1) r"
    using chain_sub [OF assms(1), of "m + 1" r] assms(1,3) by (simp add: chain_def)
  show "first_reached get n l r x" if "first_reached get n (m + 1) r x"
    using that below assms(3) unfolding first_reached_def by (metis Suc_eq_plus1 le_trans not_less_eq_eq le_SucI)
qed

lemma bisect_left:
  assumes "chain get n l r" and "reached get n m" and "l \<le> m" and "m \<le> r"
  shows "chain get n l m" and "first_reached get n l m x \<Longrightarrow> first_reached get n l r x"
  using assms chain_sub [OF assms(1), of l m] by (auto simp: first_reached_def)

text \<open>When the zigzag ends at \<open>r\<close> itself the bisection repeats with the same bounds.\<close>

lemma bisect_stuck:
  assumes "bisect_loop get n l r = Some y"
  shows "\<not> (l < r \<and> (\<exists>b. probe_loop get l r 1 ((l + r) div 2) = Some (Inr (r, Some b)) \<and> \<not> block_before n b))"
proof (rule bisect_loop.raw_induct [where P = "\<lambda>get n l r y.
    \<not> (l < r \<and> (\<exists>b. probe_loop get l r 1 ((l + r) div 2) = Some (Inr (r, Some b)) \<and> \<not> block_before n b))", OF _ assms])
  fix f get n l r y
  assume IH: "\<And>get n l r y. f get n l r = Some y \<Longrightarrow>
      \<not> (l < r \<and> (\<exists>b. probe_loop get l r 1 ((l + r) div 2) = Some (Inr (r, Some b)) \<and> \<not> block_before n b))"
    and run: "(if l < r then
        Option.bind (probe_loop get l r 1 ((l + r) div 2)) (\<lambda>p. case p of
          Inl f \<Rightarrow> Some (Inl f)
        | Inr (m, block) \<Rightarrow>
            if m < l \<or> m > r then Some (Inr r)
            else (case block of
                None \<Rightarrow> Some (Inl (Panic ''nil pointer dereference''))
              | Some b \<Rightarrow> if block_before n b then f get n (m + 1) r else f get n l m))
      else Some (Inr l)) = Some y"
  show "\<not> (l < r \<and> (\<exists>b. probe_loop get l r 1 ((l + r) div 2) = Some (Inr (r, Some b)) \<and> \<not> block_before n b))"
  proof
    assume stuck: "l < r \<and> (\<exists>b. probe_loop get l r 1 ((l + r) div 2) = Some (Inr (r, Some b)) \<and> \<not> block_before n b)"
    then obtain b where b: "l < r" "probe_loop get l r 1 ((l + r) div 2) = Some (Inr (r, Some b))"
      "\<not> block_before n b" by blast
    then have "\<not> r < l" by simp
    with b run have "f get n l r = Some y" by simp
    from IH [OF this] stuck show False by blast
  qed
qed

lemma bisect_loop_least:
  assumes "chain get n (unat l) (unat r)" and "l \<le> r"
  shows "bisect_loop get n l r = None \<and> \<not> no_gap get (unat l) (unat r)
    \<or> (\<exists>x. bisect_loop get n l r = Some (Inr x) \<and> first_reached get n (unat l) (unat r) (unat x))"
  using assms
proof (induction "unat r - unat l" arbitrary: l r rule: less_induct)
  case less
  show ?case
  proof (cases "l < r")
    case False
    then have "l = r" using less.prems(2) by simp
    then show ?thesis
      using less.prems(1) by (subst bisect_loop.simps) (auto simp: first_reached_def chain_def)
  next
    case lr: True
    have rlt: "unat r < 2 ^ 62" using less.prems(1) by (simp add: chain_def)
    show ?thesis
      using less.prems(1) lr
    proof (cases rule: probe_middle)
      case (all_missed m)
      then have "bisect_loop get n l r = Some (Inr r)"
        using lr by (subst bisect_loop.simps) simp
      moreover have "first_reached get n (unat l) (unat r) (unat r)"
        using less.prems all_missed(4) exclusive(1) by (auto simp: first_reached_def chain_def word_le_nat_alt)
      ultimately show ?thesis by blast
    next
      case (found x b)
      have xw: "unat (of_nat x :: u64) = x" using found(3) rlt by (simp add: unat_of_nat)
      have inr: "\<not> (of_nat x < l \<or> of_nat x > r)" using found(2,3) by (simp add: word_less_nat_alt xw)
      have step: "bisect_loop get n l r =
          (if block_before n b then bisect_loop get n (of_nat x + 1) r else bisect_loop get n l (of_nat x))"
        using lr found(1) inr by (subst bisect_loop.simps) simp
      show ?thesis
      proof (cases "block_before n b")
        case True
        then have bx: "before get n x" using found(4) by (auto simp: before_def)
        note right = bisect_right [OF less.prems(1) bx found(2,3)]
        have x1: "unat (of_nat x + 1 :: u64) = x + 1"
          using right(1) rlt xw by (subst unat_add_lem [THEN iffD1]) simp_all
        have "bisect_loop get n (of_nat x + 1) r = None \<and> \<not> no_gap get (x + 1) (unat r)
            \<or> (\<exists>y. bisect_loop get n (of_nat x + 1) r = Some (Inr y) \<and> first_reached get n (x + 1) (unat r) (unat y))"
          using less.hyps [of r "of_nat x + 1"] right(1,2) found(2) x1 by (simp add: word_le_nat_alt)
        then show ?thesis
          using True step right(3) found(2) by (auto simp: no_gap_def)
      next
        case False
        then have rx: "reached get n x" using found(4) by (auto simp: reached_def)
        note left = bisect_left [OF less.prems(1) rx found(2,3)]
        show ?thesis
        proof (cases "x = unat r")
          case smaller: False
          have "bisect_loop get n l (of_nat x) = None \<and> \<not> no_gap get (unat l) x
              \<or> (\<exists>y. bisect_loop get n l (of_nat x) = Some (Inr y) \<and> first_reached get n (unat l) x (unat y))"
            using less.hyps [of "of_nat x" l] left(1) found(2,3) smaller xw by (simp add: word_le_nat_alt)
          then show ?thesis
            using False step left(2) found(3) by (auto simp: no_gap_def)
        next
          case True
          have "unat l + 2 \<le> unat r" using found(5) [OF True] lr by (auto simp: word_less_nat_alt elim!: evenE) presburger
          then have "\<not> no_gap get (unat l) (unat r)"
            using found(5) [OF True] unfolding no_gap_def by (intro notI, elim allE [of _ "unat l"]) auto
          moreover have "bisect_loop get n l r = None"
            using bisect_stuck [of get n l r] lr found(1) False True by (cases "bisect_loop get n l r") auto
          ultimately show ?thesis by blast
        qed
      qed
    qed
  qed
qed

subsection \<open>Properties\<close>

abbreviation first_slot :: "LightClient \<Rightarrow> u64" where
  "first_slot c \<equiv> BellatrixForkEpoch (Spec c) * SlotsPerEpoch (Spec c)"

lemma FindBeaconBlock_bisect:
  assumes "GetBlock (Client c) ''head'' = Inr blk" and "bd_ExecutionPayload (bk_Body blk) = Some k" and "n \<le> k"
  shows "FindBeaconBlockByExecutionBlockNumber c n =
    (case bisect_loop (GetBlock (Client c)) n (first_slot c) (bk_Slot blk) of None \<Rightarrow> Inl Hang | Some res \<Rightarrow> res)"
  using assms(1,2) leD [OF assms(3)] by (simp add: FindBeaconBlockByExecutionBlockNumber_def)

text \<open>C20. On a chain whose block numbers do not decrease, with any pattern of missed slots, the
  search returns the first slot from the fork on whose block has reached the requested number; it
  never returns another slot, an error or a panic. The only other outcome is that it does not
  return, and then two adjacent slots are missed.\<close>

theorem FindBeaconBlock_first:
  assumes "GetBlock (Client c) ''head'' = Inr blk" and "bd_ExecutionPayload (bk_Body blk) = Some k" and "n \<le> k"
    and "chain (GetBlock (Client c)) n (unat (first_slot c)) (unat (bk_Slot blk))"
    and "first_slot c \<le> bk_Slot blk"
  shows "FindBeaconBlockByExecutionBlockNumber c n = Inl Hang
       \<and> \<not> no_gap (GetBlock (Client c)) (unat (first_slot c)) (unat (bk_Slot blk))
    \<or> (\<exists>s. FindBeaconBlockByExecutionBlockNumber c n = Inr s
       \<and> first_reached (GetBlock (Client c)) n (unat (first_slot c)) (unat (bk_Slot blk)) (unat s))"
  using bisect_loop_least [OF assms(4,5)] FindBeaconBlock_bisect [OF assms(1-3)] by auto

text \<open>C31. When no two adjacent slots are missed the search terminates and returns a slot.\<close>

theorem FindBeaconBlock_terminates:
  assumes "GetBlock (Client c) ''head'' = Inr blk" and "bd_ExecutionPayload (bk_Body blk) = Some k" and "n \<le> k"
    and "chain (GetBlock (Client c)) n (unat (first_slot c)) (unat (bk_Slot blk))"
    and "first_slot c \<le> bk_Slot blk"
    and "no_gap (GetBlock (Client c)) (unat (first_slot c)) (unat (bk_Slot blk))"
  shows "\<exists>s. FindBeaconBlockByExecutionBlockNumber c n = Inr s"
  using bisect_loop_least [OF assms(4,5)] FindBeaconBlock_bisect [OF assms(1-3)] assms(6) by auto

text \<open>C32. The search can fail to return: when all slots from the first one up to the head are missed
  and their number is even and not zero, the zigzag ends at the upper bound itself and the bisection
  repeats for ever with unchanged bounds.\<close>

theorem FindBeaconBlock_hangs:
  assumes "GetBlock (Client c) ''head'' = Inr blk" and "bd_ExecutionPayload (bk_Body blk) = Some k" and "n \<le> k"
    and "chain (GetBlock (Client c)) n (unat (first_slot c)) (unat (bk_Slot blk))"
    and "first_slot c < bk_Slot blk" and "even (unat (bk_Slot blk) - unat (first_slot c))"
    and "\<forall>y. unat (first_slot c) \<le> y \<and> y < unat (bk_Slot blk) \<longrightarrow> missed (GetBlock (Client c)) y"
  shows "FindBeaconBlockByExecutionBlockNumber c n = Inl Hang"
proof -
  let ?get = "GetBlock (Client c)" and ?l = "first_slot c" and ?r = "bk_Slot blk"
  have "bisect_loop ?get n ?l ?r = None"
    using assms(4,5)
  proof (cases rule: probe_middle)
    case (found x b)
    have "\<not> missed ?get x" using found(4) by (auto simp: missed_def)
    then have x: "x = unat ?r" using found(2,3) assms(7) by force
    then have "reached ?get n x" using assms(4) by (simp add: chain_def)
    then have "\<not> block_before n b" using found(4) by (auto simp: reached_def)
    with found(1) x assms(5) bisect_stuck [of ?get n ?l ?r] show ?thesis
      by (cases "bisect_loop ?get n ?l ?r") auto
  next
    case (all_missed m)
    with assms(6) show ?thesis by simp
  qed
  then show ?thesis by (simp add: FindBeaconBlock_bisect [OF assms(1-3)])
qed

text \<open>A node with blocks at slot 2 (number 5) and, if \<open>b\<close>, at slot 0 (number 1); slot 1 is missed.\<close>

definition number_block :: "u64 \<Rightarrow> u64 \<Rightarrow> BeaconBlock" where
  "number_block slot k =
     \<lparr>bk_Slot = slot, bk_ProposerIndex = 0, bk_ParentRoot = [], bk_StateRoot = [],
      bk_Body = \<lparr>bd_SyncCommitteeBits = [], bd_SyncCommitteeSignature = [], bd_ExecutionPayload = Some k, bd_message = []\<rparr>\<rparr>"

definition small_node :: "bool \<Rightarrow> LightClient" where
  "small_node b =
     \<lparr>Client = \<lparr>GetSpec = Inl (Err NotFoundError), GetGenesis = Inl (Err NotFoundError),
        GetBlock = \<lambda>i. if i = ''head'' \<or> i = FormatUint 2 then Inr (number_block 2 5)
          else if i = FormatUint 0 \<and> b then Inr (number_block 0 1) else Inl (Err NotFoundError),
        GetState = \<lambda>_. Inl (Err NotFoundError)\<rparr>,
      Spec = \<lparr>SecondsPerSlot = 12, SlotsPerEpoch = 32, AltairForkEpoch = 0, AltairForkVersion = [],
        BellatrixForkEpoch = 0, BellatrixForkVersion = [], EpochsPerSyncCommitteePeriod = 256,
        SyncCommitteeSize = 512, ValidatorRegistryLimit = 32, HistoricalRootsLimit = 16777216,
        EpochsPerEth1VotingPeriod = 64, SlotsPerHistoricalRoot = 8192\<rparr>,
      Genesis = \<lparr>GenesisTime = 0, GenesisValidatorsRoot = zero_hash\<rparr>, WithFinality = False\<rparr>"

lemma FormatUint_not_head [simp]: "FormatUint v \<noteq> ''head''"
  using decimal_digits [of "CHR ''h''" "unat v"] by (auto simp: FormatUint_def)

lemma small_node_simps:
  "GetBlock (Client (small_node b)) ''head'' = Inr (number_block 2 5)"
  "GetBlock (Client (small_node b)) (FormatUint 2) = Inr (number_block 2 5)"
  "GetBlock (Client (small_node b)) (FormatUint 1) = Inl (Err NotFoundError)"
  "GetBlock (Client (small_node b)) (FormatUint 0) = (if b then Inr (number_block 0 1) else Inl (Err NotFoundError))"
  "first_slot (small_node b) = 0" "bk_Slot (number_block s k) = s"
  "bd_ExecutionPayload (bk_Body (number_block s k)) = Some k" "block_before n (number_block s k) \<longleftrightarrow> k < n"
  by (simp_all add: small_node_def number_block_def block_before_def)

lemma upto_2: "0 \<le> x \<and> x \<le> 2 \<longleftrightarrow> x = 0 \<or> x = 1 \<or> x = (2 :: nat)"
  by auto

lemma small_node_slots:
  "missed (GetBlock (Client (small_node b))) 1" "reached (GetBlock (Client (small_node b))) 5 2"
  "missed (GetBlock (Client (small_node b))) 0 \<longleftrightarrow> \<not> b" "before (GetBlock (Client (small_node b))) 5 0 \<longleftrightarrow> b"
  by (simp_all add: missed_def reached_def before_def small_node_simps)

lemma small_node_chain: "chain (GetBlock (Client (small_node b))) 5 0 2"
proof -
  let ?g = "GetBlock (Client (small_node b))"
  have "\<not> before ?g 5 y" if "x \<le> y" "y \<le> 2" "reached ?g 5 x" for x y
  proof -
    have "x \<noteq> 0" "x \<noteq> 1" using that(3) small_node_slots exclusive by metis+
    then have "y = 2" using that by simp
    then show ?thesis using small_node_slots(2) exclusive(3) by blast
  qed
  moreover have "missed ?g x \<or> reached ?g 5 x \<or> before ?g 5 x" if "x \<le> 2" for x
    using upto_2 [of x] that small_node_slots by auto
  ultimately show ?thesis using small_node_slots(2) by (auto simp: chain_def)
qed

theorem FindBeaconBlock_first_witness:
  "FindBeaconBlockByExecutionBlockNumber (small_node True) 5 = Inl Hang
       \<and> \<not> no_gap (GetBlock (Client (small_node True))) 0 2
    \<or> (\<exists>s. FindBeaconBlockByExecutionBlockNumber (small_node True) 5 = Inr s
       \<and> first_reached (GetBlock (Client (small_node True))) 5 0 2 (unat s))"
  using FindBeaconBlock_first [OF small_node_simps(1), of 5 5 True] small_node_chain [of True]
  by (simp add: small_node_simps)

theorem FindBeaconBlock_terminates_witness:
  "\<exists>s. FindBeaconBlockByExecutionBlockNumber (small_node True) 5 = Inr s"
proof -
  have "no_gap (GetBlock (Client (small_node True))) 0 2"
    using small_node_slots(3) [of True] by (auto simp: no_gap_def less_Suc_eq numeral_2_eq_2)
  then show ?thesis
    using FindBeaconBlock_terminates [OF small_node_simps(1), of 5 5 True] small_node_chain [of True]
    by (simp add: small_node_simps)
qed

theorem FindBeaconBlock_hangs_witness:
  "FindBeaconBlockByExecutionBlockNumber (small_node False) 5 = Inl Hang"
proof -
  have "missed (GetBlock (Client (small_node False))) y" if "y < 2" for y
    using that small_node_slots(1,3) [of False] by (auto simp: less_Suc_eq numeral_2_eq_2)
  then show ?thesis
    using FindBeaconBlock_hangs [OF small_node_simps(1), of 5 5 False] small_node_chain [of False]
    by (simp add: small_node_simps)
qed

end
