(* ===== verification/Amb_Common.thy ===== *)
theory Amb_Common
  imports Light_Commands Block_Search
begin

section \<open>What the two bridge commands share (oracle/cmd/amb)\<close>

text \<open>
  \<^verbatim>\<open>execute_log\<close> and \<^verbatim>\<open>execute_storage\<close> are two programs with the same flags and the same first half,
  written out twice in the source. This theory has the environment of both: the nodes, the codecs and the
  library functions of go-ethereum that they call; and the parts with the same text in both programs. The
  command line is the record \<open>flags\<close>.
\<close>

record AccountResult =
  ar_AccountProof :: "string list"
  ar_StorageProof :: "string list list"           \<comment> \<open>the proofs of the requested keys\<close>

text \<open>A trie's \<^verbatim>\<open>Prove\<close> hands the nodes of the path, root first, to a key-value writer.\<close>

record ('w, 'tx, 'key, 'trie) amb_env =
  am_Lib :: lib
  am_Http :: http
  am_Codecs :: codecs
  am_Dial :: "string \<Rightarrow> ('w, 'tx) eth1 go"
  am_GetProof :: "address \<Rightarrow> string list \<Rightarrow> int \<Rightarrow> ('w, AccountResult) io"   \<comment> \<open>gethclient on the source RPC\<close>
  am_Wallet :: "('key, 'tx) wallet"
  am_HexToAddress :: "string \<Rightarrow> address"
  am_BigToHash :: "int \<Rightarrow> hash"
  am_Big :: "hash \<Rightarrow> int"                             \<comment> \<open>\<^verbatim>\<open>common.Hash.Big\<close>\<close>
  am_Keccak :: "byte list \<Rightarrow> hash"
  am_AppendUint64 :: "byte list \<Rightarrow> u64 \<Rightarrow> byte list"     \<comment> \<open>package rlp\<close>
  am_MarshalReceipt :: "Receipt \<Rightarrow> byte list go"
  am_NewTrie :: 'trie
  am_UpdateTrie :: "'trie \<Rightarrow> byte list \<Rightarrow> byte list \<Rightarrow> 'trie"
  am_ProveTrie :: "'trie \<Rightarrow> byte list \<Rightarrow> (byte list \<times> byte list) list go"
  am_AMBABI :: "unit abi"
  am_LightABI :: "unit abi"

record flags =
  sourceBeaconRPC :: string
  sourceRPC :: string
  targetRPC :: string
  sourceAMB :: string
  targetAMB :: string
  targetLC :: string
  msgNonce :: int
  keystore :: string
  keystorePass :: string

text \<open>The light client of the source chain: no configuration but the URL.\<close>

definition source_light_client :: "('w, 'tx, 'key, 'trie) amb_env \<Rightarrow> flags \<Rightarrow> LightClient go" where
  "source_light_client V fl =
     NewLightClient (am_Lib V) (am_Http V) (am_Codecs V)
       \<lparr>e2_Client = \<lparr>URL = sourceBeaconRPC fl\<rparr>, e2_Genesis = None, e2_Spec = None\<rparr> True"

text \<open>The message in the data of a \<^verbatim>\<open>SentMessage\<close> log: \<^verbatim>\<open>Data[64 : 64+length]\<close>, with the length read from
  \<^verbatim>\<open>Data[56:64]\<close> and the sum in 64 bits. The decoded data of a log fills its slice.\<close>

definition message_of :: "byte list \<Rightarrow> byte list go" where
  "message_of data =
     bind (subslice data 56 64) (\<lambda>b.
     bind (get_uint64_be b) (\<lambda>n.
     subslice data 64 (int (unat (64 + n)))))"

text \<open>The block number of a block's payload, which may be nil.\<close>

definition payload_number :: "BeaconBlock \<Rightarrow> u64 go" where
  "payload_number b =
     (case bd_ExecutionPayload (bk_Body b) of None \<Rightarrow> Inl (Panic ''nil pointer dereference'') | Some n \<Rightarrow> Inr n)"

text \<open>\<^verbatim>\<open>int64(v)\<close>\<close>

definition int64 :: "u64 \<Rightarrow> int" where
  "int64 v = sint v"

subsection \<open>The message in a log\<close>

text \<open>The ABI encoding of one dynamic argument, as the event \<^verbatim>\<open>SentMessage\<close> carries it.\<close>

definition abi_bytes :: "byte list \<Rightarrow> byte list" where
  "abi_bytes m = be_bytes 32 32 @ be_bytes 32 (length m) @ m @ replicate ((32 - length m mod 32) mod 32) 0"

lemma length_word:
  assumes "length m < 2 ^ 64"
  shows "drop 24 (be_bytes 32 (length m)) = be_bytes 8 (length m)"
  using be_bytes_add [of 24 8 "length m"] by simp

lemma message_of_eq:
  assumes "length data < 2 ^ 63" and "64 \<le> length data" and n: "n = be_nat (take 8 (drop 56 data))"
  shows "message_of data = (if 64 + n \<le> length data then Inr (take n (drop 64 data))
    else Inl (Panic ''slice bounds out of range''))"
proof -
  let ?b = "take 8 (drop 56 data)"
  have b: "length ?b = 8" using assms(2) by simp
  have n64: "n < 2 ^ 64" using be_nat_less [of ?b] b by (simp add: n)
  have read: "subslice data 56 64 = Inr ?b" using assms(2) by (simp add: subslice_def)
  have get: "get_uint64_be ?b = Inr (of_nat n)" using b by (simp add: get_uint64_be_def n)
  have hi: "unat (64 + of_nat n :: u64) = (64 + n) mod 2 ^ 64"
    using n64 by (simp add: unat_word_ariths unat_of_nat mod_simps)
  have slice: "message_of data = subslice data 64 (int ((64 + n) mod 2 ^ 64))"
    by (simp only: message_of_def read get bind_Inr hi)
  show ?thesis
  proof (cases "64 + n < 2 ^ 64")
    case True
    then have "(64 + n) mod 2 ^ 64 = 64 + n" by (rule mod_less)
    then show ?thesis by (simp add: slice subslice_def nat_add_distrib)
  next
    case False
    then have "(64 + n) mod 2 ^ 64 = 64 + n - 2 ^ 64" using n64 by (simp add: le_mod_geq)
    then have "(64 + n) mod 2 ^ 64 < 64" using n64 by simp
    moreover have "\<not> 64 + n \<le> length data" using False assms(1) by simp
    ultimately show ?thesis by (simp add: slice subslice_def)
  qed
qed

lemma message_of_abi_bytes:
  assumes m: "length m < 2 ^ 62"
  shows "message_of (abi_bytes m) = Inr m"
proof -
  let ?n = "be_nat (take 8 (drop 56 (abi_bytes m)))"
  have "take 8 (drop 56 (abi_bytes m)) = drop 24 (be_bytes 32 (length m))" by (simp add: abi_bytes_def)
  then have "?n = length m" using length_word [of m] m by (simp add: be_nat_be_bytes)
  moreover have "length (abi_bytes m) < 2 ^ 63" "64 + length m \<le> length (abi_bytes m)"
    using m by (simp_all add: abi_bytes_def mod_less_divisor less_imp_le_nat [OF mod_less_divisor, THEN order_trans])
  moreover have "take (length m) (drop 64 (abi_bytes m)) = m" by (simp add: abi_bytes_def)
  ultimately show ?thesis using message_of_eq [of "abi_bytes m"] by simp
qed

text \<open>C40. The bridge commands read exactly the message out of the log of a \<^verbatim>\<open>SentMessage\<close> event: the ABI
  encoding of any message below the size of memory round-trips, whatever follows it. On data that is not
  such an encoding they panic, or take the bytes its length field names; they never read past the data, and
  a length field near \<open>2 ^ 64\<close> does not wrap into a valid slice.\<close>

theorem message_of_log:
  "(length m < 2 ^ 62 \<longrightarrow> message_of (abi_bytes m) = Inr m)
   \<and> (length data < 2 ^ 63 \<longrightarrow> message_of data =
        (let n = be_nat (take 8 (drop 56 data)) in
         if 64 \<le> length data \<and> 64 + n \<le> length data then Inr (take n (drop 64 data))
         else Inl (Panic ''slice bounds out of range'')))"
proof (intro conjI impI message_of_abi_bytes)
  assume d: "length data < 2 ^ 63"
  show "message_of data = (let n = be_nat (take 8 (drop 56 data)) in
         if 64 \<le> length data \<and> 64 + n \<le> length data then Inr (take n (drop 64 data))
         else Inl (Panic ''slice bounds out of range''))"
  proof (cases "64 \<le> length data")
    case True
    then show ?thesis using message_of_eq [OF d True refl] by (simp add: Let_def)
  next
    case False
    then show ?thesis by (simp add: message_of_def subslice_def Let_def)
  qed
qed

theorem message_of_log_witness:
  "message_of (abi_bytes [1, 2, 3]) = Inr [1, 2, 3]
   \<and> message_of (replicate 60 0) = Inl (Panic ''slice bounds out of range'')"
proof -
  have "take 0 (drop 64 (replicate 60 (0 :: byte))) = []" by simp
  then show ?thesis
    using message_of_log [of "[1, 2, 3]" "replicate 60 0"] by simp
qed

end
