(* ===== verification/Execute_Log.thy ===== *)
theory Execute_Log
  imports Amb_Common Rlp_Reader
begin

section \<open>execute\_log: a message proved by its log (oracle/cmd/amb/execute\_log/main.go)\<close>

text \<open>
  The program finds the log of a sent message on the source chain, builds the trie of the receipts of its
  block and a proof of its receipt, proves the block's receipts root against the state root the target's
  light client holds, and submits all three. Fatal errors end the process.
\<close>

subsection \<open>The requests\<close>

definition GetSyncedSlot :: "'u abi \<Rightarrow> ('w, 'tx) eth1 \<Rightarrow> address \<Rightarrow> ('w, u64) io" where
  "GetSyncedSlot A E addr =
     bind_io (pure_io (case Pack A ''head'' [] of Inl (Err _) \<Rightarrow> Inl (Err (Msg ''can't pack head() call'')) | m \<Rightarrow> m)) (\<lambda>cd.
     bind_io (map_res (wrap_err ''can't make eth_call request'') (CallContract E
       \<lparr>cm_From = None, cm_To = Some addr, cm_GasFeeCap = None, cm_GasTipCap = None, cm_Value = None,
        cm_Data = cd, cm_AccessList = []\<rparr>)) (\<lambda>data.
     pure_io (if length data \<noteq> 32
       then Inl (Err (Msg (''call to head() should return 32 bytes, got '' @ fmt_int (int (length data)) @ '' instead'')))
       else bind (subslice data 24 32) get_uint64_be)))"

definition FindSentMessageLog ::
  "(int \<Rightarrow> hash) \<Rightarrow> 'u abi \<Rightarrow> ('w, 'tx) eth1 \<Rightarrow> address \<Rightarrow> int \<Rightarrow> ('w, Log) io"
where
  "FindSentMessageLog BigToHash A E addr nonce =
     bind_io (map_res (wrap_err ''can't filter logs'')
       (FilterLogs E [addr] [Some [EventID A ''SentMessage''], None, Some [BigToHash nonce]])) (\<lambda>logs.
     pure_io (if length logs = 0 then Inl (Err (Msg (''can't find log with given nonce: '' @ fmt_int nonce)))
       else if length logs > 1
       then Inl (Err (Msg (''found more than single SentMessage log: '' @ fmt_int (int (length logs)) @ '' were found'')))
       else index logs 0))"

subsection \<open>The receipt trie and its proof\<close>

record OrderedDB =
  db_Proof :: "byte list list"

definition Put :: "OrderedDB \<Rightarrow> byte list \<Rightarrow> byte list \<Rightarrow> OrderedDB go" where
  "Put db _ v = Inr (db\<lparr>db_Proof := db_Proof db @ [v]\<rparr>)"

definition Delete :: "OrderedDB \<Rightarrow> byte list \<Rightarrow> OrderedDB go" where
  "Delete db _ = Inr db"

fun put_all :: "OrderedDB \<Rightarrow> (byte list \<times> byte list) list \<Rightarrow> OrderedDB go" where
  "put_all db [] = Inr db"
| "put_all db ((k, v) # kvs) = bind (Put db k v) (\<lambda>db. put_all db kvs)"

text \<open>The loop over the transactions of the block: the index of the log in its receipt, and the trie.\<close>

fun receipts_loop ::
  "('w, 'tx, 'key, 'trie) amb_env \<Rightarrow> ('w, 'tx) eth1 \<Rightarrow> Log \<Rightarrow> nat \<Rightarrow> hash list \<Rightarrow> int \<Rightarrow> 'trie \<Rightarrow> ('w, int \<times> 'trie) io"
where
  "receipts_loop V E sentLog i [] logIndex trie = pure_io (Inr (logIndex, trie))"
| "receipts_loop V E sentLog i (h # hs) logIndex trie =
     bind_io (map_res fatal_err (TransactionReceipt E h)) (\<lambda>receipt.
     bind_io (pure_io (if int i = int64 (lg_TxIndex sentLog)
        then bind (index (rc_Logs receipt) 0) (\<lambda>l. Inr (int64 (lg_Index sentLog - lg_Index l)))
        else Inr logIndex)) (\<lambda>logIndex.
     bind_io (pure_io (fatal_err (am_MarshalReceipt V receipt))) (\<lambda>value.
     receipts_loop V E sentLog (i + 1) hs logIndex
       (am_UpdateTrie V trie (am_AppendUint64 V [] (of_nat i)) value))))"

definition receipt_proof ::
  "('w, 'tx, 'key, 'trie) amb_env \<Rightarrow> ('w, 'tx) eth1 \<Rightarrow> Log \<Rightarrow> ('w, int \<times> byte list list) io"
where
  "receipt_proof V E sentLog =
     bind_io (map_res fatal_err (BlockByHash E (lg_BlockHash sentLog))) (\<lambda>txs.
     bind_io (receipts_loop V E sentLog 0 txs 0 (am_NewTrie V)) (\<lambda>(logIndex, trie).
     pure_io (fatal_err (bind (am_ProveTrie V trie (am_AppendUint64 V [] (lg_TxIndex sentLog))) (\<lambda>kvs.
       bind (put_all \<lparr>db_Proof = []\<rparr> kvs) (\<lambda>db. Inr (logIndex, db_Proof db)))))))"

subsection \<open>main\<close>

text \<open>What the program has found before it builds the proofs.\<close>

definition find_message ::
  "('w, 'tx, 'key, 'trie) amb_env \<Rightarrow> flags \<Rightarrow> LightClient \<Rightarrow> ('w, 'tx) eth1 \<Rightarrow> ('w, 'tx) eth1 \<Rightarrow>
   ('w, Log \<times> byte list \<times> u64 \<times> u64) io"
where
  "find_message V fl lc sourceClient targetClient =
     bind_io (map_res fatal_err (FindSentMessageLog (am_BigToHash V) (am_AMBABI V) sourceClient
       (am_HexToAddress V (sourceAMB fl)) (msgNonce fl))) (\<lambda>sentLog.
     bind_io (pure_io (message_of (lg_Data sentLog))) (\<lambda>msg.
     bind_io (map_res fatal_err (GetSyncedSlot (am_LightABI V) targetClient (am_HexToAddress V (targetLC fl)))) (\<lambda>syncedSlot.
     bind_io (pure_io (bind (fatal_err (GetBlock (Client lc) (FormatUint syncedSlot))) payload_number)) (\<lambda>n.
     if n < lg_BlockNumber sentLog
     then pure_io (Inl (Fatal ''not yet synced to the desired block number''))
     else
       bind_io (pure_io (fatal_err (FindBeaconBlockByExecutionBlockNumber lc (lg_BlockNumber sentLog)))) (\<lambda>sourceSlot.
       pure_io (Inr (sentLog, msg, syncedSlot, sourceSlot)))))))"

definition execute_log_data ::
  "('w, 'tx, 'key, 'trie) amb_env \<Rightarrow> flags \<Rightarrow> LightClient \<Rightarrow> ('w, 'tx) eth1 \<Rightarrow> ('w, 'tx) eth1 \<Rightarrow> ('w, byte list) io"
where
  "execute_log_data V fl lc sourceClient targetClient =
     bind_io (find_message V fl lc sourceClient targetClient) (\<lambda>(sentLog, msg, syncedSlot, sourceSlot).
     bind_io (receipt_proof V sourceClient sentLog) (\<lambda>(logIndex, proof_nodes).
     bind_io (pure_io (fatal_err (MakeExecutionPayloadReceiptsRootProof (am_Lib V) lc syncedSlot sourceSlot))) (\<lambda>branch.
     pure_io (fatal_err (Pack (am_AMBABI V) ''executeMessageFromLog''
       [BigInt (int64 syncedSlot), BigInt (int64 sourceSlot), BigInt (int64 (lg_TxIndex sentLog)), BigInt logIndex,
        ByteArg msg, Hashes branch, ByteLists proof_nodes])))))"

definition execute_log_main :: "('w, 'tx, 'key, 'trie) amb_env \<Rightarrow> flags \<Rightarrow> ('w, 'tx \<times> Receipt) io" where
  "execute_log_main V fl =
     bind_io (pure_io (fatal_err (source_light_client V fl))) (\<lambda>lc.
     bind_io (pure_io (fatal_err (am_Dial V (sourceRPC fl)))) (\<lambda>sourceClient.
     bind_io (pure_io (fatal_err (am_Dial V (targetRPC fl)))) (\<lambda>targetClient.
     bind_io (execute_log_data V fl lc sourceClient targetClient) (\<lambda>data.
     bind_io (map_res fatal_err (NewTxSender targetClient (am_Wallet V) (keystore fl) (keystorePass fl))) (\<lambda>s.
     send_and_wait (am_Lib V) (am_AMBABI V) targetClient (am_Wallet V) s
       (new_tx (am_HexToAddress V (targetAMB fl)) data))))))"

subsection \<open>The head of the light client contract\<close>

text \<open>Both ways the oracle reads the head of the light client contract, \<^verbatim>\<open>GetSyncedSlot\<close> of the bridge
  commands and the call of the worker and \<^verbatim>\<open>prove\<close>, return the head when the contract answers with the ABI
  encoding of a 64-bit number. They differ on any other answer: \<^verbatim>\<open>GetSyncedSlot\<close> reports an error unless
  the answer has 32 bytes; the light client commands do not look at the length and panic on a shorter one, as
  an address without a contract gives.\<close>

lemma GetSyncedSlot_head_slot:
  assumes "Pack (BeaconLightClientABI V) ''head'' [] = Inr cd"
    and "CallContract E \<lparr>cm_From = None, cm_To = Some addr, cm_GasFeeCap = None, cm_GasTipCap = None, cm_Value = None,
        cm_Data = cd, cm_AccessList = []\<rparr> w = (Inr res, w')"
  shows "(\<forall>n < 2 ^ 64. res = be_bytes 32 n \<longrightarrow>
      GetSyncedSlot (BeaconLightClientABI V) E addr w = (Inr (of_nat n), w') \<and> head_slot V E addr w = (Inr (of_nat n), w'))
    \<and> (length res \<noteq> 32 \<longrightarrow> (\<exists>e. GetSyncedSlot (BeaconLightClientABI V) E addr w = (Inl (Err e), w')))
    \<and> (length res < 32 \<longrightarrow> head_slot V E addr w = (Inl (Panic ''slice bounds out of range''), w'))"
proof (intro conjI allI impI)
  fix n :: nat assume n: "n < 2 ^ 64" and res: "res = be_bytes 32 n"
  have "be_bytes (24 + 8) n = be_bytes 24 (n div 256 ^ 8) @ be_bytes 8 n" by (rule be_bytes_add)
  then have "drop 24 res = be_bytes 8 n" by (simp add: res)
  then have slice: "subslice res 24 32 = Inr (be_bytes 8 n)" by (simp add: subslice_def res)
  have get: "get_uint64_be (be_bytes 8 n) = Inr (of_nat n)" using n by (simp add: get_uint64_be_def be_nat_be_bytes)
  show "GetSyncedSlot (BeaconLightClientABI V) E addr w = (Inr (of_nat n), w')"
    using assms slice get by (simp add: GetSyncedSlot_def bind_io_def map_res_def res)
  show "head_slot V E addr w = (Inr (of_nat n), w')"
    using assms slice get by (simp add: head_slot_def bind_io_def map_res_def)
next
  assume "length res \<noteq> 32"
  then show "\<exists>e. GetSyncedSlot (BeaconLightClientABI V) E addr w = (Inl (Err e), w')"
    using assms by (simp add: GetSyncedSlot_def bind_io_def map_res_def)
next
  assume "length res < 32"
  then have "subslice res 24 32 = Inl (Panic ''slice bounds out of range'')" by (simp add: subslice_def)
  then show "head_slot V E addr w = (Inl (Panic ''slice bounds out of range''), w')"
    using assms by (simp add: head_slot_def bind_io_def map_res_def)
qed

subsection \<open>The receipts of the block\<close>

text \<open>The receipts the loop fetches, one request after the other.\<close>

fun fetched :: "('w, 'tx) eth1 \<Rightarrow> hash list \<Rightarrow> 'w \<Rightarrow> Receipt list \<Rightarrow> 'w \<Rightarrow> bool" where
  "fetched E [] w rs w' = (rs = [] \<and> w' = w)"
| "fetched E (h # hs) w [] w' = False"
| "fetched E (h # hs) w (r # rs) w' = (\<exists>w1. TransactionReceipt E h w = (Inr r, w1) \<and> fetched E hs w1 rs w')"

text \<open>The trie over the receipts from position \<open>i\<close> on, each under the RLP encoding of its position.\<close>

fun receipts_trie :: "('w, 'tx, 'key, 'trie) amb_env \<Rightarrow> nat \<Rightarrow> byte list list \<Rightarrow> 'trie \<Rightarrow> 'trie" where
  "receipts_trie V i [] t = t"
| "receipts_trie V i (v # vs) t = receipts_trie V (i + 1) vs (am_UpdateTrie V t (am_AppendUint64 V [] (of_nat i)) v)"

lemma receipts_loop_Inr:
  assumes "receipts_loop V E l i hs x t w = (Inr (x', t'), w')"
  shows "\<exists>rs vals. fetched E hs w rs w' \<and> length rs = length hs \<and> map_go (am_MarshalReceipt V) rs = Inr vals
    \<and> t' = receipts_trie V i vals t
    \<and> (\<forall>j < length rs. int (i + j) = int64 (lg_TxIndex l) \<longrightarrow>
         rc_Logs (rs ! j) \<noteq> [] \<and> x' = int64 (lg_Index l - lg_Index (rc_Logs (rs ! j) ! 0)))
    \<and> ((\<forall>j < length rs. int (i + j) \<noteq> int64 (lg_TxIndex l)) \<longrightarrow> x' = x)"
  using assms
proof (induction hs arbitrary: i x t w)
  case Nil
  then show ?case by (intro exI [of _ "[]"]) simp
next
  case (Cons h hs)
  from Cons.prems obtain r w1 x1 v where run: "TransactionReceipt E h w = (Inr r, w1)"
    "(if int i = int64 (lg_TxIndex l) then bind (index (rc_Logs r) 0) (\<lambda>l'. Inr (int64 (lg_Index l - lg_Index l')))
      else Inr x) = Inr x1" "am_MarshalReceipt V r = Inr v"
    "receipts_loop V E l (i + 1) hs x1 (am_UpdateTrie V t (am_AppendUint64 V [] (of_nat i)) v) w1 = (Inr (x', t'), w')"
    by (auto simp: bind_io_eq_Inr map_res_eq)
  from Cons.IH [OF run(4)] obtain rs vs where IH: "fetched E hs w1 rs w'" "length rs = length hs"
    "map_go (am_MarshalReceipt V) rs = Inr vs"
    "t' = receipts_trie V (i + 1) vs (am_UpdateTrie V t (am_AppendUint64 V [] (of_nat i)) v)"
    "\<forall>j < length rs. int (i + 1 + j) = int64 (lg_TxIndex l) \<longrightarrow>
       rc_Logs (rs ! j) \<noteq> [] \<and> x' = int64 (lg_Index l - lg_Index (rc_Logs (rs ! j) ! 0))"
    "(\<forall>j < length rs. int (i + 1 + j) \<noteq> int64 (lg_TxIndex l)) \<longrightarrow> x' = x1" by blast
  have first: "rc_Logs r \<noteq> [] \<and> x' = int64 (lg_Index l - lg_Index (rc_Logs r ! 0))" if "int i = int64 (lg_TxIndex l)"
  proof -
    have "x' = x1" using IH(6) that by auto
    then show ?thesis using run(2) that by (auto simp: bind_eq_Inr index_def split: if_splits)
  qed
  have "\<forall>j < length (r # rs). int (i + j) = int64 (lg_TxIndex l) \<longrightarrow>
         rc_Logs ((r # rs) ! j) \<noteq> [] \<and> x' = int64 (lg_Index l - lg_Index (rc_Logs ((r # rs) ! j) ! 0))"
    using first IH(5) by (auto simp: nth_Cons less_Suc_eq_0_disj)
  moreover have "x' = x" if "\<forall>j < length (r # rs). int (i + j) \<noteq> int64 (lg_TxIndex l)"
  proof -
    have "int i \<noteq> int64 (lg_TxIndex l)" using that by (force dest: spec [of _ 0])
    moreover have "\<forall>j < length rs. int (i + 1 + j) \<noteq> int64 (lg_TxIndex l)"
      using that by (auto dest: spec [of _ "Suc _"])
    ultimately show ?thesis using IH(6) run(2) by auto
  qed
  ultimately show ?case
    using run IH by (intro exI [of _ "r # rs"] exI [of _ "v # vs"]) auto
qed

lemma put_all_Inr: "put_all db kvs = Inr (db\<lparr>db_Proof := db_Proof db @ map snd kvs\<rparr>)"
proof (induction kvs arbitrary: db)
  case (Cons kv kvs)
  then show ?case by (cases kv) (simp add: Put_def)
qed simp

text \<open>What \<^verbatim>\<open>execute\_log\<close> proves is the receipt of the message: the trie it builds has the binary
  encodings of all receipts of the log's block, in the order of the transactions, each under the RLP encoding of
  its position; the proof is the nodes of the path to the log's transaction, in the order the trie hands them
  out; and when the log is the one at position \<open>k\<close> of that receipt and the logs of a receipt are numbered
  consecutively, the log index it submits is \<open>k\<close>.\<close>

lemma receipt_proof_message:
  assumes "receipt_proof V E sentLog w = (Inr (logIndex, nodes), w')"
  shows "\<exists>txs w1 rs vals kvs. BlockByHash E (lg_BlockHash sentLog) w = (Inr txs, w1) \<and> fetched E txs w1 rs w'
    \<and> length rs = length txs \<and> map_go (am_MarshalReceipt V) rs = Inr vals
    \<and> am_ProveTrie V (receipts_trie V 0 vals (am_NewTrie V)) (am_AppendUint64 V [] (lg_TxIndex sentLog)) = Inr kvs
    \<and> nodes = map snd kvs
    \<and> (\<forall>i k logs. i < length rs \<and> int i = int64 (lg_TxIndex sentLog) \<and> logs = rc_Logs (rs ! i)
         \<and> k < length logs \<and> logs ! k = sentLog \<and> length logs < 2 ^ 63
         \<and> (\<forall>j < length logs. lg_Index (logs ! j) = lg_Index (logs ! 0) + of_nat j) \<longrightarrow> logIndex = int k)"
proof -
  from assms obtain txs w1 trie kvs where run: "BlockByHash E (lg_BlockHash sentLog) w = (Inr txs, w1)"
    "receipts_loop V E sentLog 0 txs 0 (am_NewTrie V) w1 = (Inr (logIndex, trie), w')"
    "am_ProveTrie V trie (am_AppendUint64 V [] (lg_TxIndex sentLog)) = Inr kvs" "nodes = map snd kvs"
    by (auto simp: receipt_proof_def bind_io_eq_Inr map_res_eq bind_eq_Inr put_all_Inr split: prod.splits)
  from receipts_loop_Inr [OF run(2)] obtain rs vals where loop: "fetched E txs w1 rs w'" "length rs = length txs"
    "map_go (am_MarshalReceipt V) rs = Inr vals" "trie = receipts_trie V 0 vals (am_NewTrie V)"
    "\<forall>j < length rs. int j = int64 (lg_TxIndex sentLog) \<longrightarrow>
         rc_Logs (rs ! j) \<noteq> [] \<and> logIndex = int64 (lg_Index sentLog - lg_Index (rc_Logs (rs ! j) ! 0))"
    unfolding add_0 by blast
  have "logIndex = int k" if "i < length rs" "int i = int64 (lg_TxIndex sentLog)" "logs = rc_Logs (rs ! i)"
    "k < length logs" "logs ! k = sentLog" "length logs < 2 ^ 63"
    "\<forall>j < length logs. lg_Index (logs ! j) = lg_Index (logs ! 0) + of_nat j" for i k logs
  proof -
    have "lg_Index sentLog = lg_Index (logs ! 0) + of_nat k" using that(4,5,7) by metis
    then have "logIndex = int64 (of_nat k)" using loop(5) that(1-3) by simp
    moreover have "k < 2 ^ 63" using that(4,6) by simp
    then have "unat (of_nat k :: u64) = k" by (simp add: unat_of_nat)
    then have "sint (of_nat k :: u64) = int k" using sint_small [of "of_nat k"] \<open>k < 2 ^ 63\<close> by simp
    ultimately show ?thesis by (simp add: int64_def)
  qed
  then show ?thesis using run(1,3,4) loop(1-4) by blast
qed

subsection \<open>The contract's checks\<close>

text \<open>The verification of the receipts root in \<^verbatim>\<open>executeMessageFromLog\<close>; \<open>None\<close> of the model is a revert.\<close>

definition receiptsRoot_verified ::
  "(byte list \<Rightarrow> hash) \<Rightarrow> hash \<Rightarrow> u256 \<Rightarrow> u256 \<Rightarrow> hash list \<Rightarrow> byte list list \<Rightarrow> bool"
where
  "receiptsRoot_verified keccak256 stateRoot sourceSlot targetSlot receiptsRootProof receiptProof \<longleftrightarrow>
     stateRoot \<noteq> zero_hash \<and> receiptProof \<noteq> [] \<and>
     (case executeMessageFromLog_index sourceSlot targetSlot of
        None \<Rightarrow> False
      | Some i \<Rightarrow> restoreMerkleRoot (keccak256 (receiptProof ! 0)) i receiptsRootProof = Some stateRoot)"

text \<open>The trie key the contract derives from a transaction index.\<close>

definition rlpIndex :: "u256 \<Rightarrow> u256" where
  "rlpIndex v =
     (if v = 0 then push_bit 248 0x80
      else if v < 128 then push_bit 248 0x80
      else if v < 256 then push_bit 248 0x81 OR push_bit 240 v
      else push_bit 248 0x82 OR push_bit 232 v)"

text \<open>What the documentation of package rlp says of \<^verbatim>\<open>AppendUint64\<close>: the RLP encoding of the number.\<close>

definition rlp_uint :: "u64 \<Rightarrow> byte list" where
  "rlp_uint v =
     (if 0 < v \<and> v < 0x80 then [ucast v]
      else (let n = byte_length (unat v) in of_nat (0x80 + n) # be_bytes n (unat v)))"

definition AppendUint64_doc :: "(byte list \<Rightarrow> u64 \<Rightarrow> byte list) \<Rightarrow> bool" where
  "AppendUint64_doc f \<longleftrightarrow> (\<forall>bs v. f bs v = bs @ rlp_uint v)"

text \<open>The chain the proofs are about: the states of the two slots, the state root of the first, the receipts root
  of the second, and the roots that link them.\<close>

definition history_ok :: "lib \<Rightarrow> LightClient \<Rightarrow> u64 \<Rightarrow> u64 \<Rightarrow> hash \<Rightarrow> hash \<Rightarrow> bool" where
  "history_ok L c s t stateRoot receiptsRoot \<longleftrightarrow>
     (\<exists>ss st ts tt. GetBeaconState L c s = Inr (ss, st) \<and> GetBeaconState L c t = Inr (ts, tt)
      \<and> payload_sizes (st_LatestExecutionPayloadHeader ts) \<and> unat s < 2 ^ 63
      \<and> (t \<noteq> s \<and> unat s < unat t + 8192 \<longrightarrow> state_roots_hold ss (unat t) (tree_root tt))
      \<and> (unat t + 8192 \<le> unat s \<longrightarrow> (\<exists>hs ht. GetBeaconState L c (t div 8192 * 8192 + 8192) = Inr (hs, ht)
           \<and> state_roots_hold hs (unat t) (tree_root tt) \<and> batch_holds ss hs (unat t)))
      \<and> MerkleTree_Hash st = Inr stateRoot
      \<and> receiptsRoot = BytesToHash L (ep_ReceiptsRoot (st_LatestExecutionPayloadHeader ts)))"

lemma receipts_proof_verified:
  assumes "BytesToHash_doc L" and "PadTo_doc L" and "ssz_doc L"
    and "SlotsPerHistoricalRoot (Spec c) = 8192" and "HistoricalRootsLimit (Spec c) = 16777216"
    and "MakeExecutionPayloadReceiptsRootProof L c s t = Inr branch" and "history_ok L c s t stateRoot receiptsRoot"
    and "stateRoot \<noteq> zero_hash" and "nodes \<noteq> []" and "keccak (nodes ! 0) = receiptsRoot"
  shows "receiptsRoot_verified keccak stateRoot (ucast s) (ucast t) branch nodes"
proof -
  have le: "unat t \<le> unat s"
    using assms(6) by (auto simp: MakeExecutionPayloadReceiptsRootProof_def not_less word_le_nat_alt split: if_splits)
  from assms(7) obtain ss st ts tt where h: "GetBeaconState L c s = Inr (ss, st)" "GetBeaconState L c t = Inr (ts, tt)"
    "payload_sizes (st_LatestExecutionPayloadHeader ts)" "unat s < 2 ^ 63"
    "t \<noteq> s \<and> unat s < unat t + 8192 \<Longrightarrow> state_roots_hold ss (unat t) (tree_root tt)"
    "unat t + 8192 \<le> unat s \<Longrightarrow> \<exists>hs ht. GetBeaconState L c (t div 8192 * 8192 + 8192) = Inr (hs, ht)
           \<and> state_roots_hold hs (unat t) (tree_root tt) \<and> batch_holds ss hs (unat t)"
    "MerkleTree_Hash st = Inr stateRoot"
    "receiptsRoot = BytesToHash L (ep_ReceiptsRoot (st_LatestExecutionPayloadHeader ts))"
    unfolding history_ok_def by blast
  show ?thesis
    using receipts_branch [OF assms(1-5) h(1-3) le h(4-6)] assms(6,8-10) h(7,8)
    unfolding receiptsRoot_verified_def by auto
qed

text \<open>When \<^verbatim>\<open>execute\_log\<close> packs its call, the call has: the slot the light client contract is synced to; the
  slot found for the log's block; the log's transaction index; the log index and the trie nodes of its receipt;
  the message of the log; and a branch. If the beacon states of the two slots are linked as the consensus rules
  say, and the first trie node hashes to the receipts root of the second slot's payload, the receipts root
  check of \<^verbatim>\<open>executeMessageFromLog\<close> passes for these values against the state root of the synced slot.\<close>

lemma execute_log_accepted:
  assumes "execute_log_data V fl lc sourceClient targetClient w = (Inr data, w')"
    and "BytesToHash_doc (am_Lib V)" and "PadTo_doc (am_Lib V)" and "ssz_doc (am_Lib V)"
    and "SlotsPerHistoricalRoot (Spec lc) = 8192" and "HistoricalRootsLimit (Spec lc) = 16777216"
  shows "\<exists>sentLog msg s t logIndex nodes branch w1.
      find_message V fl lc sourceClient targetClient w = (Inr (sentLog, msg, s, t), w1)
    \<and> receipt_proof V sourceClient sentLog w1 = (Inr (logIndex, nodes), w')
    \<and> Pack (am_AMBABI V) ''executeMessageFromLog''
         [BigInt (int64 s), BigInt (int64 t), BigInt (int64 (lg_TxIndex sentLog)), BigInt logIndex, ByteArg msg,
          Hashes branch, ByteLists nodes] = Inr data
    \<and> message_of (lg_Data sentLog) = Inr msg \<and> t \<le> s
    \<and> (\<forall>stateRoot keccak. history_ok (am_Lib V) lc s t stateRoot (keccak (nodes ! 0)) \<and> stateRoot \<noteq> zero_hash \<and> nodes \<noteq> []
         \<longrightarrow> receiptsRoot_verified keccak stateRoot (ucast s) (ucast t) branch nodes)"
proof -
  from assms(1) obtain sentLog msg s t w1 logIndex nodes branch where run:
    "find_message V fl lc sourceClient targetClient w = (Inr (sentLog, msg, s, t), w1)"
    "receipt_proof V sourceClient sentLog w1 = (Inr (logIndex, nodes), w')"
    "MakeExecutionPayloadReceiptsRootProof (am_Lib V) lc s t = Inr branch"
    "Pack (am_AMBABI V) ''executeMessageFromLog''
         [BigInt (int64 s), BigInt (int64 t), BigInt (int64 (lg_TxIndex sentLog)), BigInt logIndex, ByteArg msg,
          Hashes branch, ByteLists nodes] = Inr data"
    by (auto simp: execute_log_data_def bind_io_eq_Inr split: prod.splits)
  have "message_of (lg_Data sentLog) = Inr msg"
    using run(1) by (auto simp: find_message_def bind_io_eq_Inr split: if_splits)
  moreover have "t \<le> s"
    using run(3) by (auto simp: MakeExecutionPayloadReceiptsRootProof_def not_less split: if_splits)
  ultimately show ?thesis
    using run receipts_proof_verified [OF assms(2-6) run(3)] by blast
qed

subsection \<open>The trie key of a transaction index\<close>

lemma take_be_bytes:
  assumes "m + k = 32"
  shows "take m (be_bytes 32 (x * 256 ^ k)) = be_bytes m x"
  using be_bytes_add [of m k "x * 256 ^ k"] by (simp add: assms)

lemma prefixed_bytes: "v < 256 ^ n \<Longrightarrow> be_bytes (1 + n) (p * 256 ^ n + v) = of_nat (p mod 256) # be_bytes n v"
proof -
  assume v: "v < 256 ^ n"
  have "be_bytes n (p * 256 ^ n + v) = be_bytes n v"
    by (rule be_nat_inject) (simp_all add: be_nat_be_bytes)
  moreover have "(p * 256 ^ n + v) div 256 ^ n = p" using v by simp
  ultimately show ?thesis using be_bytes_add [of 1 n "p * 256 ^ n + v"] by simp
qed

text \<open>A prefix byte above a shifted number that fits below it.\<close>

lemma unat_prefixed:
  fixes w :: u256
  assumes "unat w < 2 ^ k" and "p < 256" and "s + k = 248"
  shows "unat (push_bit 248 (of_nat p) OR push_bit s w) = (p * 2 ^ k + unat w) * 2 ^ s"
proof -
  have low: "\<not> bit w i" if "k \<le> i" for i
  proof
    assume "bit w i"
    then have "bit (unat w) i" by (simp add: bit_unat)
    then have "2 ^ i \<le> unat w" by (intro leI notI) (simp add: bit_iff_odd)
    moreover have "2 ^ k \<le> (2 :: nat) ^ i" using that by simp
    ultimately show False using assms(1) by simp
  qed
  have "push_bit 248 (of_nat p) AND push_bit s w = 0"
    by (rule bit_word_eqI) (use low assms(3) in \<open>auto simp: bit_simps\<close>)
  then have "push_bit 248 (of_nat p) OR push_bit s w = push_bit 248 (of_nat p) + push_bit s w"
    by (simp add: disjunctive_add_eq_or)
  also have "\<dots> = of_nat (p * 2 ^ 248 + unat w * 2 ^ s)"
    by (simp add: push_bit_eq_mult)
  also have "p * 2 ^ 248 + unat w * 2 ^ s = (p * 2 ^ k + unat w) * 2 ^ s"
    using assms(3) by (simp add: power_add [symmetric] algebra_simps)
  finally have eq: "push_bit 248 (of_nat p) OR push_bit s w = of_nat ((p * 2 ^ k + unat w) * 2 ^ s)" .
  have "p * 2 ^ k + unat w < (p + 1) * 2 ^ k" using assms(1) by simp
  also have "\<dots> \<le> 2 ^ 8 * 2 ^ k" using assms(2) by (intro mult_right_mono) auto
  finally have "(p * 2 ^ k + unat w) * 2 ^ s < 2 ^ 8 * 2 ^ k * 2 ^ s" by simp
  also have "\<dots> = 2 ^ (8 + (s + k))" by (simp add: power_add)
  finally have "(p * 2 ^ k + unat w) * 2 ^ s < 2 ^ 256" using assms(3) by simp
  then show ?thesis unfolding eq by (simp only: unat_of_nat) simp
qed

text \<open>The first bytes of the key, for a two and a three byte encoding and for the others.\<close>

lemma rlpIndex_bytes:
  fixes v :: u64
  shows "128 \<le> unat v \<Longrightarrow> unat v < 256 \<Longrightarrow> take 2 (be_bytes 32 (unat (rlpIndex (ucast v)))) = [0x81, of_nat (unat v)]"
    and "256 \<le> unat v \<Longrightarrow> unat v < 256 ^ 2 \<Longrightarrow> take 3 (be_bytes 32 (unat (rlpIndex (ucast v)))) = 0x82 # be_bytes 2 (unat v)"
    and "unat v < 128 \<Longrightarrow> take 1 (be_bytes 32 (unat (rlpIndex (ucast v)))) = [0x80]"
proof -
  let ?w = "ucast v :: u256"
  have cmp: "?w < 128 \<longleftrightarrow> unat v < 128" "?w < 256 \<longleftrightarrow> unat v < 256" "?w = 0 \<longleftrightarrow> unat v = 0"
    by (simp_all add: word_less_nat_alt word_unat_eq_iff ucast_u256)
  { assume v: "128 \<le> unat v" "unat v < 256"
    then have "rlpIndex ?w = push_bit 248 (of_nat 129) OR push_bit 240 ?w" by (simp add: rlpIndex_def cmp)
    moreover have "unat (push_bit 248 (of_nat 129) OR push_bit 240 ?w) = (129 * 2 ^ 8 + unat ?w) * 2 ^ 240"
      using v by (intro unat_prefixed) (simp_all add: ucast_u256)
    ultimately have "unat (rlpIndex ?w) = (129 * 2 ^ 8 + unat ?w) * 2 ^ 240" by (simp only:)
    then have key: "unat (rlpIndex ?w) = (129 * 256 ^ 1 + unat v) * 256 ^ 30" by (simp add: ucast_u256)
    have bytes: "be_bytes 2 (129 * 256 ^ 1 + unat v) = [0x81, of_nat (unat v)]"
      using prefixed_bytes [of "unat v" 1 129] v by (simp add: numeral_2_eq_2)
    show "take 2 (be_bytes 32 (unat (rlpIndex ?w))) = [0x81, of_nat (unat v)]"
      by (simp only: key take_be_bytes [of 2 30] bytes)
  next
    assume v: "256 \<le> unat v" "unat v < 256 ^ 2"
    then have "rlpIndex ?w = push_bit 248 (of_nat 130) OR push_bit 232 ?w" by (simp add: rlpIndex_def cmp)
    moreover have "unat (push_bit 248 (of_nat 130) OR push_bit 232 ?w) = (130 * 2 ^ 16 + unat ?w) * 2 ^ 232"
      using v by (intro unat_prefixed) (simp_all add: ucast_u256)
    ultimately have "unat (rlpIndex ?w) = (130 * 2 ^ 16 + unat ?w) * 2 ^ 232" by (simp only:)
    then have key: "unat (rlpIndex ?w) = (130 * 256 ^ 2 + unat v) * 256 ^ 29" by (simp add: ucast_u256)
    have "be_bytes (1 + 2) (130 * 256 ^ 2 + unat v) = of_nat (130 mod 256) # be_bytes 2 (unat v)"
      using v(2) by (rule prefixed_bytes)
    moreover have "1 + 2 = (3 :: nat)" "of_nat (130 mod 256) = (0x82 :: byte)" by simp_all
    ultimately have "be_bytes 3 (130 * 256 ^ 2 + unat v) = 0x82 # be_bytes 2 (unat v)" by (simp only:)
    then show "take 3 (be_bytes 32 (unat (rlpIndex ?w))) = 0x82 # be_bytes 2 (unat v)"
      using take_be_bytes [of 3 29 "130 * 256 ^ 2 + unat v"] by (simp only: key)
  next
    assume "unat v < 128"
    then have "rlpIndex ?w = push_bit 248 0x80" by (simp add: rlpIndex_def cmp)
    then have key: "unat (rlpIndex ?w) = 128 * 256 ^ 31" by simp
    show "take 1 (be_bytes 32 (unat (rlpIndex ?w))) = [0x80]"
      unfolding key using take_be_bytes [of 1 31 128] by simp
  }
qed

lemma rlpIndex_starts:
  assumes "AppendUint64_doc f" and "unat v < 256 ^ 2"
  shows "take (length (f [] v)) (be_bytes 32 (unat (rlpIndex (ucast v)))) = f [] v \<longleftrightarrow> v = 0 \<or> 128 \<le> unat v"
proof -
  consider "v = 0" | "v \<noteq> 0" "unat v < 128" | "128 \<le> unat v" "unat v < 256" | "256 \<le> unat v" by linarith
  then show ?thesis
  proof cases
    case 1
    then have "f [] v = [0x80]" using assms(1) by (simp add: AppendUint64_doc_def rlp_uint_def byte_length.simps)
    then show ?thesis using rlpIndex_bytes(3) [of v] 1 by simp
  next
    case 2
    then have f: "f [] v = [ucast v]"
      using assms(1) by (simp add: AppendUint64_doc_def rlp_uint_def word_less_nat_alt word_unat_eq_iff)
    have "unat (ucast v :: byte) = unat v" using 2 unat_ucast_drop_bit_byte [of 0 v] by simp
    then have "(ucast v :: byte) \<noteq> 0x80" using 2 by auto
    then show ?thesis using rlpIndex_bytes(3) [of v] 2 f by auto
  next
    case 3
    then have "byte_length (unat v) = 1" by (simp add: byte_length.simps)
    then have "f [] v = [0x81, of_nat (unat v)]"
      using assms(1) 3 by (simp add: AppendUint64_doc_def rlp_uint_def word_less_nat_alt)
    then show ?thesis using rlpIndex_bytes(1) [of v] 3 by (simp add: numeral_2_eq_2)
  next
    case 4
    have "unat v div 256 div 256 = 0" using assms(2) by simp
    then have "byte_length (unat v) = 2"
      using 4 by (simp add: byte_length.simps [of "unat v"] byte_length.simps [of "unat v div 256"] byte_length.simps [of 0] div_eq_0_iff)
    then have "f [] v = 0x82 # be_bytes 2 (unat v)"
      using assms(1) 4 by (simp add: AppendUint64_doc_def rlp_uint_def word_less_nat_alt)
    then show ?thesis using rlpIndex_bytes(2) [of v] 4 assms(2) by (simp add: numeral_3_eq_3)
  qed
qed

text \<open>C23. The receipts trie has the receipt of transaction \<open>v\<close> under the RLP encoding of \<open>v\<close>, the key that
  \<^verbatim>\<open>execute\_log\<close> asks the proof for. The key that the contract walks the proof with, \<^verbatim>\<open>rlpIndex(v)\<close>, starts
  with that encoding exactly for index 0 and from 128 on (below 65536): for the transactions 1 to 127 of a
  block it is the key of transaction 0, and the message of such a transaction cannot be proved by its log.\<close>

theorem rlpIndex_key:
  assumes "AppendUint64_doc f" and "unat v < 256 ^ 2"
  shows "take (length (f [] v)) (be_bytes 32 (unat (rlpIndex (ucast v)))) = f [] v \<longleftrightarrow> v = 0 \<or> 128 \<le> unat v"
  using assms by (rule rlpIndex_starts)

theorem rlpIndex_key_witness:
  "take (length (rlp_uint 300)) (be_bytes 32 (unat (rlpIndex 300))) = rlp_uint 300
   \<and> take (length (rlp_uint 5)) (be_bytes 32 (unat (rlpIndex 5))) \<noteq> rlp_uint 5"
proof -
  have doc: "AppendUint64_doc (\<lambda>bs v. bs @ rlp_uint v)" by (simp add: AppendUint64_doc_def)
  show ?thesis using rlpIndex_key [OF doc, of 300] rlpIndex_key [OF doc, of 5] by simp
qed

end
