(* ===== verification/Execute_Storage.thy ===== *)
theory Execute_Storage
  imports Amb_Common
begin

section \<open>execute\_storage: a message proved by a storage slot (oracle/cmd/amb/execute\_storage/main.go)\<close>

text \<open>
  The program proves the storage slot of the message hash under the storage root of the sending contract. If
  the target has already verified a storage root at or after the message's slot, the slot is proved under that
  one and the other two proofs stay empty; otherwise the account and the execution state root are proved too.
\<close>

subsection \<open>The requests\<close>

definition storage_GetSyncedSlot :: "'u abi \<Rightarrow> ('w, 'tx) eth1 \<Rightarrow> address \<Rightarrow> ('w, u64) io" where
  "storage_GetSyncedSlot A E addr =
     bind_io (pure_io (case Pack A ''head'' [] of Inl (Err _) \<Rightarrow> Inl (Err (Msg ''can't pack head() call'')) | m \<Rightarrow> m)) (\<lambda>cd.
     bind_io (map_res (wrap_err ''can't make eth_call request'') (CallContract E
       \<lparr>cm_From = None, cm_To = Some addr, cm_GasFeeCap = None, cm_GasTipCap = None, cm_Value = None,
        cm_Data = cd, cm_AccessList = []\<rparr>)) (\<lambda>data.
     pure_io (if length data \<noteq> 32
       then Inl (Err (Msg (''call to head() should return 32 bytes, got '' @ fmt_int (int (length data)) @ '' instead'')))
       else bind (subslice data 24 32) get_uint64_be)))"

definition storage_FindSentMessageLog ::
  "(int \<Rightarrow> hash) \<Rightarrow> 'u abi \<Rightarrow> ('w, 'tx) eth1 \<Rightarrow> address \<Rightarrow> int \<Rightarrow> ('w, Log) io"
where
  "storage_FindSentMessageLog BigToHash A E addr nonce =
     bind_io (map_res (wrap_err ''can't filter logs'')
       (FilterLogs E [addr] [Some [EventID A ''SentMessage''], None, Some [BigToHash nonce]])) (\<lambda>logs.
     pure_io (if length logs = 0 then Inl (Err (Msg (''can't find log with given nonce: '' @ fmt_int nonce)))
       else if length logs > 1
       then Inl (Err (Msg (''found more than single SentMessage log: '' @ fmt_int (int (length logs)) @ '' were found'')))
       else index logs 0))"

text \<open>The loop over the logs: the first slot at or after \<open>minSlot\<close>. \<^verbatim>\<open>big.Int.Int64\<close> keeps the low 64 bits.\<close>

fun verified_loop :: "(hash \<Rightarrow> int) \<Rightarrow> int \<Rightarrow> Log list \<Rightarrow> (bool \<times> int) go" where
  "verified_loop Big minSlot [] = Inr (False, 0)"
| "verified_loop Big minSlot (l # ls) =
     bind (index (lg_Topics l) 1) (\<lambda>topic.
     let slot = wrap64 (Big topic) in
     if slot \<ge> minSlot then Inr (True, slot) else verified_loop Big minSlot ls)"

definition FindVerifiedStorageRootLog ::
  "(hash \<Rightarrow> int) \<Rightarrow> 'u abi \<Rightarrow> ('w, 'tx) eth1 \<Rightarrow> address \<Rightarrow> int \<Rightarrow> ('w, bool \<times> int) io"
where
  "FindVerifiedStorageRootLog Big A E addr minSlot =
     bind_io (map_res (wrap_err ''can't filter logs'')
       (FilterLogs E [addr] [Some [EventID A ''VerifiedStorageRoot'']])) (\<lambda>logs.
     pure_io (verified_loop Big minSlot logs))"

definition transformProof :: "lib \<Rightarrow> string list \<Rightarrow> byte list list" where
  "transformProof L proof_hex = map (FromHex L) proof_hex"

subsection \<open>main\<close>

definition storage_find_message ::
  "('w, 'tx, 'key, 'trie) amb_env \<Rightarrow> flags \<Rightarrow> LightClient \<Rightarrow> ('w, 'tx) eth1 \<Rightarrow> ('w, 'tx) eth1 \<Rightarrow>
   ('w, byte list \<times> u64 \<times> u64 \<times> u64) io"
where
  "storage_find_message V fl lc sourceClient targetClient =
     bind_io (map_res fatal_err (storage_FindSentMessageLog (am_BigToHash V) (am_AMBABI V) sourceClient
       (am_HexToAddress V (sourceAMB fl)) (msgNonce fl))) (\<lambda>sentLog.
     bind_io (pure_io (message_of (lg_Data sentLog))) (\<lambda>msg.
     bind_io (map_res fatal_err (storage_GetSyncedSlot (am_LightABI V) targetClient (am_HexToAddress V (targetLC fl)))) (\<lambda>syncedSlot.
     bind_io (pure_io (bind (fatal_err (GetBlock (Client lc) (FormatUint syncedSlot))) payload_number)) (\<lambda>n.
     if n < lg_BlockNumber sentLog
     then pure_io (Inl (Fatal ''not yet synced to the desired block number''))
     else
       bind_io (pure_io (fatal_err (FindBeaconBlockByExecutionBlockNumber lc (lg_BlockNumber sentLog)))) (\<lambda>sourceSlot.
       pure_io (Inr (msg, syncedSlot, n, sourceSlot)))))))"

text \<open>The storage key of the message hash: \<^verbatim>\<open>sentMessages[nonce]\<close>, the mapping at slot 0.\<close>

definition storage_key :: "('w, 'tx, 'key, 'trie) amb_env \<Rightarrow> int \<Rightarrow> string" where
  "storage_key V nonce =
     HashString (am_Lib V) (am_Keccak V (Bytes (am_BigToHash V nonce) @ Bytes (am_BigToHash V 0)))"

text \<open>The slot the proofs are for, and the three proofs; the two cases of the program.\<close>

definition storage_proofs ::
  "('w, 'tx, 'key, 'trie) amb_env \<Rightarrow> flags \<Rightarrow> LightClient \<Rightarrow> ('w, 'tx) eth1 \<Rightarrow> u64 \<Rightarrow> u64 \<Rightarrow> u64 \<Rightarrow>
   ('w, int \<times> hash list \<times> byte list list \<times> byte list list) io"
where
  "storage_proofs V fl lc targetClient syncedSlot syncedBlockNumber sourceSlot =
     (let L = am_Lib V; key = storage_key V (msgNonce fl); amb = am_HexToAddress V (sourceAMB fl) in
      bind_io (map_res fatal_err (FindVerifiedStorageRootLog (am_Big V) (am_AMBABI V) targetClient
        (am_HexToAddress V (targetAMB fl)) (int64 sourceSlot))) (\<lambda>(found, verifiedSlot).
      if found then
        bind_io (pure_io (fatal_err (GetBlock (Client lc) (FormatUint (of_int verifiedSlot))))) (\<lambda>b.
        bind_io (pure_io (payload_number b)) (\<lambda>n.
        bind_io (map_res fatal_err (am_GetProof V amb [key] (int64 n))) (\<lambda>p.
        bind_io (pure_io (index (ar_StorageProof p) 0)) (\<lambda>sp.
        pure_io (Inr (verifiedSlot, [], [], transformProof L sp))))))
      else
        bind_io (map_res fatal_err (am_GetProof V amb [key] (int64 syncedBlockNumber))) (\<lambda>p.
        bind_io (pure_io (index (ar_StorageProof p) 0)) (\<lambda>sp.
        bind_io (pure_io (fatal_err (MakeExecutionPayloadStateRootProof L lc syncedSlot))) (\<lambda>branch.
        pure_io (Inr (int64 syncedSlot, branch, transformProof L (ar_AccountProof p), transformProof L sp)))))))"

definition execute_storage_data ::
  "('w, 'tx, 'key, 'trie) amb_env \<Rightarrow> flags \<Rightarrow> LightClient \<Rightarrow> ('w, 'tx) eth1 \<Rightarrow> ('w, 'tx) eth1 \<Rightarrow> ('w, byte list) io"
where
  "execute_storage_data V fl lc sourceClient targetClient =
     bind_io (storage_find_message V fl lc sourceClient targetClient) (\<lambda>(msg, syncedSlot, n, sourceSlot).
     bind_io (storage_proofs V fl lc targetClient syncedSlot n sourceSlot) (\<lambda>(proofSlot, branch, account, storage).
     pure_io (fatal_err (Pack (am_AMBABI V) ''executeMessage''
       [BigInt proofSlot, ByteArg msg, Hashes branch, ByteLists account, ByteLists storage]))))"

definition execute_storage_main :: "('w, 'tx, 'key, 'trie) amb_env \<Rightarrow> flags \<Rightarrow> ('w, 'tx \<times> Receipt) io" where
  "execute_storage_main V fl =
     bind_io (pure_io (fatal_err (source_light_client V fl))) (\<lambda>lc.
     bind_io (pure_io (fatal_err (am_Dial V (sourceRPC fl)))) (\<lambda>sourceClient.
     bind_io (pure_io (fatal_err (am_Dial V (targetRPC fl)))) (\<lambda>targetClient.
     bind_io (execute_storage_data V fl lc sourceClient targetClient) (\<lambda>data.
     bind_io (map_res fatal_err (NewTxSender targetClient (am_Wallet V) (keystore fl) (keystorePass fl))) (\<lambda>s.
     send_and_wait (am_Lib V) (am_AMBABI V) targetClient (am_Wallet V) s
       (new_tx (am_HexToAddress V (targetAMB fl)) data))))))"

subsection \<open>The verified storage roots\<close>

lemma verified_loop_topics:
  "\<forall>l \<in> set logs. 2 \<le> length (lg_Topics l) \<Longrightarrow>
   verified_loop Big minSlot logs =
     Inr (case find (\<lambda>l. minSlot \<le> wrap64 (Big (lg_Topics l ! 1))) logs of
            None \<Rightarrow> (False, 0) | Some l \<Rightarrow> (True, wrap64 (Big (lg_Topics l ! 1))))"
proof (induction logs)
  case (Cons l logs)
  then have "index (lg_Topics l) 1 = Inr (lg_Topics l ! 1)" using index_nat [of 1 "lg_Topics l"] by simp
  with Cons show ?case by (simp add: Let_def)
qed simp

lemma verified_loop_found: "verified_loop Big minSlot logs = Inr (True, slot) \<Longrightarrow> minSlot \<le> slot"
  by (induction logs) (auto simp: bind_eq_Inr Let_def split: if_splits)

subsection \<open>The contract's checks\<close>

text \<open>The verification of the execution state root in \<^verbatim>\<open>executeMessage\<close>, when no storage root is cached.\<close>

definition stateRoot_verified ::
  "(byte list \<Rightarrow> hash) \<Rightarrow> hash \<Rightarrow> hash list \<Rightarrow> byte list list \<Rightarrow> bool"
where
  "stateRoot_verified keccak256 stateRoot stateRootProof accountProof \<longleftrightarrow>
     stateRoot \<noteq> zero_hash \<and> accountProof \<noteq> [] \<and>
     restoreMerkleRoot (keccak256 (accountProof ! 0)) executeMessage_index stateRootProof = Some stateRoot"

text \<open>The slot of \<^verbatim>\<open>sentMessages[nonce]\<close>: \<^verbatim>\<open>keccak256(abi.encode(msgNonce, 0))\<close>.\<close>

definition message_slot :: "(byte list \<Rightarrow> hash) \<Rightarrow> nat \<Rightarrow> hash" where
  "message_slot keccak256 nonce = keccak256 (be_bytes 32 nonce @ be_bytes 32 0)"

text \<open>What the documentation says of \<^verbatim>\<open>common.BigToHash\<close>: the big-endian bytes of the number, padded on the left.\<close>

definition BigToHash_doc :: "(int \<Rightarrow> hash) \<Rightarrow> bool" where
  "BigToHash_doc f \<longleftrightarrow> (\<forall>n. 0 \<le> n \<and> n < 2 ^ 256 \<longrightarrow> Bytes (f n) = be_bytes 32 (nat n))"

lemma storage_key_slot:
  assumes "BigToHash_doc (am_BigToHash V)" and "0 \<le> nonce" and "nonce < 2 ^ 63"
  shows "storage_key V nonce = HashString (am_Lib V) (message_slot (am_Keccak V) (nat nonce))"
proof -
  have "nonce < 2 ^ 256" using assms(3) by simp
  then have "Bytes (am_BigToHash V nonce) = be_bytes 32 (nat nonce)" "Bytes (am_BigToHash V 0) = be_bytes 32 0"
    using assms(1,2) by (simp_all add: BigToHash_doc_def)
  then show ?thesis by (simp add: storage_key_def message_slot_def)
qed

text \<open>The two successful outcomes of the second half of the program.\<close>

lemma storage_proofs_Inr:
  assumes "storage_proofs V fl lc E s n t w = (Inr (proofSlot, branch, account, storage), w')"
  shows "(\<exists>logs w1 b m p sp w2. FilterLogs E [am_HexToAddress V (targetAMB fl)] [Some [EventID (am_AMBABI V) ''VerifiedStorageRoot'']] w = (Inr logs, w1)
        \<and> verified_loop (am_Big V) (int64 t) logs = Inr (True, proofSlot)
        \<and> GetBlock (Client lc) (FormatUint (of_int proofSlot)) = Inr b \<and> payload_number b = Inr m
        \<and> am_GetProof V (am_HexToAddress V (sourceAMB fl)) [storage_key V (msgNonce fl)] (int64 m) w1 = (Inr p, w2)
        \<and> index (ar_StorageProof p) 0 = Inr sp \<and> branch = [] \<and> account = [] \<and> storage = transformProof (am_Lib V) sp)
    \<or> (\<exists>p sp w1 w2. proofSlot = int64 s
        \<and> am_GetProof V (am_HexToAddress V (sourceAMB fl)) [storage_key V (msgNonce fl)] (int64 n) w1 = (Inr p, w2)
        \<and> index (ar_StorageProof p) 0 = Inr sp
        \<and> MakeExecutionPayloadStateRootProof (am_Lib V) lc s = Inr branch
        \<and> account = transformProof (am_Lib V) (ar_AccountProof p) \<and> storage = transformProof (am_Lib V) sp)"
proof -
  from assms obtain found slot w1 where log:
    "FindVerifiedStorageRootLog (am_Big V) (am_AMBABI V) E (am_HexToAddress V (targetAMB fl)) (int64 t) w = (Inr (found, slot), w1)"
    by (auto simp: storage_proofs_def Let_def bind_io_eq_Inr map_res_eq split: prod.splits)
  show ?thesis
  proof (cases found)
    case True
    with log obtain logs where
      "FilterLogs E [am_HexToAddress V (targetAMB fl)] [Some [EventID (am_AMBABI V) ''VerifiedStorageRoot'']] w = (Inr logs, w1)"
      "verified_loop (am_Big V) (int64 t) logs = Inr (True, slot)"
      by (auto simp: FindVerifiedStorageRootLog_def bind_io_eq_Inr map_res_eq)
    with assms log True show ?thesis
      by (auto simp: storage_proofs_def Let_def bind_io_eq_Inr map_res_eq)
  next
    case False
    with assms log show ?thesis
      by (auto simp: storage_proofs_def Let_def bind_io_eq_Inr map_res_eq)
  qed
qed

text \<open>When \<^verbatim>\<open>execute\_storage\<close> packs its call, the storage proof is for the slot of
  \<^verbatim>\<open>sentMessages[nonce]\<close> that the contract reads. Either the contract has announced a verified storage root
  for the submitted slot, which is at or after the slot of the message, the storage was read at that slot's block,
  and the other two proofs are empty; or the submitted slot is the one the light client contract is synced to,
  and the state root check of \<^verbatim>\<open>executeMessage\<close> passes for the branch and the account proof, if the first
  account node hashes to the execution state root of that slot's state.\<close>

lemma execute_storage_accepted:
  assumes "execute_storage_data V fl lc sourceClient targetClient w = (Inr data, w')"
    and "BytesToHash_doc (am_Lib V)" and "PadTo_doc (am_Lib V)" and "ssz_doc (am_Lib V)"
    and "BigToHash_doc (am_BigToHash V)" and "0 \<le> msgNonce fl" and "msgNonce fl < 2 ^ 63"
  shows "\<exists>msg s n t w1 proofSlot branch account storage block p sp w2 w3.
      storage_find_message V fl lc sourceClient targetClient w = (Inr (msg, s, n, t), w1)
    \<and> Pack (am_AMBABI V) ''executeMessage''
         [BigInt proofSlot, ByteArg msg, Hashes branch, ByteLists account, ByteLists storage] = Inr data
    \<and> am_GetProof V (am_HexToAddress V (sourceAMB fl))
         [HashString (am_Lib V) (message_slot (am_Keccak V) (nat (msgNonce fl)))] (int64 block) w2 = (Inr p, w3)
    \<and> index (ar_StorageProof p) 0 = Inr sp \<and> storage = map (FromHex (am_Lib V)) sp
    \<and> (int64 t \<le> proofSlot \<and> branch = [] \<and> account = []
         \<and> (\<exists>b. GetBlock (Client lc) (FormatUint (of_int proofSlot)) = Inr b \<and> payload_number b = Inr block)
       \<or> proofSlot = int64 s \<and> block = n \<and> account = map (FromHex (am_Lib V)) (ar_AccountProof p)
         \<and> (\<forall>st tr stateRoot keccak. GetBeaconState (am_Lib V) lc s = Inr (st, tr) \<and> MerkleTree_Hash tr = Inr stateRoot
              \<and> payload_sizes (st_LatestExecutionPayloadHeader st) \<and> stateRoot \<noteq> zero_hash \<and> account \<noteq> []
              \<and> keccak (account ! 0) = BytesToHash (am_Lib V) (ep_StateRoot (st_LatestExecutionPayloadHeader st))
              \<longrightarrow> stateRoot_verified keccak stateRoot branch account))"
proof -
  let ?L = "am_Lib V"
  from assms(1) obtain msg s n t w1 proofSlot branch account storage where run:
    "storage_find_message V fl lc sourceClient targetClient w = (Inr (msg, s, n, t), w1)"
    "storage_proofs V fl lc targetClient s n t w1 = (Inr (proofSlot, branch, account, storage), w')"
    "Pack (am_AMBABI V) ''executeMessage''
         [BigInt proofSlot, ByteArg msg, Hashes branch, ByteLists account, ByteLists storage] = Inr data"
    by (auto simp: execute_storage_data_def bind_io_eq_Inr split: prod.splits)
  note key = storage_key_slot [OF assms(5-7)]
  from storage_proofs_Inr [OF run(2)] show ?thesis
  proof (elim disjE exE conjE)
    fix logs v b m p sp w2
    assume "verified_loop (am_Big V) (int64 t) logs = Inr (True, proofSlot)"
      "GetBlock (Client lc) (FormatUint (of_int proofSlot)) = Inr b" "payload_number b = Inr m"
      "am_GetProof V (am_HexToAddress V (sourceAMB fl)) [storage_key V (msgNonce fl)] (int64 m) v = (Inr p, w2)"
      "index (ar_StorageProof p) 0 = Inr sp" "branch = []" "account = []" "storage = transformProof ?L sp"
    then show ?thesis
      using run(1,3) verified_loop_found unfolding key transformProof_def by blast
  next
    fix p sp v w2
    assume old: "proofSlot = int64 s"
      "am_GetProof V (am_HexToAddress V (sourceAMB fl)) [storage_key V (msgNonce fl)] (int64 n) v = (Inr p, w2)"
      "index (ar_StorageProof p) 0 = Inr sp" "MakeExecutionPayloadStateRootProof ?L lc s = Inr branch"
      "account = transformProof ?L (ar_AccountProof p)" "storage = transformProof ?L sp"
    have "stateRoot_verified keccak stateRoot branch account"
      if "GetBeaconState ?L lc s = Inr (st, tr)" "MerkleTree_Hash tr = Inr stateRoot"
        "payload_sizes (st_LatestExecutionPayloadHeader st)" "stateRoot \<noteq> zero_hash" "account \<noteq> []"
        "keccak (account ! 0) = BytesToHash ?L (ep_StateRoot (st_LatestExecutionPayloadHeader st))" for st tr stateRoot keccak
      using state_root_branch [OF assms(2-4) that(1,3)] old(4) that(2,4-6) by (auto simp: stateRoot_verified_def)
    then have "\<forall>st tr stateRoot keccak. GetBeaconState ?L lc s = Inr (st, tr) \<and> MerkleTree_Hash tr = Inr stateRoot
              \<and> payload_sizes (st_LatestExecutionPayloadHeader st) \<and> stateRoot \<noteq> zero_hash \<and> account \<noteq> []
              \<and> keccak (account ! 0) = BytesToHash ?L (ep_StateRoot (st_LatestExecutionPayloadHeader st))
              \<longrightarrow> stateRoot_verified keccak stateRoot branch account" by blast
    then show ?thesis
      using run(1,3) old unfolding key transformProof_def
      by (intro exI [of _ msg] exI [of _ s] exI [of _ n] exI [of _ t] exI [of _ w1] exI [of _ proofSlot]
        exI [of _ branch] exI [of _ account] exI [of _ storage] exI [of _ n] exI [of _ p] exI [of _ sp]
        exI [of _ v] exI [of _ w2] conjI disjI2) (assumption | rule refl)+
  qed
qed

end
