(* ===== verification/Amb_Contract.thy ===== *)
theory Amb_Contract
  imports Trie_Contract Contract_Runs Execute_Log Execute_Storage
begin

section \<open>The bridge contract (contracts/amb/TrustlessAMB.sol)\<close>

text \<open>
  The contract keeps the hashes of the messages it sent and the status of those it executed. A message is executed
  against a proof that the contract on the other side has sent it: its hash in that contract's storage, or its
  log in a receipt. \<open>None\<close> is a revert. The hash function, the memory of byte objects and the state
  roots of the light client contract at the time of the call are the record \<open>chain\<close>.
\<close>

subsection \<open>State and messages\<close>

datatype ExecutionStatus = NOT_EXECUTED | INVALID | EXECUTION_FAILED | EXECUTION_SUCCEEDED

record amb =
  sentMessages :: "nat \<Rightarrow> hash"
  executionStatus :: "hash \<Rightarrow> ExecutionStatus"
  storageRoot :: "u256 \<Rightarrow> hash"
  otherSideAMB :: nat
  otherSideImage :: hash
  amb_nonce :: nat
  maxGasPerTx :: nat
  messageSender :: nat
  messageId :: hash

record chain =
  keccak256 :: "byte list \<Rightarrow> hash"
  object :: "byte list \<Rightarrow> memory"
  state_root :: "u256 \<Rightarrow> hash"                \<comment> \<open>\<^verbatim>\<open>lightClient.stateRoot(slot)\<close>\<close>

datatype amb_event =
    SentMessage hash nat "byte list"
  | ExecutedMessage hash nat "byte list" bool
  | VerifiedStorageRoot u256 hash
  | Initialized                          \<comment> \<open>of a history: a call of \<^verbatim>\<open>initialize\<close>, which emits nothing\<close>

definition EMPTY_MESSAGE_ID :: hash where
  "EMPTY_MESSAGE_ID = Hash (replicate 32 0xff)"

definition EMPTY_ADDRESS :: nat where
  "EMPTY_ADDRESS = 2 ^ 160 - 1"

record message =
  msg_nonce :: nat
  msg_sender :: nat
  msg_receiver :: nat
  msg_gasLimit :: nat
  msg_data :: "byte list"

text \<open>\<^verbatim>\<open>abi.encode(nonce, sender, receiver, gasLimit, data)\<close>\<close>

definition encode_message :: "message \<Rightarrow> byte list" where
  "encode_message m =
     be_bytes 32 (msg_nonce m) @ be_bytes 32 (msg_sender m) @ be_bytes 32 (msg_receiver m) @ be_bytes 32 (msg_gasLimit m) @
     be_bytes 32 160 @ be_bytes 32 (length (msg_data m)) @ msg_data m @ replicate ((32 - length (msg_data m) mod 32) mod 32) 0"

text \<open>\<^verbatim>\<open>abi.decode(message, (uint256, address, address, uint256, bytes))\<close>, with the checks of the compiler's decoder.\<close>

definition abi_word :: "byte list \<Rightarrow> nat \<Rightarrow> nat" where
  "abi_word bs k = be_nat (take 32 (drop k bs))"

definition decode_message :: "byte list \<Rightarrow> message option" where
  "decode_message bs =
     (let offset = abi_word bs 128; len = abi_word bs offset in
      require (160 \<le> length bs)
      (require (abi_word bs 32 < 2 ^ 160 \<and> abi_word bs 64 < 2 ^ 160)
      (require (offset < 2 ^ 64 \<and> offset + 31 < length bs)
      (require (len < 2 ^ 64 \<and> offset + 32 + len \<le> length bs)
      (Some \<lparr>msg_nonce = abi_word bs 0, msg_sender = abi_word bs 32, msg_receiver = abi_word bs 64,
             msg_gasLimit = abi_word bs 96, msg_data = take len (drop (offset + 32) bs)\<rparr>)))))"

subsection \<open>initialize and requireToPassMessage\<close>

text \<open>A fresh proxy has zero storage. The light client that \<^verbatim>\<open>initialize\<close> sets too is the \<open>state_root\<close> of later transactions.\<close>

definition amb_fresh :: amb where
  "amb_fresh =
     \<lparr>sentMessages = \<lambda>_. zero_hash, executionStatus = \<lambda>_. NOT_EXECUTED, storageRoot = \<lambda>_. zero_hash,
      otherSideAMB = 0, otherSideImage = zero_hash, amb_nonce = 0, maxGasPerTx = 0, messageSender = 0, messageId = zero_hash\<rparr>"

definition amb_initialize :: "chain \<Rightarrow> nat \<Rightarrow> nat \<Rightarrow> amb \<Rightarrow> amb" where
  "amb_initialize C newMaxGasPerTx newOtherSideAMB s =
     s\<lparr>maxGasPerTx := newMaxGasPerTx, otherSideAMB := newOtherSideAMB,
       otherSideImage := keccak256 C (be_bytes 20 newOtherSideAMB), messageId := EMPTY_MESSAGE_ID, messageSender := EMPTY_ADDRESS\<rparr>"

definition requireToPassMessage ::
  "chain \<Rightarrow> nat \<Rightarrow> nat \<Rightarrow> byte list \<Rightarrow> nat \<Rightarrow> amb \<Rightarrow> (amb \<times> amb_event) option"
where
  "requireToPassMessage C sender receiver data gasLimit s =
     require (gasLimit \<le> maxGasPerTx s)
     (let n = amb_nonce s;
          message = encode_message \<lparr>msg_nonce = n, msg_sender = sender, msg_receiver = receiver, msg_gasLimit = gasLimit, msg_data = data\<rparr>;
          msgHash = keccak256 C message in
      require (n + 1 < 2 ^ 256)
      (Some (s\<lparr>sentMessages := (sentMessages s)(n := msgHash), amb_nonce := n + 1\<rparr>, SentMessage msgHash n message)))"

subsection \<open>The proof checks\<close>

text \<open>\<^verbatim>\<open>executeMessage\<close>: the storage root of the slot, from the cache or proved now.\<close>

definition proved_storage_root ::
  "chain \<Rightarrow> u256 \<Rightarrow> hash list \<Rightarrow> byte list list \<Rightarrow> amb \<Rightarrow> hash option"
where
  "proved_storage_root C sourceSlot stateRootProof accountProof s =
     require (stateRoot_verified (keccak256 C) (state_root C sourceSlot) stateRootProof accountProof)
     (case readProof (object C) (keccak256 C) (of_nat (be_nat (Bytes (otherSideImage s)))) accountProof of
        None \<Rightarrow> None
      | Some accountRLP \<Rightarrow>
          (let m = object C accountRLP in
           case toList m (toRlpItem accountRLP) of
             None \<Rightarrow> None
           | Some ls \<Rightarrow>
               require (length ls = 4)
               (map_option (\<lambda>v. Hash (be_bytes 32 v)) (toUint m (ls ! 2)))))"

text \<open>\<^verbatim>\<open>executeMessage\<close>: the hash of the message in the storage of the other side.\<close>

definition storage_has_message ::
  "chain \<Rightarrow> hash \<Rightarrow> nat \<Rightarrow> byte list list \<Rightarrow> hash \<Rightarrow> bool"
where
  "storage_has_message C storage_root nonce storageProof msgHash \<longleftrightarrow>
     storageProof \<noteq> [] \<and> storage_root = keccak256 C (storageProof ! 0) \<and>
     (case readProof (object C) (keccak256 C)
         (of_nat (be_nat (Bytes (keccak256 C (Bytes (message_slot (keccak256 C) nonce)))))) storageProof of
        None \<Rightarrow> False
      | Some slotValue \<Rightarrow>
          (case toUint (object C slotValue) (toRlpItem slotValue) of
             None \<Rightarrow> False
           | Some v \<Rightarrow> Hash (be_bytes 32 v) = msgHash))"

text \<open>The part of \<^verbatim>\<open>executeMessage\<close> before the call: the new state, the events, the message.\<close>

definition check_storage ::
  "chain \<Rightarrow> u256 \<Rightarrow> byte list \<Rightarrow> hash list \<Rightarrow> byte list list \<Rightarrow> byte list list \<Rightarrow> amb \<Rightarrow>
   (amb \<times> amb_event list \<times> hash \<times> message) option"
where
  "check_storage C sourceSlot message stateRootProof accountProof storageProof s =
     (let msgHash = keccak256 C message in
      require (executionStatus s msgHash = NOT_EXECUTED)
      (case (if storageRoot s sourceSlot = zero_hash
             then map_option (\<lambda>r. (r, s\<lparr>storageRoot := (storageRoot s)(sourceSlot := r)\<rparr>, [VerifiedStorageRoot sourceSlot r]))
                    (proved_storage_root C sourceSlot stateRootProof accountProof s)
             else Some (storageRoot s sourceSlot, s, [])) of
         None \<Rightarrow> None
       | Some (r, s', evs) \<Rightarrow>
           (case decode_message message of
              None \<Rightarrow> None
            | Some m \<Rightarrow>
                require (storage_has_message C r (msg_nonce m) storageProof msgHash)
                (require (messageId s' = EMPTY_MESSAGE_ID) (Some (s', evs, msgHash, m))))))"

text \<open>\<^verbatim>\<open>executeMessageFromLog\<close>: the log in a receipt.\<close>

definition SENT_MESSAGE_EVENT :: "chain \<Rightarrow> hash" where
  "SENT_MESSAGE_EVENT C = keccak256 C (map of_char ''SentMessage(bytes32,uint256,bytes)'')"

definition log_matches :: "chain \<Rightarrow> memory \<Rightarrow> RLPItem \<Rightarrow> nat \<Rightarrow> hash \<Rightarrow> bool" where
  "log_matches C m item otherSide msgHash \<longleftrightarrow>
     (case toList m item of
        None \<Rightarrow> False
      | Some ls \<Rightarrow>
          length ls = 3 \<and> toAddress m (ls ! 0) = Some otherSide \<and>
          (case toList m (ls ! 1) of
             None \<Rightarrow> False
           | Some rlpTopics \<Rightarrow>
               length rlpTopics = 3 \<and>
               map_option (\<lambda>v. Hash (be_bytes 32 v)) (toUintStrict m (rlpTopics ! 0)) = Some (SENT_MESSAGE_EVENT C) \<and>
               map_option (\<lambda>v. Hash (be_bytes 32 v)) (toUintStrict m (rlpTopics ! 1)) = Some msgHash))"

text \<open>A receipt is an RLP list, or has a type byte before one.\<close>

definition receipt_item :: "memory \<Rightarrow> byte list \<Rightarrow> RLPItem option" where
  "receipt_item m receiptRLP =
     (let item = toRlpItem receiptRLP in
      if rlp_isList m item then Some item
      else if ri_len item = 0 then None
      else Some \<lparr>ri_len = ri_len item - 1, ri_memPtr = ri_memPtr item + 1\<rparr>)"

definition receipt_has_log :: "chain \<Rightarrow> byte list \<Rightarrow> nat \<Rightarrow> nat \<Rightarrow> hash \<Rightarrow> bool" where
  "receipt_has_log C receiptRLP logIndex otherSide msgHash \<longleftrightarrow>
     (let m = object C receiptRLP in
      case receipt_item m receiptRLP of
        None \<Rightarrow> False
      | Some item \<Rightarrow>
          (case toList m item of
             None \<Rightarrow> False
           | Some ls \<Rightarrow>
               length ls = 4 \<and>
               (case toList m (ls ! 3) of
                  None \<Rightarrow> False
                | Some logs \<Rightarrow> logIndex < length logs \<and> log_matches C m (logs ! logIndex) otherSide msgHash)))"

definition log_proved :: "chain \<Rightarrow> u256 \<Rightarrow> nat \<Rightarrow> byte list list \<Rightarrow> nat \<Rightarrow> hash \<Rightarrow> bool" where
  "log_proved C txIndex logIndex receiptProof otherSide msgHash \<longleftrightarrow>
     (case readProof (object C) (keccak256 C) (rlpIndex txIndex) receiptProof of
        None \<Rightarrow> False
      | Some receiptRLP \<Rightarrow> receipt_has_log C receiptRLP logIndex otherSide msgHash)"

text \<open>The part of \<^verbatim>\<open>executeMessageFromLog\<close> before the call.\<close>

definition check_log ::
  "chain \<Rightarrow> u256 \<Rightarrow> u256 \<Rightarrow> u256 \<Rightarrow> nat \<Rightarrow> byte list \<Rightarrow> hash list \<Rightarrow> byte list list \<Rightarrow> amb \<Rightarrow> (hash \<times> message) option"
where
  "check_log C sourceSlot targetSlot txIndex logIndex message receiptsRootProof receiptProof s =
     (let msgHash = keccak256 C message in
      require (executionStatus s msgHash = NOT_EXECUTED)
      (require (receiptsRoot_verified (keccak256 C) (state_root C sourceSlot) sourceSlot targetSlot receiptsRootProof receiptProof)
      (require (log_proved C txIndex logIndex receiptProof (otherSideAMB s) msgHash)
      (case decode_message message of
         None \<Rightarrow> None
       | Some m \<Rightarrow> require (messageId s = EMPTY_MESSAGE_ID) (Some (msgHash, m))))))"

end
