(* ===== verification/Amb_Runs.thy ===== *)
theory Amb_Runs
  imports Amb_Contract
begin

section \<open>Histories of the bridge contract\<close>

text \<open>
  A message is executed by a call of its receiver, which may call back into the contract: into
  \<^verbatim>\<open>requireToPassMessage\<close>, into \<^verbatim>\<open>initialize\<close>, which nothing guards, and into the two functions that execute messages. The relation below has the transactions
  that do not revert, with the events they emit, and inside them the calls that the receiver makes; the events and
  effects of a receiver that fails are undone. The light client contract and the memory may be any at every
  transaction, the hash function is fixed.
\<close>

definition begin_call :: "hash \<Rightarrow> message \<Rightarrow> amb \<Rightarrow> amb" where
  "begin_call h m s = s\<lparr>messageId := h, messageSender := msg_sender m\<rparr>"

definition end_call :: "hash \<Rightarrow> bool \<Rightarrow> amb \<Rightarrow> amb" where
  "end_call h status s =
     s\<lparr>messageId := EMPTY_MESSAGE_ID, messageSender := EMPTY_ADDRESS,
       executionStatus := (executionStatus s)(h := if status then EXECUTION_SUCCEEDED else EXECUTION_FAILED)\<rparr>"

inductive amb_tx :: "(byte list \<Rightarrow> hash) \<Rightarrow> amb \<Rightarrow> amb_event list \<Rightarrow> amb \<Rightarrow> bool"
  and amb_call :: "(byte list \<Rightarrow> hash) \<Rightarrow> amb \<Rightarrow> bool \<Rightarrow> amb_event list \<Rightarrow> amb \<Rightarrow> bool"
  and amb_txs :: "(byte list \<Rightarrow> hash) \<Rightarrow> amb \<Rightarrow> amb_event list \<Rightarrow> amb \<Rightarrow> bool"
  for K
where
  initialize: "keccak256 C = K \<Longrightarrow> amb_tx K s [Initialized] (amb_initialize C newMaxGasPerTx newOtherSideAMB s)"
| pass_message: "keccak256 C = K \<Longrightarrow> requireToPassMessage C sender receiver data gasLimit s = Some (s', e) \<Longrightarrow> amb_tx K s [e] s'"
| from_storage: "keccak256 C = K \<Longrightarrow> check_storage C slot message rootProof accountProof storageProof s = Some (s1, evs, h, m) \<Longrightarrow>
    amb_call K (begin_call h m s1) status es s2 \<Longrightarrow>
    amb_tx K s (evs @ es @ [ExecutedMessage h (msg_nonce m) message status]) (end_call h status s2)"
| from_log: "keccak256 C = K \<Longrightarrow> check_log C slot target txIndex logIndex message rootProof receiptProof s = Some (h, m) \<Longrightarrow>
    amb_call K (begin_call h m s) status es s2 \<Longrightarrow>
    amb_tx K s (es @ [ExecutedMessage h (msg_nonce m) message status]) (end_call h status s2)"
| call_returns: "amb_txs K s es s' \<Longrightarrow> amb_call K s True es s'"
| call_fails: "amb_call K s False [] s"
| no_tx: "amb_txs K s [] s"
| more_txs: "amb_txs K s es s' \<Longrightarrow> amb_tx K s' fs s'' \<Longrightarrow> amb_txs K s (es @ fs) s''"

inductive_cases amb_callE: "amb_call K s status es s'"

fun executed :: "amb_event list \<Rightarrow> hash list" where
  "executed [] = []"
| "executed (ExecutedMessage h n m status # evs) = h # executed evs"
| "executed (_ # evs) = executed evs"

fun sent :: "amb_event list \<Rightarrow> nat list" where
  "sent [] = []"
| "sent (SentMessage h n m # evs) = n # sent evs"
| "sent (_ # evs) = sent evs"

lemma executed_append [simp]: "executed (xs @ ys) = executed xs @ executed ys"
  by (induction xs rule: executed.induct) auto

lemma sent_append [simp]: "sent (xs @ ys) = sent xs @ sent ys"
  by (induction xs rule: sent.induct) auto

lemma executed_ExecutedMessage: "h \<in> set (executed evs) \<Longrightarrow> \<exists>n m ok. ExecutedMessage h n m ok \<in> set evs"
  by (induction evs rule: executed.induct) auto

lemma ExecutedMessage_executed: "ExecutedMessage h n m ok \<in> set evs \<Longrightarrow> h \<in> set (executed evs)"
  by (induction evs rule: executed.induct) auto

subsection \<open>What a transaction does\<close>

lemma requireToPassMessage_Some:
  "requireToPassMessage C sender receiver data gasLimit s = Some (s', e) \<longleftrightarrow>
     gasLimit \<le> maxGasPerTx s \<and> amb_nonce s + 1 < 2 ^ 256 \<and>
     (\<exists>message. message = encode_message \<lparr>msg_nonce = amb_nonce s, msg_sender = sender, msg_receiver = receiver,
        msg_gasLimit = gasLimit, msg_data = data\<rparr> \<and> e = SentMessage (keccak256 C message) (amb_nonce s) message
      \<and> s' = s\<lparr>sentMessages := (sentMessages s)(amb_nonce s := keccak256 C message), amb_nonce := amb_nonce s + 1\<rparr>)"
  by (auto simp: requireToPassMessage_def Let_def)

lemma check_storage_Some:
  assumes "check_storage C slot message rootProof accountProof storageProof s = Some (s1, evs, h, m)"
  shows "h = keccak256 C message" "executionStatus s h = NOT_EXECUTED" "messageId s = EMPTY_MESSAGE_ID"
    and "s1 = s\<lparr>storageRoot := (storageRoot s)(slot := storageRoot s1 slot)\<rparr>"
    and "evs = (if storageRoot s slot = zero_hash then [VerifiedStorageRoot slot (storageRoot s1 slot)] else [])"
    and "storageRoot s slot \<noteq> zero_hash \<Longrightarrow> s1 = s"
  using assms by (auto simp: check_storage_def Let_def split: option.splits if_splits)

lemma check_log_Some:
  assumes "check_log C slot target txIndex logIndex message rootProof receiptProof s = Some (h, m)"
  shows "h = keccak256 C message" "executionStatus s h = NOT_EXECUTED" "messageId s = EMPTY_MESSAGE_ID"
  using assms by (auto simp: check_log_def Let_def split: option.splits)

text \<open>The state apart from what sending messages changes.\<close>

definition same_but_sent :: "amb \<Rightarrow> amb \<Rightarrow> bool" where
  "same_but_sent s s' \<longleftrightarrow> (\<exists>f n. s' = s\<lparr>sentMessages := f, amb_nonce := n\<rparr>)"

text \<open>While a message is executed, transactions of the receiver only send messages.\<close>

lemma nested_tx:
  assumes "amb_tx K s evs s'" and "messageId s \<noteq> EMPTY_MESSAGE_ID" and "Initialized \<notin> set evs"
  shows "\<exists>C sender receiver data gasLimit e. keccak256 C = K \<and> evs = [e]
    \<and> requireToPassMessage C sender receiver data gasLimit s = Some (s', e)"
  using assms(1)
proof (cases rule: amb_tx.cases)
  case initialize
  then show ?thesis using assms(3) by simp
next
  case pass_message
  then show ?thesis by blast
next
  case from_storage
  then show ?thesis using assms(2) check_storage_Some(3) by blast
next
  case from_log
  then show ?thesis using assms(2) check_log_Some(3) by blast
qed

text \<open>The effect of sending: consecutive nonces, and under each nonce the hash of its message.\<close>

definition sends :: "(byte list \<Rightarrow> hash) \<Rightarrow> amb \<Rightarrow> amb_event list \<Rightarrow> amb \<Rightarrow> bool" where
  "sends K s evs s' \<longleftrightarrow>
     same_but_sent s s' \<and> executed evs = [] \<and> amb_nonce s \<le> amb_nonce s' \<and> sent evs = [amb_nonce s ..< amb_nonce s'] \<and>
     (\<forall>n < amb_nonce s. sentMessages s' n = sentMessages s n) \<and>
     (\<forall>h n m. SentMessage h n m \<in> set evs \<longrightarrow> h = K m \<and> sentMessages s' n = h) \<and>
     (\<forall>e \<in> set evs. \<exists>h n m. e = SentMessage h n m)"

lemma same_but_sent_refl: "same_but_sent s s"
  unfolding same_but_sent_def by (intro exI [of _ "sentMessages s"] exI [of _ "amb_nonce s"]) simp

lemma same_but_sent_trans: "same_but_sent s s' \<Longrightarrow> same_but_sent s' s'' \<Longrightarrow> same_but_sent s s''"
  unfolding same_but_sent_def by (elim exE) (simp, blast)

lemma sends_refl: "sends K s [] s"
  by (simp add: sends_def same_but_sent_refl)

lemma pass_sends: "requireToPassMessage C sender receiver data gasLimit s = Some (s', e) \<Longrightarrow> sends (keccak256 C) s [e] s'"
  by (auto simp: requireToPassMessage_Some sends_def same_but_sent_def)

lemma SentMessage_sent: "SentMessage h n m \<in> set evs \<Longrightarrow> n \<in> set (sent evs)"
  by (induction evs rule: sent.induct) auto

lemma sends_trans:
  assumes "sends K s es s'" and "sends K s' fs s''"
  shows "sends K s (es @ fs) s''"
proof -
  have "n < amb_nonce s'" if "SentMessage h n m \<in> set es" for h n m
    using SentMessage_sent [OF that] assms(1) by (simp add: sends_def)
  moreover have "same_but_sent s s''" using assms same_but_sent_trans by (simp add: sends_def) blast
  moreover have "[amb_nonce s ..< amb_nonce s'] @ [amb_nonce s' ..< amb_nonce s''] = [amb_nonce s ..< amb_nonce s'']"
    using assms by (metis le_Suc_ex sends_def upt_add_eq_append)
  ultimately show ?thesis using assms unfolding sends_def by (auto dest: less_le_trans)
qed

lemma nested_txs: "amb_txs K s es s' \<Longrightarrow> messageId s \<noteq> EMPTY_MESSAGE_ID \<Longrightarrow> Initialized \<notin> set es \<Longrightarrow> sends K s es s'"
proof (induction rule: amb_tx_amb_call_amb_txs.inducts(3) [where ?P1.0 = "\<lambda>_ _ _. True" and ?P2.0 = "\<lambda>_ _ _ _. True"])
  case (more_txs s es s' fs s'')
  then have s: "sends K s es s'" by simp
  then have "messageId s' = messageId s" by (auto simp: sends_def same_but_sent_def)
  moreover have "amb_tx K s' fs s''" using more_txs by blast
  moreover have "Initialized \<notin> set fs" using more_txs.prems by simp
  ultimately have "sends K s' fs s''" using nested_tx pass_sends more_txs.prems(1) by metis
  then show ?case by (rule sends_trans [OF s])
qed (simp_all add: sends_refl)

lemma nested_call: "amb_call K s status es s' \<Longrightarrow> messageId s \<noteq> EMPTY_MESSAGE_ID \<Longrightarrow> Initialized \<notin> set es \<Longrightarrow> sends K s es s'"
  by (auto elim!: amb_callE intro: nested_txs sends_refl)

subsection \<open>The invariant\<close>

text \<open>What a history, by its events, has made of the state \<open>s0\<close> it began in.\<close>

definition amb_inv :: "(byte list \<Rightarrow> hash) \<Rightarrow> amb \<Rightarrow> amb_event list \<Rightarrow> amb \<Rightarrow> bool" where
  "amb_inv K s0 evs s \<longleftrightarrow>
     messageId s = EMPTY_MESSAGE_ID \<and> distinct (executed evs) \<and>
     (\<forall>h. h \<in> set (executed evs) \<longrightarrow> executionStatus s0 h = NOT_EXECUTED) \<and>
     (\<forall>h. h \<notin> set (executed evs) \<longrightarrow> executionStatus s h = executionStatus s0 h) \<and>
     (\<forall>h n m ok. ExecutedMessage h n m ok \<in> set evs \<longrightarrow>
        h = K m \<and> executionStatus s h = (if ok then EXECUTION_SUCCEEDED else EXECUTION_FAILED)) \<and>
     amb_nonce s0 \<le> amb_nonce s \<and> sent evs = [amb_nonce s0 ..< amb_nonce s] \<and>
     (\<forall>n < amb_nonce s0. sentMessages s n = sentMessages s0 n) \<and>
     (\<forall>h n m. SentMessage h n m \<in> set evs \<longrightarrow> h = K m \<and> sentMessages s n = h) \<and>
     (\<forall>slot. storageRoot s0 slot \<noteq> zero_hash \<longrightarrow> storageRoot s slot = storageRoot s0 slot) \<and>
     (\<forall>slot r. VerifiedStorageRoot slot r \<in> set evs \<and> r \<noteq> zero_hash \<longrightarrow> storageRoot s slot = r) \<and>
     (\<forall>slot. storageRoot s slot = storageRoot s0 slot \<or> VerifiedStorageRoot slot (storageRoot s slot) \<in> set evs)"

lemma amb_inv_refl: "messageId s = EMPTY_MESSAGE_ID \<Longrightarrow> amb_inv K s [] s"
  by (simp add: amb_inv_def)

lemma inv_sends:
  assumes "amb_inv K s0 evs s" and "sends K s es s'"
  shows "amb_inv K s0 (evs @ es) s'"
proof -
  have less: "n < amb_nonce s" if "SentMessage h n m \<in> set evs" for h n m
    using SentMessage_sent [OF that] assms(1) by (simp add: amb_inv_def)
  have "amb_nonce s0 \<le> amb_nonce s" "amb_nonce s \<le> amb_nonce s'" using assms by (simp_all add: amb_inv_def sends_def)
  then have upt: "[amb_nonce s0 ..< amb_nonce s] @ [amb_nonce s ..< amb_nonce s'] = [amb_nonce s0 ..< amb_nonce s']"
    by (metis le_Suc_ex upt_add_eq_append)
  obtain f n where s': "s' = s\<lparr>sentMessages := f, amb_nonce := n\<rparr>"
    using assms(2) unfolding sends_def same_but_sent_def by blast
  have le: "n < amb_nonce s" if "n < amb_nonce s0" for n using that assms(1) by (simp add: amb_inv_def)
  show ?thesis using assms upt unfolding amb_inv_def sends_def by (auto simp: s' dest: less le)
qed

lemma inv_end:
  assumes "amb_inv K s0 evs (s\<lparr>messageId := EMPTY_MESSAGE_ID, messageSender := a\<rparr>)" and "h = K m"
    and "executionStatus s h = NOT_EXECUTED" and "h \<notin> set (executed evs)"
  shows "amb_inv K s0 (evs @ [ExecutedMessage h n m status]) (end_call h status s)"
  using assms ExecutedMessage_executed [of h _ _ _ evs] by (auto simp: amb_inv_def end_call_def)

text \<open>A message that is not marked as executed has not been executed.\<close>

lemma not_executed: "amb_inv K s0 evs s \<Longrightarrow> executionStatus s h = NOT_EXECUTED \<Longrightarrow> h \<notin> set (executed evs)"
proof
  assume inv: "amb_inv K s0 evs s" and no: "executionStatus s h = NOT_EXECUTED" and "h \<in> set (executed evs)"
  then obtain n m ok where "ExecutedMessage h n m ok \<in> set evs" using executed_ExecutedMessage by blast
  with inv no show False by (auto simp: amb_inv_def split: if_splits)
qed

lemma begin_end: "(begin_call h m s)\<lparr>messageId := i, messageSender := a\<rparr> = s\<lparr>messageId := i, messageSender := a\<rparr>"
  by (simp add: begin_call_def)

text \<open>The execution of a message, from the state after its proof was checked.\<close>

lemma inv_execution:
  assumes inv: "amb_inv K s0 evs s" and h: "h = K message" "executionStatus s h = NOT_EXECUTED" "h \<noteq> EMPTY_MESSAGE_ID"
    and call: "amb_call K (begin_call h m s) status es s2" "Initialized \<notin> set es"
  shows "amb_inv K s0 (evs @ es @ [ExecutedMessage h (msg_nonce m) message status]) (end_call h status s2)"
proof -
  have snd: "sends K (begin_call h m s) es s2" using nested_call [OF call(1) _ call(2)] h(3) by (simp add: begin_call_def)
  let ?idle = "\<lambda>s. s\<lparr>messageId := EMPTY_MESSAGE_ID, messageSender := EMPTY_ADDRESS\<rparr>"
  have "amb_inv K s0 evs (?idle s)" using inv by (simp add: amb_inv_def)
  moreover have "same_but_sent (?idle s) (?idle s2)"
  proof -
    obtain f n where "s2 = (begin_call h m s)\<lparr>sentMessages := f, amb_nonce := n\<rparr>"
      using snd by (auto simp: sends_def same_but_sent_def)
    then have "?idle s2 = (?idle s)\<lparr>sentMessages := f, amb_nonce := n\<rparr>" by (simp add: begin_call_def)
    then show ?thesis unfolding same_but_sent_def by blast
  qed
  then have "sends K (?idle s) es (?idle s2)" using snd by (simp add: sends_def begin_call_def)
  ultimately have idle: "amb_inv K s0 (evs @ es) (?idle s2)" by (rule inv_sends)
  have no: "executionStatus s2 h = NOT_EXECUTED" using snd h(2) by (auto simp: sends_def same_but_sent_def begin_call_def)
  then have "h \<notin> set (executed (evs @ es))" using not_executed [OF idle] by simp
  from inv_end [OF idle h(1) no this] show ?thesis by simp
qed

lemma inv_root:
  assumes "amb_inv K s0 evs s" and "storageRoot s slot = zero_hash"
  shows "amb_inv K s0 (evs @ [VerifiedStorageRoot slot r]) (s\<lparr>storageRoot := (storageRoot s)(slot := r)\<rparr>)"
  using assms unfolding amb_inv_def by auto

lemma inv_tx:
  assumes "amb_inv K s0 evs s" and "amb_tx K s fs s'" and "EMPTY_MESSAGE_ID \<notin> set (executed fs)" and "Initialized \<notin> set fs"
  shows "amb_inv K s0 (evs @ fs) s'"
  using assms(2)
proof (cases rule: amb_tx.cases)
  case initialize
  then show ?thesis using assms(4) by simp
next
  case (pass_message C sender receiver data gasLimit e)
  then show ?thesis using inv_sends [OF assms(1)] pass_sends by blast
next
  case (from_storage C slot message rootProof accountProof storageProof s1 es1 h m status es s2)
  note c = check_storage_Some [OF from_storage(4)]
  have "amb_inv K s0 (evs @ es1) s1"
  proof (cases "storageRoot s slot = zero_hash")
    case True
    then show ?thesis using inv_root [OF assms(1) True, of "storageRoot s1 slot"] c(4,5) by simp
  qed (use c(5,6) assms(1) in auto)
  moreover have "executionStatus s1 h = NOT_EXECUTED" using c(2) by (subst c(4)) simp
  ultimately show ?thesis
    using inv_execution [of K s0 "evs @ es1" s1 h message m status es s2] from_storage(3,5) assms(3,4) c(1)
    unfolding from_storage(1,2) by auto
next
  case (from_log C slot target txIndex logIndex message rootProof receiptProof h m status es s2)
  then show ?thesis
    using inv_execution [OF assms(1), of h message m status es s2] check_log_Some [OF from_log(4)] assms(3,4) by auto
qed

lemma inv_txs:
  "amb_txs K s evs s' \<Longrightarrow> amb_inv K s [] s \<Longrightarrow> EMPTY_MESSAGE_ID \<notin> set (executed evs) \<Longrightarrow> Initialized \<notin> set evs \<Longrightarrow> amb_inv K s evs s'"
proof (induction rule: amb_tx_amb_call_amb_txs.inducts(3) [where ?P1.0 = "\<lambda>_ _ _. True" and ?P2.0 = "\<lambda>_ _ _ _. True"])
  case (more_txs s es s' fs s'')
  moreover from this have "amb_tx K s' fs s''" by blast
  ultimately show ?case using inv_tx [of K s es s' fs s''] by simp
qed simp_all


subsection \<open>initialize is not guarded\<close>

text \<open>The receiver of a message calls \<^verbatim>\<open>initialize\<close> with the contract's own settings and submits the message again.\<close>

definition reopened :: "chain \<Rightarrow> hash \<Rightarrow> message \<Rightarrow> amb \<Rightarrow> amb" where
  "reopened C h m s = amb_initialize C (maxGasPerTx s) (otherSideAMB s) (begin_call h m s)"

lemma reopened_simps [simp]:
  "executionStatus (reopened C h m s) = executionStatus s" "storageRoot (reopened C h m s) = storageRoot s"
  "otherSideAMB (reopened C h m s) = otherSideAMB s" "messageId (reopened C h m s) = EMPTY_MESSAGE_ID"
  by (simp_all add: reopened_def amb_initialize_def begin_call_def)

lemma reopened_call:
  assumes "amb_tx (keccak256 C) (reopened C h m s) [ExecutedMessage h n message True] s'"
  shows "amb_call (keccak256 C) (begin_call h m s) True [Initialized, ExecutedMessage h n message True] s'"
proof -
  have "amb_tx (keccak256 C) (begin_call h m s) [Initialized] (reopened C h m s)"
    unfolding reopened_def by (rule initialize [OF refl])
  from call_returns [OF more_txs [OF more_txs [OF no_tx this] assms]] show ?thesis by simp
qed

lemma log_twice:
  assumes check: "check_log C source target txIndex logIndex message rootProof receiptProof s = Some (h, m)"
  shows "\<exists>evs s'. amb_tx (keccak256 C) s evs s' \<and> executed evs = [h, h]"
proof -
  have "check_log C source target txIndex logIndex message rootProof receiptProof (reopened C h m s) = Some (h, m)"
    using check by (auto simp: check_log_def Let_def split: option.splits)
  from from_log [OF refl this call_returns [OF no_tx]] from_log [OF refl check reopened_call]
  show ?thesis by (fastforce intro: exI)
qed

lemma storage_twice:
  assumes check: "check_storage C slot message rootProof accountProof storageProof s = Some (s1, evs, h, m)"
    and cached: "storageRoot s slot \<noteq> zero_hash"
  shows "\<exists>evs s'. amb_tx (keccak256 C) s evs s' \<and> executed evs = [h, h]"
proof -
  have s1: "s1 = s" "evs = []" using check_storage_Some(5,6) [OF check] cached by simp_all
  have "check_storage C slot message rootProof accountProof storageProof (reopened C h m s) = Some (reopened C h m s, [], h, m)"
    using check cached by (auto simp: check_storage_def Let_def split: option.splits)
  from from_storage [OF refl this call_returns [OF no_tx]] from_storage [OF refl check [unfolded s1] reopened_call]
  show ?thesis by (fastforce intro: exI)
qed

text \<open>C5. Anybody may call \<^verbatim>\<open>initialize\<close> at any time, also the receiver of a message during its execution. It takes the mark
  off that a message is in execution: a message that can be executed, from its log or against a storage root that is
  already verified, can be executed twice in one transaction. And whatever the state, after one such call the contract takes
  the caller's choice for the contract on the other side, with the messages sent and executed as they were.\<close>

theorem initialize_unguarded:
  "(check_log C source target txIndex logIndex message rootProof receiptProof s = Some (h, m)
    \<or> storageRoot s slot \<noteq> zero_hash \<and> check_storage C slot message rootProof accountProof storageProof s = Some (s1, es, h, m)
    \<longrightarrow> (\<exists>evs s'. amb_tx (keccak256 C) s evs s' \<and> executed evs = [h, h]))
   \<and> (\<exists>s'. amb_tx (keccak256 C) s [Initialized] s' \<and> otherSideAMB s' = attacker
        \<and> executionStatus s' = executionStatus s \<and> sentMessages s' = sentMessages s \<and> messageId s' = EMPTY_MESSAGE_ID)"
proof (intro conjI impI)
  show "\<exists>evs s'. amb_tx (keccak256 C) s evs s' \<and> executed evs = [h, h]"
    if "check_log C source target txIndex logIndex message rootProof receiptProof s = Some (h, m)
      \<or> storageRoot s slot \<noteq> zero_hash \<and> check_storage C slot message rootProof accountProof storageProof s = Some (s1, es, h, m)"
    using that by (elim disjE conjE) (erule log_twice, rule storage_twice)
  show "\<exists>s'. amb_tx (keccak256 C) s [Initialized] s' \<and> otherSideAMB s' = attacker
        \<and> executionStatus s' = executionStatus s \<and> sentMessages s' = sentMessages s \<and> messageId s' = EMPTY_MESSAGE_ID"
    by (intro exI [of _ "amb_initialize C (maxGasPerTx s) attacker s"] conjI initialize [OF refl]) (simp_all add: amb_initialize_def)
qed

end
