(* ===== verification/Amb_Proofs.thy ===== *)
theory Amb_Proofs
  imports Amb_Runs
begin

section \<open>What the bridge contract accepts\<close>

text \<open>
  The proof checks of the contract against the chain on the other side: receipts and accounts as Ethereum
  encodes them, in tries. Accepted means authentic (or a broken hash function), and what the oracle submits for an authentic
  message is accepted.
\<close>

subsection \<open>Receipts\<close>

definition log_rlp :: "Log \<Rightarrow> rlp" where
  "log_rlp l = Items [Str (lg_Address l), Items (map (\<lambda>h. Str (Bytes h)) (lg_Topics l)), Str (lg_Data l)]"

text \<open>The three fields before the logs (status, gas, bloom) are kept as bytes; receipts of typed transactions
  have the type before the list.\<close>

definition receipt_rlp :: "byte list list \<Rightarrow> Log list \<Rightarrow> rlp" where
  "receipt_rlp fs logs = Items (map Str fs @ [Items (map log_rlp logs)])"

definition receipt_encoding :: "byte list \<Rightarrow> byte list list \<Rightarrow> Log list \<Rightarrow> byte list" where
  "receipt_encoding ty fs logs = ty @ rlp_bytes (receipt_rlp fs logs)"

definition receipt_wf :: "byte list \<Rightarrow> byte list list \<Rightarrow> Log list \<Rightarrow> bool" where
  "receipt_wf ty fs logs \<longleftrightarrow>
     (ty = [] \<or> (\<exists>b. ty = [b] \<and> unat b < 0x80)) \<and> length fs = 3 \<and> rlp_ok (receipt_rlp fs logs) \<and>
     (\<forall>l \<in> set logs. length (lg_Address l) = 20)"

lemma log_matches_encoding:
  assumes h: "holds m p (rlp_bytes (log_rlp l))" and ok: "rlp_ok (log_rlp l)" and addr: "length (lg_Address l) = 20"
  shows "log_matches C m (item_of p (log_rlp l)) otherSide msgHash \<longleftrightarrow>
    be_nat (lg_Address l) = otherSide \<and> length (lg_Topics l) = 3 \<and>
    lg_Topics l ! 0 = SENT_MESSAGE_EVENT C \<and> lg_Topics l ! 1 = msgHash"
proof -
  let ?xs = "[Str (lg_Address l), Items (map (\<lambda>h. Str (Bytes h)) (lg_Topics l)), Str (lg_Data l)]"
  let ?ts = "map (\<lambda>h. Str (Bytes h)) (lg_Topics l)"
  obtain q where q: "toList m (item_of p (Items ?xs)) = Some (slots q ?xs)" "holds m q (concat (map rlp_bytes ?xs))"
    using toList_encoding [OF h [unfolded log_rlp_def] ok [unfolded log_rlp_def]] .
  obtain q0 where "slots q ?xs ! 0 = item_of q0 (Str (lg_Address l))" "holds m q0 (rlp_bytes (Str (lg_Address l)))"
    using slots_nth [OF _ q(2), of 0] by auto
  then have addr': "toAddress m (slots q ?xs ! 0) = Some (be_nat (lg_Address l))" using toAddress_encoding addr by metis
  obtain q1 where q1: "slots q ?xs ! 1 = item_of q1 (Items ?ts)" "holds m q1 (rlp_bytes (Items ?ts))"
    using slots_nth [OF _ q(2), of 1] by (auto simp del: rlp_bytes.simps)
  have "rlp_ok (Items ?ts)" using ok by (simp add: log_rlp_def)
  then obtain q2 where q2: "toList m (item_of q1 (Items ?ts)) = Some (slots q2 ?ts)" "holds m q2 (concat (map rlp_bytes ?ts))"
    using toList_encoding [OF q1(2)] by metis
  have topic: "map_option (\<lambda>v. Hash (be_bytes 32 v)) (toUintStrict m (slots q2 ?ts ! i)) = Some (lg_Topics l ! i)"
    if i: "i < length (lg_Topics l)" for i
  proof -
    obtain q' where "slots q2 ?ts ! i = item_of q' (?ts ! i)" "holds m q' (rlp_bytes (?ts ! i))"
      using slots_nth [OF _ q2(2), of i] i by (metis length_map)
    then show ?thesis using i toUintStrict_encoding [of m q' "Bytes (lg_Topics l ! i)"] by simp
  qed
  let ?topic = "\<lambda>i. map_option (\<lambda>v. Hash (be_bytes 32 v)) (toUintStrict m (slots q2 ?ts ! i))"
  have "log_matches C m (item_of p (log_rlp l)) otherSide msgHash \<longleftrightarrow>
    be_nat (lg_Address l) = otherSide \<and> length (lg_Topics l) = 3 \<and> ?topic 0 = Some (SENT_MESSAGE_EVENT C) \<and> ?topic 1 = Some msgHash"
    unfolding log_matches_def log_rlp_def q(1) option.case q1(1) q2(1) addr' by simp
  then show ?thesis using topic [of 0] topic [of 1] by (cases "length (lg_Topics l) = 3") (simp_all del: map_option_eq_Some)
qed

lemma receipt_item_encoding:
  assumes "alloc_ok alloc" and wf: "receipt_wf ty fs logs"
  obtains p where "receipt_item (alloc (receipt_encoding ty fs logs)) (receipt_encoding ty fs logs)
      = Some (item_of p (receipt_rlp fs logs))"
    and "holds (alloc (receipt_encoding ty fs logs)) p (rlp_bytes (receipt_rlp fs logs))"
proof -
  let ?r = "receipt_rlp fs logs" and ?e = "receipt_encoding ty fs logs"
  have h: "holds (alloc ?e) 0 (ty @ rlp_bytes ?r)" using assms(1) by (simp add: alloc_ok_def receipt_encoding_def)
  have ok: "rlp_ok ?r" and tys: "ty = [] \<or> (\<exists>b. ty = [b] \<and> unat b < 0x80)" using wf by (auto simp: receipt_wf_def)
  from tys show ?thesis
  proof
    assume t: "ty = []"
    then have "holds (alloc ?e) 0 (rlp_bytes ?r)" using h by simp
    then show ?thesis
      using that [of 0] t rlp_isList_encoding [of "alloc ?e" 0 ?r] ok
      by (simp add: receipt_item_def receipt_encoding_def toRlpItem_encoding receipt_rlp_def Let_def del: rlp_bytes.simps)
  next
    assume "\<exists>b. ty = [b] \<and> unat b < 0x80"
    then obtain b where t: "ty = [b]" "unat b < 0x80" by blast
    then have "holds (alloc ?e) 1 (rlp_bytes ?r)" "alloc ?e 0 = b" using h by (simp_all add: holds_Cons)
    then show ?thesis
      using that [of 1] t
      by (simp add: receipt_item_def rlp_isList_def receipt_encoding_def toRlpItem_def item_of_def Let_def del: rlp_bytes.simps)
  qed
qed

lemma receipt_has_log_encoding:
  assumes "alloc_ok (object C)" and wf: "receipt_wf ty fs logs"
  shows "receipt_has_log C (receipt_encoding ty fs logs) i otherSide msgHash \<longleftrightarrow>
    i < length logs \<and> be_nat (lg_Address (logs ! i)) = otherSide \<and> length (lg_Topics (logs ! i)) = 3 \<and>
    lg_Topics (logs ! i) ! 0 = SENT_MESSAGE_EVENT C \<and> lg_Topics (logs ! i) ! 1 = msgHash"
proof -
  let ?r = "receipt_rlp fs logs" and ?e = "receipt_encoding ty fs logs"
  let ?m = "object C ?e" and ?xs = "map Str fs @ [Items (map log_rlp logs)]"
  obtain p where p: "receipt_item ?m ?e = Some (item_of p ?r)" "holds ?m p (rlp_bytes ?r)"
    using receipt_item_encoding [OF assms] .
  have ok: "rlp_ok ?r" and len: "length fs = 3" using wf by (auto simp: receipt_wf_def)
  obtain q where q: "toList ?m (item_of p ?r) = Some (slots q ?xs)" "holds ?m q (concat (map rlp_bytes ?xs))"
    using toList_encoding [of ?m p ?xs] p(2) ok by (auto simp: receipt_rlp_def simp del: rlp_bytes.simps)
  obtain q3 where q3: "slots q ?xs ! 3 = item_of q3 (Items (map log_rlp logs))" "holds ?m q3 (rlp_bytes (Items (map log_rlp logs)))"
    using slots_nth [OF _ q(2), of 3] len by (auto simp: nth_append simp del: rlp_bytes.simps)
  have oks: "rlp_ok (Items (map log_rlp logs))" using ok by (simp add: receipt_rlp_def)
  then obtain q4 where q4: "toList ?m (item_of q3 (Items (map log_rlp logs))) = Some (slots q4 (map log_rlp logs))"
    "holds ?m q4 (concat (map rlp_bytes (map log_rlp logs)))"
    using toList_encoding [OF q3(2)] by metis
  have log: "log_matches C ?m (slots q4 (map log_rlp logs) ! i) otherSide msgHash \<longleftrightarrow>
      be_nat (lg_Address (logs ! i)) = otherSide \<and> length (lg_Topics (logs ! i)) = 3 \<and>
      lg_Topics (logs ! i) ! 0 = SENT_MESSAGE_EVENT C \<and> lg_Topics (logs ! i) ! 1 = msgHash" if i: "i < length logs"
  proof -
    obtain q' where "slots q4 (map log_rlp logs) ! i = item_of q' (log_rlp (logs ! i))" "holds ?m q' (rlp_bytes (log_rlp (logs ! i)))"
      using slots_nth [OF _ q4(2), of i] i by (auto simp del: rlp_bytes.simps)
    moreover have "rlp_ok (log_rlp (logs ! i))" "length (lg_Address (logs ! i)) = 20"
      using oks wf i by (auto simp: receipt_wf_def)
    ultimately show ?thesis using log_matches_encoding by metis
  qed
  show ?thesis
    using p(1) q(1) q3(1) q4(1) len log
    by (auto simp: receipt_has_log_def Let_def simp del: rlp_bytes.simps slots.simps)
qed

subsection \<open>An accepted log is a log of the other side\<close>

lemma restoreMerkleRoot_unique:
  assumes "restoreMerkleRoot a i ps = Some r" and "restoreMerkleRoot b i qs = Some r"
  shows "a = b \<or> (\<exists>c \<in> set (zip (climb_inputs (unat i) ps a) (climb_inputs (unat i) qs b)). sha_collision c)"
proof -
  have v: "unat i div 2 ^ length ps = 1" "unat i div 2 ^ length qs = 1"
    and r: "climb node_hash (unat i) ps a = r" "climb node_hash (unat i) qs b = r"
    using assms by (auto simp: restoreMerkleRoot_climb split: if_splits)
  have "length ps = length qs"
  proof (rule div_pow_eq_1_unique)
    have "int (unat i) div 2 ^ k = int (unat i div 2 ^ k)" for k by (simp only: of_nat_div of_nat_power of_nat_numeral)
    with v show "int (unat i) div 2 ^ length ps = 1" "int (unat i) div 2 ^ length qs = 1" by (metis of_nat_1)+
  qed
  then show ?thesis using climb_binding [of ps qs "unat i" a b] r by auto
qed

lemma check_log_parts:
  "check_log C source target txIndex logIndex message rootProof nodes s = Some (h, m) \<longleftrightarrow>
     h = keccak256 C message \<and> executionStatus s h = NOT_EXECUTED \<and> messageId s = EMPTY_MESSAGE_ID \<and>
     decode_message message = Some m \<and>
     receiptsRoot_verified (keccak256 C) (state_root C source) source target rootProof nodes \<and>
     log_proved C txIndex logIndex nodes (otherSideAMB s) h"
  by (auto simp: check_log_def Let_def split: option.splits)

text \<open>A log as the contract on the other side emits it for a message with this hash.\<close>

definition sent_log :: "chain \<Rightarrow> nat \<Rightarrow> hash \<Rightarrow> Log \<Rightarrow> bool" where
  "sent_log C sender h l \<longleftrightarrow>
     be_nat (lg_Address l) = sender \<and> length (lg_Topics l) = 3 \<and> lg_Topics l ! 0 = SENT_MESSAGE_EVENT C \<and> lg_Topics l ! 1 = h"

definition receipts_ok :: "trie \<Rightarrow> bool" where
  "receipts_ok t \<longleftrightarrow>
     (\<forall>ns v. lookup t ns = Some v \<longrightarrow> (\<exists>ty fs logs. receipt_wf ty fs logs \<and> v = receipt_encoding ty fs logs))"

text \<open>C6. Whoever submits it, and with whatever proofs: if the two proof checks of \<^verbatim>\<open>executeMessageFromLog\<close> pass, the
  branch to the receipts root and the walk to a log, then a receipt of the receipts trie that the light client's
  state root commits to has a log of the other side's contract with the hash of this message; or the proofs
  contain a collision of SHA-256 on the way to the receipts root, or of keccak256 with a node of the trie.\<close>

theorem log_authentic:
  assumes "alloc_ok (object C)"
    and "executeMessageFromLog_index source target = Some i" and "nodes \<noteq> []"
    and "restoreMerkleRoot (keccak256 C (nodes ! 0)) i rootProof = Some (state_root C source)"
    and "log_proved C txIndex logIndex nodes otherSide (keccak256 C message)"
    and "restoreMerkleRoot (keccak256 C (rlp_bytes (node_rlp (keccak256 C) t))) i honest = Some (state_root C source)"
    and "trie_ok (keccak256 C) t" and "receipts_ok t"
  shows "(\<exists>ns ty fs logs. lookup t ns = Some (receipt_encoding ty fs logs) \<and> logIndex < length logs
         \<and> sent_log C otherSide (keccak256 C message) (logs ! logIndex))
    \<or> forged (keccak256 C) nodes t
    \<or> (\<exists>c \<in> set (zip (climb_inputs (unat i) rootProof (keccak256 C (nodes ! 0)))
          (climb_inputs (unat i) honest (keccak256 C (rlp_bytes (node_rlp (keccak256 C) t))))). sha_collision c)"
proof -
  from assms(5) obtain receipt where r: "readProof (object C) (keccak256 C) (rlpIndex txIndex) nodes = Some receipt"
    "receipt_has_log C receipt logIndex otherSide (keccak256 C message)"
    by (auto simp: log_proved_def split: option.splits)
  show ?thesis
  proof (cases "keccak256 C (nodes ! 0) = keccak256 C (rlp_bytes (node_rlp (keccak256 C) t))")
    case False
    then show ?thesis using restoreMerkleRoot_unique [OF assms(4,6)] by blast
  next
    case True
    then have "forged (keccak256 C) nodes t \<or> (\<exists>ns. lookup t ns = Some receipt)"
      using readProof_accepted [OF assms(1,7) _ r(1)] assms(3) by (auto simp: hd_conv_nth)
    moreover have "\<exists>ty fs logs. lookup t ns = Some (receipt_encoding ty fs logs) \<and> logIndex < length logs
         \<and> sent_log C otherSide (keccak256 C message) (logs ! logIndex)" if ns: "lookup t ns = Some receipt" for ns
    proof -
      obtain ty fs logs where v: "receipt_wf ty fs logs" "receipt = receipt_encoding ty fs logs"
        using assms(8) ns unfolding receipts_ok_def by metis
      then show ?thesis using r(2) ns receipt_has_log_encoding [OF assms(1) v(1)] by (auto simp: sent_log_def)
    qed
    ultimately show ?thesis by blast
  qed
qed

subsection \<open>What the contract sends, it can decode\<close>

lemma abi_word_field: "length xs = k \<Longrightarrow> v < 2 ^ 256 \<Longrightarrow> abi_word (xs @ be_bytes 32 v @ zs) k = v"
  by (simp add: abi_word_def be_nat_be_bytes)

definition message_ok :: "message \<Rightarrow> bool" where
  "message_ok m \<longleftrightarrow> msg_nonce m < 2 ^ 256 \<and> msg_sender m < 2 ^ 160 \<and> msg_receiver m < 2 ^ 160 \<and> msg_gasLimit m < 2 ^ 256
     \<and> length (msg_data m) < 2 ^ 64"

lemma be_nat_word: "v < 2 ^ 256 \<Longrightarrow> be_nat (be_bytes 32 v) = v"
  by (simp add: be_nat_be_bytes)

lemma decode_encode_message:
  assumes "message_ok m"
  shows "decode_message (encode_message m) = Some m"
proof -
  let ?n = "be_bytes 32 (msg_nonce m)" and ?s = "be_bytes 32 (msg_sender m)" and ?r = "be_bytes 32 (msg_receiver m)"
  let ?g = "be_bytes 32 (msg_gasLimit m)" and ?o = "be_bytes 32 160" and ?l = "be_bytes 32 (length (msg_data m))"
  let ?d = "msg_data m @ replicate ((32 - length (msg_data m) mod 32) mod 32) 0"
  let ?e = "encode_message m"
  have e: "?e = ?n @ ?s @ ?r @ ?g @ ?o @ ?l @ ?d" by (simp add: encode_message_def)
  have lt: "msg_nonce m < 2 ^ 256" "msg_sender m < 2 ^ 256" "msg_receiver m < 2 ^ 256" "msg_gasLimit m < 2 ^ 256"
    "length (msg_data m) < 2 ^ 256"
    using assms by (simp_all add: message_ok_def)
  have "abi_word ?e 0 = msg_nonce m" unfolding e by (rule abi_word_field [of "[]", simplified]) (use lt in simp_all)
  moreover have "abi_word ?e 32 = msg_sender m" unfolding e by (rule abi_word_field) (use lt in simp_all)
  moreover have "abi_word ?e 64 = msg_receiver m"
    unfolding e by (rule abi_word_field [of "?n @ ?s", unfolded append_assoc]) (use lt in simp_all)
  moreover have "abi_word ?e 96 = msg_gasLimit m"
    unfolding e by (rule abi_word_field [of "?n @ ?s @ ?r", unfolded append_assoc]) (use lt in simp_all)
  moreover have "abi_word ?e 128 = 160"
    unfolding e by (rule abi_word_field [of "?n @ ?s @ ?r @ ?g", unfolded append_assoc]) simp_all
  moreover have "abi_word ?e 160 = length (msg_data m)"
    unfolding e by (rule abi_word_field [of "?n @ ?s @ ?r @ ?g @ ?o", unfolded append_assoc]) (use lt in simp_all)
  ultimately have w: "abi_word ?e 0 = msg_nonce m" "abi_word ?e 32 = msg_sender m" "abi_word ?e 64 = msg_receiver m"
    "abi_word ?e 96 = msg_gasLimit m" "abi_word ?e 128 = 160" "abi_word ?e 160 = length (msg_data m)" by blast+
  have "take (length (msg_data m)) (drop 192 ?e) = msg_data m" by (simp add: e)
  moreover have "192 + length (msg_data m) \<le> length ?e" by (simp add: e)
  ultimately show ?thesis
    using assms by (simp add: decode_message_def w Let_def message_ok_def require_def)
qed

lemma requireToPassMessage_decodes:
  assumes "requireToPassMessage C sender receiver data gasLimit s = Some (s', SentMessage h n message)"
    and "sender < 2 ^ 160" and "receiver < 2 ^ 160" and "length data < 2 ^ 64" and "maxGasPerTx s < 2 ^ 256"
  shows "h = keccak256 C message" and "n = amb_nonce s"
    and "decode_message message = Some \<lparr>msg_nonce = n, msg_sender = sender, msg_receiver = receiver, msg_gasLimit = gasLimit, msg_data = data\<rparr>"
proof -
  have "message = encode_message \<lparr>msg_nonce = n, msg_sender = sender, msg_receiver = receiver, msg_gasLimit = gasLimit, msg_data = data\<rparr>"
    and "n < 2 ^ 256" "gasLimit < 2 ^ 256" and h: "h = keccak256 C message" "n = amb_nonce s"
    using assms(1,5) by (auto simp: requireToPassMessage_Some)
  then show "h = keccak256 C message" "n = amb_nonce s"
    "decode_message message = Some \<lparr>msg_nonce = n, msg_sender = sender, msg_receiver = receiver, msg_gasLimit = gasLimit, msg_data = data\<rparr>"
    using assms(2-4) decode_encode_message by (simp_all add: message_ok_def)
qed

subsection \<open>What execute\_log submits is executed\<close>

text \<open>The log of an event as nodes serve it.\<close>

definition event_log :: "chain \<Rightarrow> nat \<Rightarrow> amb_event \<Rightarrow> Log \<Rightarrow> bool" where
  "event_log C sender e l \<longleftrightarrow>
     (\<exists>h n message. e = SentMessage h n message \<and> be_nat (lg_Address l) = sender
      \<and> lg_Topics l = [SENT_MESSAGE_EVENT C, h, Hash (be_bytes 32 n)] \<and> lg_Data l = abi_bytes message)"

text \<open>
  What the source node serves for the block of a log, and what the documentation of go-ethereum says of it: the
  receipts of the block in order; the logs of a receipt numbered consecutively, the log at position \<open>k\<close>
  of its receipt; the binary encoding of a receipt; and the trie of the receipts, \<open>t\<close>, with the nodes on the path to a key.
\<close>

definition log_served ::
  "('w, 'tx, 'key, 'trie) amb_env \<Rightarrow> ('w, 'tx) eth1 \<Rightarrow> Log \<Rightarrow> 'w \<Rightarrow> 'w \<Rightarrow> nat \<Rightarrow> trie \<Rightarrow> bool"
where
  "log_served V E l w w' k t \<longleftrightarrow>
     (\<exists>txs w1 rs vals ty fs.
        let i = unat (lg_TxIndex l); logs = rc_Logs (rs ! i); key = rlp_uint (lg_TxIndex l) in
        BlockByHash E (lg_BlockHash l) w = (Inr txs, w1) \<and> fetched E txs w1 rs w' \<and> map_go (am_MarshalReceipt V) rs = Inr vals
      \<and> i < length rs \<and> i < 2 ^ 16 \<and> k < length logs \<and> length logs < 2 ^ 63 \<and> logs ! k = l
      \<and> (\<forall>j < length logs. lg_Index (logs ! j) = lg_Index (logs ! 0) + of_nat j)
      \<and> receipt_wf ty fs logs \<and> vals ! i = receipt_encoding ty fs logs
      \<and> lookup t (key_nibbles key) = Some (vals ! i)
      \<and> (\<forall>kvs. am_ProveTrie V (receipts_trie V 0 vals (am_NewTrie V)) key = Inr kvs \<longrightarrow>
           map snd kvs = trie_proof (am_Keccak V) t (key_nibbles key)))"

lemma fetched_unique: "fetched E hs w rs w' \<Longrightarrow> fetched E hs w rs' w'' \<Longrightarrow> rs' = rs \<and> w'' = w'"
proof (induction E hs w rs w' arbitrary: rs' rule: fetched.induct)
  case (3 E h hs w r rs w')
  from 3(3) obtain r' rs'' where r: "rs' = r' # rs''" by (cases rs') auto
  from 3(2,3) r obtain w1 where "fetched E hs w1 rs w'" "fetched E hs w1 rs'' w''" "r' = r" by auto
  with 3(1) r show ?case by auto
qed (case_tac rs'; auto)+

lemma trie_proof_root: "trie_proof K t ns \<noteq> [] \<and> trie_proof K t ns ! 0 = rlp_bytes (node_rlp K t)"
  by (cases "(K, t, ns)" rule: trie_proof.cases) auto

lemma int64_nat: "unat v < 2 ^ 63 \<Longrightarrow> int64 v = int (unat v)"
  using sint_small [of v] by (simp add: int64_def)

text \<open>The receipt proof that the program builds, and what the contract reads with it.\<close>

lemma log_served_proof:
  assumes "receipt_proof V E l w = (Inr (logIndex, nodes), w')" and "log_served V E l w w'' k t"
    and "AppendUint64_doc (am_AppendUint64 V)"
  shows "logIndex = int k" and "nodes = trie_proof (am_Keccak V) t (key_nibbles (rlp_uint (lg_TxIndex l)))"
    and "\<exists>ty fs logs. receipt_wf ty fs logs \<and> k < length logs \<and> logs ! k = l
      \<and> lookup t (key_nibbles (rlp_uint (lg_TxIndex l))) = Some (receipt_encoding ty fs logs)"
    and "unat (lg_TxIndex l) < 2 ^ 16"
proof -
  let ?i = "unat (lg_TxIndex l)" and ?key = "rlp_uint (lg_TxIndex l)"
  from assms(2) obtain txs w1 rs vals ty fs where b: "BlockByHash E (lg_BlockHash l) w = (Inr txs, w1)" "fetched E txs w1 rs w''"
    "map_go (am_MarshalReceipt V) rs = Inr vals" and i: "?i < length rs" "?i < 2 ^ 16"
    and k: "k < length (rc_Logs (rs ! ?i))" "length (rc_Logs (rs ! ?i)) < 2 ^ 63" "rc_Logs (rs ! ?i) ! k = l"
      "\<forall>j < length (rc_Logs (rs ! ?i)). lg_Index (rc_Logs (rs ! ?i) ! j) = lg_Index (rc_Logs (rs ! ?i) ! 0) + of_nat j"
    and v: "receipt_wf ty fs (rc_Logs (rs ! ?i))" "vals ! ?i = receipt_encoding ty fs (rc_Logs (rs ! ?i))"
      "lookup t (key_nibbles ?key) = Some (vals ! ?i)"
      "\<forall>kvs. am_ProveTrie V (receipts_trie V 0 vals (am_NewTrie V)) ?key = Inr kvs \<longrightarrow>
         map snd kvs = trie_proof (am_Keccak V) t (key_nibbles ?key)"
    unfolding log_served_def Let_def by blast
  from receipt_proof_message [OF assms(1)] obtain txs' w1' rs' vals' kvs
    where r: "BlockByHash E (lg_BlockHash l) w = (Inr txs', w1')" "fetched E txs' w1' rs' w'" "map_go (am_MarshalReceipt V) rs' = Inr vals'"
      "am_ProveTrie V (receipts_trie V 0 vals' (am_NewTrie V)) (am_AppendUint64 V [] (lg_TxIndex l)) = Inr kvs" "nodes = map snd kvs"
      "\<forall>i k logs. i < length rs' \<and> int i = int64 (lg_TxIndex l) \<and> logs = rc_Logs (rs' ! i)
         \<and> k < length logs \<and> logs ! k = l \<and> length logs < 2 ^ 63
         \<and> (\<forall>j < length logs. lg_Index (logs ! j) = lg_Index (logs ! 0) + of_nat j) \<longrightarrow> logIndex = int k"
    by blast
  have "txs' = txs" "w1' = w1" using b(1) r(1) by simp_all
  then have "rs' = rs" using fetched_unique [OF b(2)] r(2) by blast
  then have "vals' = vals" using b(3) r(3) by simp
  with r \<open>rs' = rs\<close> have m: "nodes = map snd kvs"
    "am_ProveTrie V (receipts_trie V 0 vals (am_NewTrie V)) (am_AppendUint64 V [] (lg_TxIndex l)) = Inr kvs"
    "\<forall>i k logs. i < length rs \<and> int i = int64 (lg_TxIndex l) \<and> logs = rc_Logs (rs ! i)
         \<and> k < length logs \<and> logs ! k = l \<and> length logs < 2 ^ 63
         \<and> (\<forall>j < length logs. lg_Index (logs ! j) = lg_Index (logs ! 0) + of_nat j) \<longrightarrow> logIndex = int k"
    by simp_all
  have "unat (lg_TxIndex l) < 2 ^ 63" using i(2) by simp
  then have "int ?i = int64 (lg_TxIndex l)" by (rule int64_nat [symmetric])
  with m(3) i(1) k show "logIndex = int k" by blast
  have "am_AppendUint64 V [] (lg_TxIndex l) = ?key" using assms(3) by (simp add: AppendUint64_doc_def)
  then show "nodes = trie_proof (am_Keccak V) t (key_nibbles ?key)" using m(1,2) v(4) by simp
  show "\<exists>ty fs logs. receipt_wf ty fs logs \<and> k < length logs \<and> logs ! k = l
      \<and> lookup t (key_nibbles ?key) = Some (receipt_encoding ty fs logs)"
    using v k by metis
  show "?i < 2 ^ 16" by (rule i)
qed


subsection \<open>A message in the storage of the other side\<close>

definition account_rlp :: "byte list \<Rightarrow> byte list \<Rightarrow> hash \<Rightarrow> byte list \<Rightarrow> rlp" where
  "account_rlp nonce balance root code = Items [Str nonce, Str balance, Str (Bytes root), Str code]"

text \<open>A storage word: the RLP encoding of its bytes without leading zeros.\<close>

definition word_rlp :: "hash \<Rightarrow> rlp" where
  "word_rlp x = (let n = be_nat (Bytes x) in Str (be_bytes (byte_length n) n))"

lemma account_root_encoding:
  assumes "alloc_ok alloc" and "rlp_ok (account_rlp nonce balance root code)"
  shows "case toList (alloc (rlp_bytes (account_rlp nonce balance root code))) (toRlpItem (rlp_bytes (account_rlp nonce balance root code))) of
      None \<Rightarrow> False
    | Some ls \<Rightarrow> length ls = 4 \<and> toUint (alloc (rlp_bytes (account_rlp nonce balance root code))) (ls ! 2) = Some (be_nat (Bytes root))"
proof -
  let ?xs = "[Str nonce, Str balance, Str (Bytes root), Str code]" and ?m = "alloc (rlp_bytes (account_rlp nonce balance root code))"
  have "holds ?m 0 (rlp_bytes (Items ?xs))" using assms(1) by (simp add: alloc_ok_def account_rlp_def)
  then obtain q where q: "toList ?m (item_of 0 (Items ?xs)) = Some (slots q ?xs)" "holds ?m q (concat (map rlp_bytes ?xs))"
    using toList_encoding assms(2) unfolding account_rlp_def by metis
  obtain q2 where q2: "slots q ?xs ! 2 = item_of q2 (Str (Bytes root))" "holds ?m q2 (rlp_bytes (Str (Bytes root)))"
    using slots_nth [OF _ q(2), of 2] by (auto simp del: rlp_bytes.simps)
  have "length (rlp_bytes (Str (Bytes root))) = 33" by (simp add: single_byte_def rlp_prefix_def)
  then have "toUint ?m (slots q ?xs ! 2) = Some (be_nat (Bytes root))"
    using toUint_encoding [OF q2(2)] unfolding q2(1) by (simp add: payload_def del: rlp_bytes.simps)
  then show ?thesis using q(1) by (simp add: toRlpItem_encoding account_rlp_def del: rlp_bytes.simps slots.simps)
qed

lemma word_encoding:
  assumes "alloc_ok alloc"
  shows "toUint (alloc (rlp_bytes (word_rlp x))) (toRlpItem (rlp_bytes (word_rlp x))) = Some (be_nat (Bytes x))"
proof -
  let ?n = "be_nat (Bytes x)"
  have "?n < 256 ^ 32" using be_nat_less [of "Bytes x"] by simp
  then have len: "byte_length ?n \<le> 32" by (rule byte_length_le)
  have w: "word_rlp x = Str (be_bytes (byte_length ?n) ?n)" by (simp add: word_rlp_def Let_def)
  have short: "length (rlp_bytes (Str bs)) \<le> 33" if "length bs \<le> 32" for bs using that by (simp add: rlp_prefix_def)
  have "length (rlp_bytes (word_rlp x)) \<le> 33" unfolding w by (rule short) (use len in simp)
  moreover have "payload (word_rlp x) = be_bytes (byte_length ?n) ?n" by (simp add: w payload_def)
  moreover have "rlp_ok (word_rlp x)" using len unfolding w by simp
  moreover have "holds (alloc (rlp_bytes (word_rlp x))) 0 (rlp_bytes (word_rlp x))" using assms by (simp add: alloc_ok_def)
  ultimately show ?thesis using toUint_encoding [of _ 0 "word_rlp x"] len by (simp add: toRlpItem_encoding)
qed

lemma word_rlp_inject: "rlp_bytes (word_rlp x) = rlp_bytes (word_rlp y) \<longleftrightarrow> x = y"
proof
  assume "rlp_bytes (word_rlp x) = rlp_bytes (word_rlp y)"
  then have "be_nat (Bytes x) = be_nat (Bytes y)"
    using word_encoding [OF sample_alloc_ok, of x] word_encoding [OF sample_alloc_ok, of y] by simp
  then have "Bytes x = Bytes y" by (intro be_nat_inject) simp_all
  then show "x = y" by (simp add: Bytes_eq_iff)
qed simp

definition hash_key :: "hash \<Rightarrow> nat list" where
  "hash_key h = key_nibbles (Bytes h)"

definition message_key :: "(byte list \<Rightarrow> hash) \<Rightarrow> nat \<Rightarrow> nat list" where
  "message_key K nonce = hash_key (K (Bytes (message_slot K nonce)))"

text \<open>A storage trie has storage words; the account at a key has the root of such a trie.\<close>

definition words_ok :: "trie \<Rightarrow> bool" where
  "words_ok t \<longleftrightarrow> (\<forall>ns v. lookup t ns = Some v \<longrightarrow> (\<exists>x. v = rlp_bytes (word_rlp x)))"

definition account_ok :: "(byte list \<Rightarrow> hash) \<Rightarrow> trie \<Rightarrow> hash \<Rightarrow> trie \<Rightarrow> bool" where
  "account_ok K accounts owner storage \<longleftrightarrow>
     (\<exists>nonce balance code. let r = account_rlp nonce balance (K (rlp_bytes (node_rlp K storage))) code in
        rlp_ok r \<and> lookup accounts (hash_key owner) = Some (rlp_bytes r))"

lemma check_storage_parts:
  assumes "check_storage C slot message rootProof accountProof storageProof s = Some (s1, evs, h, m)"
  shows "h = keccak256 C message" and "decode_message message = Some m"
    and "storage_has_message C (storageRoot s1 slot) (msg_nonce m) storageProof h"
    and "storageRoot s slot = zero_hash \<and> proved_storage_root C slot rootProof accountProof s = Some (storageRoot s1 slot)
      \<or> storageRoot s slot \<noteq> zero_hash \<and> storageRoot s1 slot = storageRoot s slot"
  using assms by (auto simp: check_storage_def Let_def split: option.splits if_splits)


subsection \<open>What execute\_storage submits is executed\<close>

text \<open>
  What the documentation says of \<^verbatim>\<open>eth\_getProof\<close> for the contract's account and the message's key: the nodes on the
  path to the account, and to the key in its storage, in the tries of the block.
\<close>

definition proof_served ::
  "('w, 'tx, 'key, 'trie) amb_env \<Rightarrow> flags \<Rightarrow> nat list \<Rightarrow> (int \<Rightarrow> trie) \<Rightarrow> (int \<Rightarrow> trie) \<Rightarrow> bool"
where
  "proof_served V fl owner accounts storage \<longleftrightarrow>
     (\<forall>block w p w'. let K = am_Keccak V; nonce = nat (flags.msgNonce fl) in
        am_GetProof V (am_HexToAddress V (sourceAMB fl)) [HashString (am_Lib V) (message_slot K nonce)] block w = (Inr p, w') \<longrightarrow>
        map (FromHex (am_Lib V)) (ar_AccountProof p) = trie_proof K (accounts block) owner \<and>
        (\<forall>sp. index (ar_StorageProof p) 0 = Inr sp \<longrightarrow>
           map (FromHex (am_Lib V)) sp = trie_proof K (storage block) (message_key K nonce)))"

lemma storage_has_message_served:
  assumes "alloc_ok (object C)" and "trie_ok (keccak256 C) storage"
    and "lookup storage (message_key (keccak256 C) n) = Some (rlp_bytes (word_rlp h))"
  shows "storage_has_message C (keccak256 C (rlp_bytes (node_rlp (keccak256 C) storage))) n
    (trie_proof (keccak256 C) storage (message_key (keccak256 C) n)) h"
proof -
  have "readProof (object C) (keccak256 C) (of_nat (be_nat (Bytes (keccak256 C (Bytes (message_slot (keccak256 C) n))))))
      (trie_proof (keccak256 C) storage (message_key (keccak256 C) n)) = Some (rlp_bytes (word_rlp h))"
    using readProof_served [OF assms] agrees_hash_key by (simp add: message_key_def hash_key_def)
  then show ?thesis
    using trie_proof_root [of "keccak256 C" storage] word_encoding [OF assms(1)] by (simp add: storage_has_message_def)
qed

lemma proved_storage_root_served:
  assumes "alloc_ok (object C)" and "trie_ok (keccak256 C) accounts"
    and "account_ok (keccak256 C) accounts (otherSideImage s) storage"
    and "stateRoot_verified (keccak256 C) (state_root C slot) branch (trie_proof (keccak256 C) accounts (hash_key (otherSideImage s)))"
  shows "proved_storage_root C slot branch (trie_proof (keccak256 C) accounts (hash_key (otherSideImage s))) s
    = Some (keccak256 C (rlp_bytes (node_rlp (keccak256 C) storage)))"
proof -
  let ?root = "keccak256 C (rlp_bytes (node_rlp (keccak256 C) storage))"
  obtain nonce balance code where a: "rlp_ok (account_rlp nonce balance ?root code)"
    "lookup accounts (hash_key (otherSideImage s)) = Some (rlp_bytes (account_rlp nonce balance ?root code))"
    using assms(3) by (auto simp: account_ok_def Let_def)
  have "readProof (object C) (keccak256 C) (of_nat (be_nat (Bytes (otherSideImage s))))
      (trie_proof (keccak256 C) accounts (hash_key (otherSideImage s))) = Some (rlp_bytes (account_rlp nonce balance ?root code))"
    using readProof_served [OF assms(1,2) a(2)] agrees_hash_key by (simp add: hash_key_def)
  then show ?thesis
    using assms(4) account_root_encoding [OF assms(1) a(1)]
    by (auto simp: proved_storage_root_def require_def Let_def split: option.splits)
qed

lemma storage_find_message_Inr:
  assumes "storage_find_message V fl lc E E' w = (Inr (msg, s, n, t), w')"
  shows "\<exists>l w1 b. storage_FindSentMessageLog (am_BigToHash V) (am_AMBABI V) E (am_HexToAddress V (sourceAMB fl)) (flags.msgNonce fl) w = (Inr l, w1)
    \<and> message_of (lg_Data l) = Inr msg \<and> GetBlock (Client lc) (FormatUint s) = Inr b \<and> payload_number b = Inr n"
  using assms by (auto simp: storage_find_message_def bind_io_eq_Inr map_res_eq bind_eq_Inr fatal_err_eq_Inr split: if_splits)

lemma check_storage_run:
  assumes "executionStatus s (keccak256 C message) = NOT_EXECUTED" and "messageId s = EMPTY_MESSAGE_ID"
    and "decode_message message = Some m" and "storage_has_message C r (msg_nonce m) storageProof (keccak256 C message)"
    and "storageRoot s slot = r \<and> r \<noteq> zero_hash \<or> storageRoot s slot = zero_hash \<and> proved_storage_root C slot branch accountProof s = Some r"
  shows "\<exists>s1 evs. check_storage C slot message branch accountProof storageProof s = Some (s1, evs, keccak256 C message, m)"
  using assms by (auto simp: check_storage_def Let_def require_def)

text \<open>C3. From one chain to the other, for a message proved by its storage slot: what \<^verbatim>\<open>execute\_storage\<close> submits for a message that the
  source chain's bridge contract has accepted for sending is accepted by the bridge contract of the target chain and decodes
  to what was sent, as long as the target has not executed it. The slot it proves is one whose storage root the
  target has verified before; or it is the slot that the light client is synced to, whose state root the light client holds,
  and the account in that state is proved too. The nodes serve the proofs of the block at that slot, and its storage
  has the message's hash.\<close>

theorem execute_storage_delivered:
  assumes "requireToPassMessage C sender receiver mdata gasLimit sa = Some (sa', e)"
    and "sender < 2 ^ 160" and "receiver < 2 ^ 160" and "length mdata < 2 ^ 61" and "maxGasPerTx sa < 2 ^ 256"
    and "\<forall>w l w'. storage_FindSentMessageLog (am_BigToHash V) (am_AMBABI V) sourceClient (am_HexToAddress V (sourceAMB fl))
           (flags.msgNonce fl) w = (Inr l, w') \<longrightarrow> event_log C otherSide e l"
    and "flags.msgNonce fl = int (amb_nonce sa)" and "flags.msgNonce fl < 2 ^ 63"
    and "storage_find_message V fl lc sourceClient targetClient w = (Inr (msg, slot, n, target), w1)"
    and "execute_storage_data V fl lc sourceClient targetClient w = (Inr data, w')"
    and "BytesToHash_doc (am_Lib V)" and "PadTo_doc (am_Lib V)" and "ssz_doc (am_Lib V)" and "BigToHash_doc (am_BigToHash V)"
    and "keccak256 C = am_Keccak V" and "alloc_ok (object C)"
    and "proof_served V fl (hash_key (otherSideImage sb)) accounts storage"
    and "messageId sb = EMPTY_MESSAGE_ID"
  shows "\<exists>message proofSlot branch accountProof storageProof b block.
      e = SentMessage (keccak256 C message) (amb_nonce sa) message
    \<and> storage_proofs V fl lc targetClient slot n target w1 = (Inr (proofSlot, branch, accountProof, storageProof), w')
    \<and> Pack (am_AMBABI V) ''executeMessage''
         [BigInt proofSlot, ByteArg message, Hashes branch, ByteLists accountProof, ByteLists storageProof] = Inr data
    \<and> GetBlock (Client lc) (FormatUint (of_int proofSlot)) = Inr b \<and> payload_number b = Inr block
    \<and> (let K = keccak256 C; accountTrie = accounts (int64 block); storageTrie = storage (int64 block);
           accountsRoot = K (rlp_bytes (node_rlp K accountTrie)); root = K (rlp_bytes (node_rlp K storageTrie)); at = of_int proofSlot in
       executionStatus sb (K message) = NOT_EXECUTED \<and> trie_ok K accountTrie \<and> trie_ok K storageTrie
       \<and> lookup storageTrie (message_key K (amb_nonce sa)) = Some (rlp_bytes (word_rlp (K message)))
       \<and> (storageRoot sb at = root \<and> root \<noteq> zero_hash
          \<or> storageRoot sb at = zero_hash \<and> proofSlot = int64 slot \<and> accountProof \<noteq> []
            \<and> account_ok K accountTrie (otherSideImage sb) storageTrie
            \<and> (\<exists>st tr. GetBeaconState (am_Lib V) lc slot = Inr (st, tr) \<and> MerkleTree_Hash tr = Inr (state_root C at)
                \<and> payload_sizes (st_LatestExecutionPayloadHeader st) \<and> state_root C at \<noteq> zero_hash
                \<and> accountsRoot = BytesToHash (am_Lib V) (ep_StateRoot (st_LatestExecutionPayloadHeader st))))
       \<longrightarrow> (\<exists>s1 evs. check_storage C at message branch accountProof storageProof sb =
              Some (s1, evs, K message, \<lparr>msg_nonce = amb_nonce sa, msg_sender = sender, msg_receiver = receiver,
                msg_gasLimit = gasLimit, msg_data = mdata\<rparr>)))"
proof -
  let ?K = "am_Keccak V" and ?n = "amb_nonce sa"
  let ?m = "\<lparr>msg_nonce = ?n, msg_sender = sender, msg_receiver = receiver, msg_gasLimit = gasLimit, msg_data = mdata\<rparr>"
  let ?message = "encode_message ?m" and ?key = "HashString (am_Lib V) (message_slot ?K ?n)"
  let ?root = "\<lambda>t. ?K (rlp_bytes (node_rlp ?K t))" and ?addr = "am_HexToAddress V (sourceAMB fl)"
  have e: "e = SentMessage (?K ?message) ?n ?message" and m: "message_ok ?m"
    using assms(1-5,15) by (auto simp: requireToPassMessage_Some message_ok_def)
  have "length ?message < 2 ^ 62" using assms(4) by (simp add: encode_message_def)
  then have "message_of (abi_bytes ?message) = Inr ?message" by (rule message_of_abi_bytes)
  moreover obtain l w2 b where found: "storage_FindSentMessageLog (am_BigToHash V) (am_AMBABI V) sourceClient ?addr (flags.msgNonce fl) w = (Inr l, w2)"
    "message_of (lg_Data l) = Inr msg" and b: "GetBlock (Client lc) (FormatUint slot) = Inr b" "payload_number b = Inr n"
    using storage_find_message_Inr [OF assms(9)] by blast
  moreover have "event_log C otherSide e l" using assms(6) found(1) by blast
  ultimately have msg: "msg = ?message" using e by (auto simp: event_log_def)
  obtain proofSlot branch accountProof storageProof where run:
    "storage_proofs V fl lc targetClient slot n target w1 = (Inr (proofSlot, branch, accountProof, storageProof), w')"
    "Pack (am_AMBABI V) ''executeMessage''
       [BigInt proofSlot, ByteArg ?message, Hashes branch, ByteLists accountProof, ByteLists storageProof] = Inr data"
    using assms(9,10) by (auto simp: execute_storage_data_def bind_io_eq_Inr msg split: prod.splits)
  have key: "storage_key V (flags.msgNonce fl) = ?key"
    using storage_key_slot [OF assms(14)] assms(7,8) by simp
  have served: "map (FromHex (am_Lib V)) (ar_AccountProof p) = trie_proof ?K (accounts i) (hash_key (otherSideImage sb))"
    "index (ar_StorageProof p) 0 = Inr sp \<Longrightarrow> map (FromHex (am_Lib V)) sp = trie_proof ?K (storage i) (message_key ?K ?n)"
    if "am_GetProof V ?addr [?key] i v = (Inr p, v')" for i p v v' sp
    using assms(17) that unfolding proof_served_def Let_def assms(7) nat_int by blast+
  have accept: "\<exists>s1 evs. check_storage C at ?message branch accountProof storageProof sb = Some (s1, evs, ?K ?message, ?m)"
    if "executionStatus sb (?K ?message) = NOT_EXECUTED" "trie_ok ?K st" "storageProof = trie_proof ?K st (message_key ?K ?n)"
      "lookup st (message_key ?K ?n) = Some (rlp_bytes (word_rlp (?K ?message)))"
      "storageRoot sb at = ?root st \<and> ?root st \<noteq> zero_hash
       \<or> storageRoot sb at = zero_hash \<and> proved_storage_root C at branch accountProof sb = Some (?root st)" for at st
    using check_storage_run [of sb C ?message ?m "?root st" storageProof at branch accountProof]
      storage_has_message_served [OF assms(16), of st ?n "?K ?message"] that decode_encode_message [OF m] assms(15,18) by simp
  consider (cached) b' nb where "GetBlock (Client lc) (FormatUint (of_int proofSlot)) = Inr b'" "payload_number b' = Inr nb"
      "storageProof = trie_proof ?K (storage (int64 nb)) (message_key ?K ?n)" "accountProof = []"
    | (synced) "proofSlot = int64 slot" "storageProof = trie_proof ?K (storage (int64 n)) (message_key ?K ?n)"
      "accountProof = trie_proof ?K (accounts (int64 n)) (hash_key (otherSideImage sb))"
      "MakeExecutionPayloadStateRootProof (am_Lib V) lc slot = Inr branch"
    using storage_proofs_Inr [OF run(1)] served unfolding key transformProof_def by metis
  then show ?thesis
  proof cases
    case cached
    show ?thesis
      by (rule exI [of _ ?message], rule exI [of _ proofSlot], rule exI [of _ branch], rule exI [of _ accountProof],
          rule exI [of _ storageProof], rule exI [of _ b'], rule exI [of _ nb])
        (use e run cached(1,2,4) accept [OF _ _ cached(3)] assms(15) in \<open>auto simp: Let_def\<close>)
  next
    case synced
    have slot: "of_int (int64 slot) = slot" by (simp add: int64_def)
    have proved: "proved_storage_root C at branch accountProof sb = Some (?root st)"
      if "trie_ok ?K (accounts (int64 n))" "account_ok ?K (accounts (int64 n)) (otherSideImage sb) st"
        "GetBeaconState (am_Lib V) lc slot = Inr (bs, tr)" "MerkleTree_Hash tr = Inr (state_root C at)"
        "payload_sizes (st_LatestExecutionPayloadHeader bs)" "state_root C at \<noteq> zero_hash"
        "?root (accounts (int64 n)) = BytesToHash (am_Lib V) (ep_StateRoot (st_LatestExecutionPayloadHeader bs))" for at st bs tr
      using proved_storage_root_served [OF assms(16), of "accounts (int64 n)" sb st at branch] that
        state_root_branch [OF assms(11-13) that(3,5)] synced(3,4) trie_proof_root [of ?K "accounts (int64 n)"] assms(15)
      by (auto simp: stateRoot_verified_def)
    show ?thesis
      by (rule exI [of _ ?message], rule exI [of _ proofSlot], rule exI [of _ branch], rule exI [of _ accountProof],
          rule exI [of _ storageProof], rule exI [of _ b], rule exI [of _ n])
        (use e run b slot synced(1) accept [OF _ _ synced(2)] proved assms(15) in \<open>auto simp: Let_def\<close>)
  qed
qed

end
