(* ===== verification/Amb_Samples.thy ===== *)
theory Amb_Samples
  imports Command_Samples Amb_Proofs
begin

section \<open>The bridge commands on a sample chain\<close>

text \<open>
  A source chain whose only message is in a block of one transaction, found from slot 0 on, a target chain
  whose light client is synced to slot 5, and libraries that do what their documentation says: the instances at
  which the theorems on the bridge commands are applied. And the requests that both programs spell out: the two
  copies agree.
\<close>

lemma same_requests:
  "storage_GetSyncedSlot = GetSyncedSlot" "storage_FindSentMessageLog = FindSentMessageLog"
  by (simp_all add: fun_eq_iff storage_GetSyncedSlot_def GetSyncedSlot_def storage_FindSentMessageLog_def FindSentMessageLog_def)

text \<open>The message, and the contracts on both sides; the hash function is constant.\<close>

definition bridge_message :: message where
  "bridge_message = \<lparr>msg_nonce = 3, msg_sender = 5, msg_receiver = 6, msg_gasLimit = 100, msg_data = [1, 2, 3]\<rparr>"

definition const_chain :: "hash \<Rightarrow> (u256 \<Rightarrow> hash) \<Rightarrow> chain" where
  "const_chain r f = \<lparr>keccak256 = \<lambda>_. r, object = sample_alloc, state_root = f\<rparr>"

definition source_amb :: amb where
  "source_amb = (amb_initialize (const_chain zero_hash (\<lambda>_. zero_hash)) 1000 9 amb_fresh)\<lparr>amb_nonce := 3\<rparr>"

definition target_amb :: "hash \<Rightarrow> amb" where
  "target_amb r = amb_initialize (const_chain r (\<lambda>_. zero_hash)) 1000 (be_nat (replicate 20 7)) amb_fresh"

definition bridge_log :: "hash \<Rightarrow> Log" where
  "bridge_log r =
     \<lparr>lg_Address = replicate 20 7, lg_Topics = [r, r, Hash (be_bytes 32 3)], lg_Data = abi_bytes (encode_message bridge_message),
      lg_BlockNumber = 5, lg_BlockHash = zero_hash, lg_TxIndex = 0, lg_Index = 4\<rparr>"

definition bridge_receipt :: "hash \<Rightarrow> Receipt" where
  "bridge_receipt r = (sample_receipt 1)\<lparr>rc_Logs := [bridge_log r]\<rparr>"

definition bridge_eth1 :: "hash \<Rightarrow> (nat, DynamicFeeTx) eth1" where
  "bridge_eth1 r = (sample_eth1 True 1)
     \<lparr>FilterLogs := \<lambda>_ topics w. (Inr (if length topics = 3 then [bridge_log r] else []), w),
      BlockByHash := \<lambda>_ w. (Inr [zero_hash], w), TransactionReceipt := \<lambda>_ w. (Inr (bridge_receipt r), w)\<rparr>"

text \<open>The tries: receipts, accounts and the storage of the source's contract, each of one value.\<close>

definition bridge_value :: "hash \<Rightarrow> byte list" where
  "bridge_value r = receipt_encoding [2] [[1], [5], []] [bridge_log r]"

definition bridge_receipts :: "byte list \<Rightarrow> trie" where
  "bridge_receipts v = Leaf (key_nibbles [0x80]) v"

definition bridge_accounts :: "hash \<Rightarrow> trie" where
  "bridge_accounts r = Leaf (hash_key r) (rlp_bytes (account_rlp [1] [] r [0]))"

definition bridge_storage :: "hash \<Rightarrow> trie" where
  "bridge_storage r = Leaf (hash_key r) (rlp_bytes (word_rlp r))"

definition bridge_hex :: "byte list \<Rightarrow> string" where
  "bridge_hex bs = map (char_of \<circ> unat) bs"

text \<open>A codec that keeps of every argument one byte: the number or the length.\<close>

fun arg_byte :: "unit abi_arg \<Rightarrow> byte" where
  "arg_byte (BigInt n) = of_int n"
| "arg_byte (ByteArg bs) = of_nat (length bs)"
| "arg_byte (Hashes hs) = of_nat (length hs)"
| "arg_byte (ByteLists bss) = of_nat (length bss)"
| "arg_byte (Struct u) = 0"

definition bridge_abi :: "unit abi" where
  "bridge_abi =
     \<lparr>EventByID = \<lambda>_. Inl (Err (Msg ''no event'')), EventID = \<lambda>_. zero_hash,
      UnpackIntoMap = \<lambda>_ m _. Inr m, ParseTopicsIntoMap = \<lambda>m _ _. Inr m, Pack = \<lambda>_ as. Inr (map arg_byte as)\<rparr>"

definition bridge_env :: "hash \<Rightarrow> (nat, DynamicFeeTx, unit, (byte list \<times> byte list) list) amb_env" where
  "bridge_env r =
     \<lparr>am_Lib = doc_lib, am_Http = transport (silent_node 404), am_Codecs = decoders (silent_node 404),
      am_Dial = \<lambda>_. Inr (bridge_eth1 r),
      am_GetProof = \<lambda>_ _ _ w. (Inr
        \<lparr>ar_AccountProof = map bridge_hex (trie_proof (\<lambda>_. r) (bridge_accounts r) (hash_key r)),
         ar_StorageProof = [map bridge_hex (trie_proof (\<lambda>_. r) (bridge_storage r) (hash_key r))]\<rparr>, w),
      am_Wallet = sample_wallet, am_HexToAddress = \<lambda>_. [], am_BigToHash = \<lambda>n. Hash (be_bytes 32 (nat n)),
      am_Big = \<lambda>h. int (be_nat (Bytes h)), am_Keccak = \<lambda>_. r,
      am_AppendUint64 = \<lambda>bs v. bs @ rlp_uint v, am_MarshalReceipt = \<lambda>_. Inr (bridge_value r), am_NewTrie = [],
      am_UpdateTrie = \<lambda>t k v. t @ [(k, v)],
      am_ProveTrie = \<lambda>t k. Inr (map (Pair []) (trie_proof (\<lambda>_. r) (bridge_receipts (snd (hd t))) (key_nibbles k))),
      am_AMBABI = bridge_abi, am_LightABI = bridge_abi\<rparr>"

definition bridge_flags :: flags where
  "bridge_flags =
     \<lparr>sourceBeaconRPC = [], sourceRPC = [], targetRPC = [], sourceAMB = [], targetAMB = [], targetLC = [], msgNonce = 3,
      keystore = [], keystorePass = []\<rparr>"

definition bridge_client :: "(u64 \<Rightarrow> hash) \<Rightarrow> LightClient" where
  "bridge_client f = (sample_client f)\<lparr>Client := (Client (sample_client f))\<lparr>GetBlock := \<lambda>_. Inr (number_block 0 9)\<rparr>\<rparr>"

lemma bridge_hex [simp]: "FromHex doc_lib (bridge_hex bs) = bs"
proof -
  have "(of_char (char_of (unat b)) :: byte) = b" for b :: byte
  proof -
    have "(of_char (char_of (unat b)) :: byte) = of_nat (of_char (char_of (unat b)))" by (simp only: of_nat_of_char)
    also have "\<dots> = of_nat (unat b mod 256)" by (simp only: of_char_of)
    also have "unat b mod 256 = unat b" using unsigned_less [of b, where 'a = nat] by simp
    finally show ?thesis by simp
  qed
  then show ?thesis by (simp add: doc_lib_def bridge_hex_def comp_def)
qed

lemma bridge_simps [simp]:
  "am_Lib (bridge_env r) = doc_lib" "am_AMBABI (bridge_env r) = bridge_abi" "am_LightABI (bridge_env r) = bridge_abi"
  "am_BigToHash (bridge_env r) n = Hash (be_bytes 32 (nat n))" "Pack bridge_abi f as = Inr (map arg_byte as)"
  "am_MarshalReceipt (bridge_env r) rc = Inr (bridge_value r)" "am_NewTrie (bridge_env r) = []"
  "am_ProveTrie (bridge_env r) t k = Inr (map (Pair []) (trie_proof (\<lambda>_. r) (bridge_receipts (snd (hd t))) (key_nibbles k)))"
  "am_UpdateTrie (bridge_env r) t k v = t @ [(k, v)]" "am_AppendUint64 (bridge_env r) bs x = bs @ rlp_uint x"
  "am_GetProof (bridge_env r) a ks b w = (Inr
     \<lparr>ar_AccountProof = map bridge_hex (trie_proof (\<lambda>_. r) (bridge_accounts r) (hash_key r)),
      ar_StorageProof = [map bridge_hex (trie_proof (\<lambda>_. r) (bridge_storage r) (hash_key r))]\<rparr>, w)"
  "am_Keccak (bridge_env r) = (\<lambda>_. r)"
  "FilterLogs (bridge_eth1 r) addrs topics w = (Inr (if length topics = 3 then [bridge_log r] else []), w)"
  "BlockByHash (bridge_eth1 r) h w = (Inr [zero_hash], w)" "TransactionReceipt (bridge_eth1 r) h w = (Inr (bridge_receipt r), w)"
  "CallContract (bridge_eth1 r) m w = (Inr (replicate 31 0 @ [5]), w)" "flags.msgNonce bridge_flags = 3"
  by (simp_all add: bridge_env_def bridge_eth1_def bridge_abi_def bridge_flags_def sample_eth1_def)

lemma const_chain_simps [simp]:
  "keccak256 (const_chain r f) = (\<lambda>_. r)" "object (const_chain r f) = sample_alloc" "state_root (const_chain r f) = f"
  by (simp_all add: const_chain_def)

lemma length_bridge_message [simp]: "length (encode_message bridge_message) = 224"
  by (simp add: encode_message_def bridge_message_def)

lemma bridge_client_simps [simp]:
  "GetBlock (Client (bridge_client f)) i = Inr (number_block 0 9)" "Spec (bridge_client f) = sample_spec"
  "GetBeaconState doc_lib (bridge_client f) s = GetBeaconState doc_lib (sample_client f) s"
  by (simp_all add: bridge_client_def sample_client_def GetBeaconState_def state_fields_def)

lemma bridge_search: "FindBeaconBlockByExecutionBlockNumber (bridge_client f) 5 = Inr 0"
proof -
  have "bisect_loop g 5 0 0 = Some (Inr 0)" for g by (subst bisect_loop.simps) simp
  then show ?thesis
    using FindBeaconBlock_bisect [of "bridge_client f" "number_block 0 9" 9 5]
    by (simp add: small_node_simps sample_spec_def)
qed

lemma bridge_synced: "GetSyncedSlot bridge_abi (bridge_eth1 r) a w = (Inr 5, w)"
proof -
  have "subslice (replicate 31 0 @ [5]) 24 32 = Inr (replicate 7 0 @ [5 :: byte])" by code_simp
  moreover have "get_uint64_be (replicate 7 0 @ [5]) = Inr 5" by code_simp
  ultimately show ?thesis by (simp add: GetSyncedSlot_def bind_io_def map_res_def)
qed

lemma bridge_log_found:
  "FindSentMessageLog g bridge_abi (bridge_eth1 r) a n w = (Inr (bridge_log r), w)"
  "message_of (lg_Data (bridge_log r)) = Inr (encode_message bridge_message)"
  by (simp_all add: FindSentMessageLog_def bind_io_def map_res_def bridge_log_def message_of_abi_bytes)

lemma bridge_find:
  "find_message (bridge_env r) bridge_flags (bridge_client f) (bridge_eth1 r) (bridge_eth1 r) w
     = (Inr (bridge_log r, encode_message bridge_message, 5, 0), w)"
  "storage_find_message (bridge_env r) bridge_flags (bridge_client f) (bridge_eth1 r) (bridge_eth1 r) w
     = (Inr (encode_message bridge_message, 5, 9, 0), w)"
proof -
  have number: "payload_number (number_block 0 9) = Inr 9" "lg_BlockNumber (bridge_log r) = 5"
    by (simp_all add: payload_number_def number_block_def bridge_log_def)
  show "find_message (bridge_env r) bridge_flags (bridge_client f) (bridge_eth1 r) (bridge_eth1 r) w
     = (Inr (bridge_log r, encode_message bridge_message, 5, 0), w)"
    "storage_find_message (bridge_env r) bridge_flags (bridge_client f) (bridge_eth1 r) (bridge_eth1 r) w
     = (Inr (encode_message bridge_message, 5, 9, 0), w)"
    by (simp_all add: find_message_def storage_find_message_def same_requests bind_io_def map_res_def bridge_log_found number
        bridge_synced bridge_search)
qed

text \<open>The states of slots 5 and 0, linked through the state roots.\<close>

lemma bridge_history:
  obtains f h st where "GetBeaconState doc_lib (bridge_client f) 5 = Inr (sample_state h, st)"
    and "history_ok doc_lib (bridge_client f) 5 0 (tree_root st) (Hash (replicate 32 3))"
proof -
  obtain tt where "GetBeaconState doc_lib (sample_client (\<lambda>_. zero_hash)) 0 = Inr (sample_state zero_hash, tt)"
    using sample_GetBeaconState by blast
  define f where "f = (\<lambda>slot :: u64. if slot = 0 then zero_hash else tree_root tt)"
  have tt: "GetBeaconState doc_lib (sample_client f) 0 = Inr (sample_state zero_hash, tt)"
    using \<open>GetBeaconState doc_lib (sample_client (\<lambda>_. zero_hash)) 0 = Inr (sample_state zero_hash, tt)\<close>
    by (simp add: GetBeaconState_def state_fields_def sample_client_def f_def)
  obtain st where st: "GetBeaconState doc_lib (sample_client f) 5 = Inr (sample_state (tree_root tt), st)"
    using sample_GetBeaconState [of f 5] by (auto simp: f_def)
  have hold: "state_roots_hold (sample_state (tree_root tt)) 0 (tree_root tt)"
    by (simp add: state_roots_hold_def sample_state_def list_all_iff)
  have "BytesToHash doc_lib (replicate 32 3) = Hash (replicate 32 3)"
    by (simp add: Bytes_eq_iff [symmetric] BytesToHash_32 [OF doc_lib_doc(1)])
  moreover have "ep_ReceiptsRoot (st_LatestExecutionPayloadHeader (sample_state zero_hash)) = replicate 32 3"
    by (simp add: sample_state_def sample_header_def Let_def)
  ultimately have "history_ok doc_lib (bridge_client f) 5 0 (tree_root st) (Hash (replicate 32 3))"
    unfolding history_ok_def using st tt hold sample_sizes state_root [OF st] by auto
  then show ?thesis using that [of f] st by simp
qed

lemma history_branch:
  assumes "history_ok doc_lib c s t stateRoot receiptsRoot" and "Spec c = sample_spec" and "t \<le> s"
  shows "\<exists>branch. MakeExecutionPayloadReceiptsRootProof doc_lib c s t = Inr branch"
proof -
  from assms(1) obtain ss st ts tt where h: "GetBeaconState doc_lib c s = Inr (ss, st)" "GetBeaconState doc_lib c t = Inr (ts, tt)"
    "payload_sizes (st_LatestExecutionPayloadHeader ts)" "unat s < 2 ^ 63"
    "t \<noteq> s \<and> unat s < unat t + 8192 \<Longrightarrow> state_roots_hold ss (unat t) (tree_root tt)"
    "unat t + 8192 \<le> unat s \<Longrightarrow> \<exists>hs ht. GetBeaconState doc_lib c (t div 8192 * 8192 + 8192) = Inr (hs, ht)
           \<and> state_roots_hold hs (unat t) (tree_root tt) \<and> batch_holds ss hs (unat t)"
    unfolding history_ok_def by blast
  have "SlotsPerHistoricalRoot (Spec c) = 8192" "HistoricalRootsLimit (Spec c) = 16777216"
    by (simp_all add: assms(2) sample_spec_def)
  from receipts_branch [OF doc_lib_doc this h(1-3) _ h(4-6)] assms(3) show ?thesis by (auto simp: word_le_nat_alt)
qed

subsection \<open>The theorems at this chain\<close>

lemma GetSyncedSlot_head_slot_witness:
  "GetSyncedSlot unit_abi (sample_eth1 True 1) [] 0 = (Inr 5, 0) \<and> head_slot (unit_env 1) (sample_eth1 True 1) [] 0 = (Inr 5, 0)"
proof -
  have "CallContract (sample_eth1 True 1) m 0 = (Inr (be_bytes 32 5), 0)" for m
  proof -
    have "be_bytes 32 5 = replicate 31 0 @ [5]" by code_simp
    then show ?thesis by (simp only: sample_eth1_def eth1.simps)
  qed
  note call = this
  have "Pack (BeaconLightClientABI (unit_env 1)) ''head'' [] = Inr [1, 2, 3, 4]" by simp
  from GetSyncedSlot_head_slot [OF this call, THEN conjunct1, rule_format, of 5] show ?thesis by simp
qed

subsection \<open>The tries of the sample chain\<close>

lemma bridge_value_small: "rlp_size (receipt_rlp [[1], [5], []] [bridge_log r]) < 2 ^ 32"
  by (simp add: receipt_rlp_def log_rlp_def bridge_log_def abi_bytes_def)

lemma bridge_wf: "receipt_wf [2] [[1], [5], []] [bridge_log r]" and length_bridge_value: "length (bridge_value r) < 2 ^ 32"
proof -
  have "rlp_ok (receipt_rlp [[1], [5], []] [bridge_log r])"
    "length (rlp_bytes (receipt_rlp [[1], [5], []] [bridge_log r])) \<le> rlp_size (receipt_rlp [[1], [5], []] [bridge_log r])"
    using rlp_size_ok [of "receipt_rlp [[1], [5], []] [bridge_log r]"] bridge_value_small [of r] by simp_all
  moreover have "Suc (rlp_size (receipt_rlp [[1], [5], []] [bridge_log r])) < 2 ^ 32"
    by (simp add: receipt_rlp_def log_rlp_def bridge_log_def abi_bytes_def)
  ultimately show "receipt_wf [2] [[1], [5], []] [bridge_log r]" "length (bridge_value r) < 2 ^ 32"
    by (simp_all add: receipt_wf_def bridge_log_def bridge_value_def receipt_encoding_def)
qed

lemma bridge_receipts_ok: "trie_ok K (bridge_receipts (bridge_value r))"
  unfolding bridge_receipts_def by (rule single_trie_ok) (use length_bridge_value in \<open>auto dest: key_nibbles_less\<close>)

lemma rlp_uint_0: "rlp_uint 0 = [0x80]"
  by (simp add: rlp_uint_def byte_length.simps)

lemma bridge_key: "agrees (mpt_nibble (rlpIndex 0)) 0 (key_nibbles [0x80])"
proof (rule agrees_key)
  have "AppendUint64_doc (\<lambda>bs v. bs @ rlp_uint v)" by (simp add: AppendUint64_doc_def)
  from rlpIndex_starts [OF this, of 0] show "take (length [0x80]) (be_bytes 32 (unat (rlpIndex 0))) = [0x80]" by (simp add: rlp_uint_0)
qed

lemma bridge_log_proved:
  "log_proved (const_chain r f) 0 0 (trie_proof (\<lambda>_. r) (bridge_receipts (bridge_value r)) (key_nibbles [0x80]))
     (be_nat (replicate 20 7)) r"
proof -
  have "readProof sample_alloc (\<lambda>_. r) (rlpIndex 0) (trie_proof (\<lambda>_. r) (bridge_receipts (bridge_value r)) (key_nibbles [0x80]))
      = Some (bridge_value r)"
    by (rule readProof_served [OF sample_alloc_ok bridge_receipts_ok _ bridge_key]) (simp add: bridge_receipts_def)
  moreover have "receipt_has_log (const_chain r f) (bridge_value r) 0 (be_nat (replicate 20 7)) r"
    unfolding bridge_value_def using receipt_has_log_encoding [of "const_chain r f", OF _ bridge_wf] sample_alloc_ok
    by (simp add: bridge_log_def SENT_MESSAGE_EVENT_def)
  ultimately show ?thesis by (simp add: log_proved_def)
qed

lemma no_collision_self: "\<not> (\<exists>c \<in> set (zip xs xs). sha_collision c)"
  by (auto simp: sha_collision_def in_set_zip)

lemma sample_hash_nonzero: "sample_hash \<noteq> zero_hash"
  by (simp add: sample_hash_def Bytes_eq_iff [symmetric])

subsection \<open>The theorems at this chain\<close>

theorem log_authentic_witness:
  "\<exists>ns ty fs logs. lookup (bridge_receipts (bridge_value sample_hash)) ns = Some (receipt_encoding ty fs logs) \<and> 0 < length logs
     \<and> sent_log (const_chain sample_hash (\<lambda>_. zero_hash)) (be_nat (replicate 20 7)) sample_hash (logs ! 0)"
proof -
  let ?t = "bridge_receipts (bridge_value sample_hash)"
  let ?enc = "rlp_bytes (node_rlp (\<lambda>_. sample_hash) ?t)"
  have nodes: "trie_proof (\<lambda>_. sample_hash) ?t (key_nibbles [0x80]) = [?enc]" by (simp add: bridge_receipts_def)
  have index: "executeMessageFromLog_index 5 5 = Some 899" by (simp add: executeMessageFromLog_index_def checked_u256_def)
  define branch where "branch = replicate 9 zero_hash"
  have "drop_bit (length branch) (899 :: u256) = 1" by (simp add: branch_def)
  then obtain root where root: "restoreMerkleRoot sample_hash 899 branch = Some root" by (auto simp: restoreMerkleRoot_def)
  let ?C = "const_chain sample_hash (\<lambda>_. root)"
  have ok: "receipts_ok ?t" unfolding receipts_ok_def bridge_receipts_def bridge_value_def using bridge_wf by auto
  have proved: "log_proved ?C 0 0 [?enc] (be_nat (replicate 20 7)) (keccak256 ?C [])"
    using bridge_log_proved [of sample_hash "\<lambda>_. root", unfolded nodes] by simp
  have "\<not> forged (keccak256 ?C) [?enc] ?t" using sample_hash_nonzero by (simp add: forged_def bridge_receipts_def)
  then show ?thesis
    using log_authentic [of ?C 5 5 899 "[?enc]" branch 0 0 "be_nat (replicate 20 7)" "[]" ?t branch]
      sample_alloc_ok index root proved bridge_receipts_ok ok no_collision_self
    by (simp add: sent_log_def SENT_MESSAGE_EVENT_def)
qed

lemma hash_key_less: "\<forall>n \<in> set (hash_key h). n < 16" and length_hash_key [simp]: "length (hash_key h) = 64"
  by (auto simp: hash_key_def dest: key_nibbles_less)

lemma byte_length_hash: "byte_length (be_nat (Bytes h)) \<le> 32"
  using be_nat_less [of "Bytes h"] by (intro byte_length_le) simp

lemma rlp_small: "length (rlp_bytes x) < 2 ^ 32" and rlp_small_ok: "rlp_ok x" if "rlp_size x < 2 ^ 32"
proof -
  have "rlp_size x < 2 ^ 64" using that by simp
  note ok = rlp_size_ok [OF this]
  show "rlp_ok x" using ok by blast
  show "length (rlp_bytes x) < 2 ^ 32" by (rule le_less_trans [OF conjunct2 [OF ok] that])
qed

lemma bridge_storage_ok: "trie_ok K (bridge_storage r)"
proof -
  have "rlp_size (word_rlp r) < 2 ^ 32" using byte_length_hash [of r] by (simp add: word_rlp_def Let_def)
  then have "length (rlp_bytes (word_rlp r)) < 2 ^ 32" by (rule rlp_small)
  then show ?thesis unfolding bridge_storage_def by (intro single_trie_ok hash_key_less) simp_all
qed

lemma bridge_account: "rlp_ok (account_rlp [1] [] r [0])" "trie_ok K (bridge_accounts r)"
proof -
  have size: "rlp_size (account_rlp [1] [] r [0]) < 2 ^ 32" by (simp add: account_rlp_def)
  then show "rlp_ok (account_rlp [1] [] r [0])" by (rule rlp_small_ok)
  have "length (rlp_bytes (account_rlp [1] [] r [0])) < 2 ^ 32" by (rule rlp_small [OF size])
  then show "trie_ok K (bridge_accounts r)" unfolding bridge_accounts_def by (intro single_trie_ok hash_key_less) simp_all
qed

lemma bridge_account_ok: "account_ok (\<lambda>_. r) (bridge_accounts r) r (bridge_storage r)"
  unfolding account_ok_def Let_def bridge_accounts_def using bridge_account(1) [of r] by auto

lemma bridge_words_ok: "words_ok (bridge_storage r)"
  by (auto simp: words_ok_def bridge_storage_def split: if_splits)

lemma bridge_message_ok: "message_ok bridge_message"
  by (simp add: message_ok_def bridge_message_def)

text \<open>The target with a storage root that it verified before: the message can be executed with a storage proof alone.\<close>

definition cached_amb :: "hash \<Rightarrow> amb" where
  "cached_amb r = (target_amb r)\<lparr>storageRoot := \<lambda>_. r\<rparr>"

lemma cached_amb_simps [simp]:
  "executionStatus (cached_amb r) h = NOT_EXECUTED" "messageId (cached_amb r) = EMPTY_MESSAGE_ID" "storageRoot (cached_amb r) = (\<lambda>_. r)"
  "otherSideImage (cached_amb r) = r" "amb_nonce (cached_amb r) = 0" "maxGasPerTx (cached_amb r) = 1000"
  by (simp_all add: cached_amb_def target_amb_def amb_initialize_def amb_fresh_def)

lemma cached_check:
  assumes "r \<noteq> zero_hash"
  shows "check_storage (const_chain r f) slot (encode_message bridge_message) [] [] (trie_proof (\<lambda>_. r) (bridge_storage r) (hash_key r))
    (cached_amb r) = Some (cached_amb r, [], r, bridge_message)"
proof -
  have "storage_has_message (const_chain r f) r 3 (trie_proof (\<lambda>_. r) (bridge_storage r) (hash_key r)) r"
    using storage_has_message_served [of "const_chain r f" "bridge_storage r" 3 r] sample_alloc_ok bridge_storage_ok
    by (simp add: message_key_def bridge_storage_def)
  then show ?thesis
    using assms decode_encode_message [OF bridge_message_ok]
    by (simp add: check_storage_def Let_def require_def bridge_message_def)
qed



subsection \<open>From one chain to the other\<close>

lemma bridge_receipt_proof:
  "receipt_proof (bridge_env r) (bridge_eth1 r) (bridge_log r) w
     = (Inr (0, trie_proof (\<lambda>_. r) (bridge_receipts (bridge_value r)) (key_nibbles [0x80])), w)"
  by (simp add: receipt_proof_def bind_io_def map_res_def bridge_receipt_def put_all_Inr int64_def bridge_log_def comp_def rlp_uint_0)

lemma bridge_served: "log_served (bridge_env r) (bridge_eth1 r) (bridge_log r) w w 0 (bridge_receipts (bridge_value r))"
proof -
  have tx: "lg_TxIndex (bridge_log r) = 0" by (simp add: bridge_log_def)
  have logs: "rc_Logs (bridge_receipt r) = [bridge_log r]" by (simp add: bridge_receipt_def)
  have "receipts_trie (bridge_env r) 0 [bridge_value r] (am_NewTrie (bridge_env r)) = [([0x80], bridge_value r)]"
    by (simp add: rlp_uint_0)
  then show ?thesis
    unfolding log_served_def Let_def tx
    by (intro exI [of _ "[zero_hash]"] exI [of _ w] exI [of _ "[bridge_receipt r]"] exI [of _ "[bridge_value r]"]
        exI [of _ "[2]"] exI [of _ "[[1], [5], []]"])
      (use bridge_wf [of r] in \<open>simp add: logs rlp_uint_0 bridge_value_def [symmetric] bridge_receipts_def comp_def\<close>)
qed

lemma bridge_sent:
  "requireToPassMessage (const_chain r f) 5 6 [1, 2, 3] 100 source_amb
     = Some (source_amb\<lparr>sentMessages := (sentMessages source_amb)(3 := r), amb_nonce := 4\<rparr>, SentMessage r 3 (encode_message bridge_message))"
  by (simp add: requireToPassMessage_Some source_amb_def amb_initialize_def amb_fresh_def bridge_message_def)

lemma bridge_event: "event_log (const_chain r f) (be_nat (replicate 20 7)) (SentMessage r 3 (encode_message bridge_message)) (bridge_log r)"
  by (simp add: event_log_def bridge_log_def SENT_MESSAGE_EVENT_def)

lemma bridge_docs: "BytesToHash_doc (am_Lib (bridge_env r))" "PadTo_doc (am_Lib (bridge_env r))" "ssz_doc (am_Lib (bridge_env r))"
  "AppendUint64_doc (am_AppendUint64 (bridge_env r))" "BigToHash_doc (am_BigToHash (bridge_env r))"
  using doc_lib_doc by (simp_all add: AppendUint64_doc_def BigToHash_doc_def)

lemma amb_simps [simp]:
  "amb_nonce source_amb = 3" "maxGasPerTx source_amb = 1000" "messageId (target_amb r) = EMPTY_MESSAGE_ID"
  "otherSideAMB (target_amb r) = be_nat (replicate 20 7)" "executionStatus (target_amb r) h = NOT_EXECUTED"
  "storageRoot (target_amb r) = (\<lambda>_. zero_hash)" "otherSideImage (target_amb r) = r"
  by (simp_all add: source_amb_def target_amb_def amb_initialize_def amb_fresh_def)


lemma bridge_proof_served: "proof_served (bridge_env r) bridge_flags (hash_key r) (\<lambda>_. bridge_accounts r) (\<lambda>_. bridge_storage r)"
  unfolding proof_served_def Let_def by (auto simp: comp_def index_def message_key_def)

theorem execute_storage_delivered_witness:
  "\<exists>f data root branch accountProof storageProof r. r = Hash (replicate 32 2)
    \<and> execute_storage_data (bridge_env r) bridge_flags (bridge_client f) (bridge_eth1 r) (bridge_eth1 r) 0 = (Inr data, 0)
    \<and> accountProof \<noteq> []
    \<and> (root \<noteq> zero_hash \<longrightarrow> (\<exists>s evs. check_storage (const_chain r (\<lambda>_. root)) 5 (encode_message bridge_message) branch accountProof
         storageProof (target_amb r) = Some (s, evs, r, bridge_message)))"
proof -
  let ?r = "Hash (replicate 32 2)"
  obtain f h st where st: "GetBeaconState doc_lib (bridge_client f) 5 = Inr (sample_state h, st)"
    using bridge_history by metis
  obtain br where br: "MakeExecutionPayloadStateRootProof doc_lib (bridge_client f) 5 = Inr br"
    using state_root_branch [OF doc_lib_doc st sample_sizes] by blast
  let ?account = "trie_proof (\<lambda>_. ?r) (bridge_accounts ?r) (hash_key ?r)" and ?sp = "trie_proof (\<lambda>_. ?r) (bridge_storage ?r) (hash_key ?r)"
  have proofs: "storage_proofs (bridge_env ?r) bridge_flags (bridge_client f) (bridge_eth1 ?r) 5 9 0 w
      = (Inr (5, br, ?account, ?sp), w)" for w
    by (simp add: storage_proofs_def FindVerifiedStorageRootLog_def Let_def bind_io_def map_res_def br index_def int64_def
        transformProof_def comp_def)
  obtain data where run: "execute_storage_data (bridge_env ?r) bridge_flags (bridge_client f) (bridge_eth1 ?r) (bridge_eth1 ?r) 0
      = (Inr data, 0)"
    by (simp add: execute_storage_data_def bind_io_def bridge_find proofs)
  let ?C = "const_chain ?r (\<lambda>_. tree_root st)" and ?e = "SentMessage ?r 3 (encode_message bridge_message)"
  have root: "BytesToHash doc_lib (ep_StateRoot (st_LatestExecutionPayloadHeader (sample_state h))) = ?r"
    by (simp add: Bytes_eq_iff [symmetric] BytesToHash_32 [OF doc_lib_doc(1)] sample_state_def sample_header_def Let_def)
  have event: "\<forall>w l w'. storage_FindSentMessageLog (am_BigToHash (bridge_env ?r)) (am_AMBABI (bridge_env ?r)) (bridge_eth1 ?r)
          (am_HexToAddress (bridge_env ?r) (sourceAMB bridge_flags)) (flags.msgNonce bridge_flags) w = (Inr l, w')
      \<longrightarrow> event_log ?C (be_nat (replicate 20 7)) ?e l"
    using bridge_event [of ?r "\<lambda>_. tree_root st"] by (auto simp: same_requests bridge_log_found)
  have nonce: "flags.msgNonce bridge_flags = int (amb_nonce source_amb)" "flags.msgNonce bridge_flags < 2 ^ 63" by simp_all
  have sizes: "(5 :: nat) < 2 ^ 160" "(6 :: nat) < 2 ^ 160" "length [1, 2, 3 :: byte] < 2 ^ 61" "maxGasPerTx source_amb < 2 ^ 256"
    by simp_all
  have target: "keccak256 ?C = am_Keccak (bridge_env ?r)" "alloc_ok (object ?C)"
    "proof_served (bridge_env ?r) bridge_flags (hash_key (otherSideImage (target_amb ?r))) (\<lambda>_. bridge_accounts ?r) (\<lambda>_. bridge_storage ?r)"
    "messageId (target_amb ?r) = EMPTY_MESSAGE_ID"
    using sample_alloc_ok bridge_proof_served by simp_all
  have mroot: "MerkleTree_Hash st = Inr (tree_root st)" using state_root [OF st] by simp
  have nonempty: "?account \<noteq> []" using trie_proof_root by blast
  have keys: "lookup (bridge_storage ?r) (message_key (\<lambda>_. ?r) 3) = Some (rlp_bytes (word_rlp ?r))"
    by (simp add: message_key_def bridge_storage_def)
  have "\<exists>s evs. check_storage ?C 5 (encode_message bridge_message) br ?account ?sp (target_amb ?r) = Some (s, evs, ?r, bridge_message)"
    if nz: "tree_root st \<noteq> zero_hash"
    using execute_storage_delivered [where C = ?C and sb = "target_amb ?r" and accounts = "\<lambda>_. bridge_accounts ?r"
        and storage = "\<lambda>_. bridge_storage ?r",
        OF bridge_sent sizes event nonce bridge_find(2) run bridge_docs(1-3,5) target]
  proof (elim exE conjE)
    fix message proofSlot branch accountProof storageProof b block
    assume e: "?e = SentMessage (keccak256 ?C message) (amb_nonce source_amb) message"
      and p: "storage_proofs (bridge_env ?r) bridge_flags (bridge_client f) (bridge_eth1 ?r) 5 9 0 0
          = (Inr (proofSlot, branch, accountProof, storageProof), 0)"
      and ok: "let K = keccak256 ?C; accountTrie = bridge_accounts ?r; storageTrie = bridge_storage ?r;
           accountsRoot = K (rlp_bytes (node_rlp K accountTrie)); root = K (rlp_bytes (node_rlp K storageTrie)); at = of_int proofSlot in
       executionStatus (target_amb ?r) (K message) = NOT_EXECUTED \<and> trie_ok K accountTrie \<and> trie_ok K storageTrie
       \<and> lookup storageTrie (message_key K (amb_nonce source_amb)) = Some (rlp_bytes (word_rlp (K message)))
       \<and> (storageRoot (target_amb ?r) at = root \<and> root \<noteq> zero_hash
          \<or> storageRoot (target_amb ?r) at = zero_hash \<and> proofSlot = int64 5 \<and> accountProof \<noteq> []
            \<and> account_ok K accountTrie (otherSideImage (target_amb ?r)) storageTrie
            \<and> (\<exists>st tr. GetBeaconState (am_Lib (bridge_env ?r)) (bridge_client f) 5 = Inr (st, tr) \<and> MerkleTree_Hash tr = Inr (state_root ?C at)
                \<and> payload_sizes (st_LatestExecutionPayloadHeader st) \<and> state_root ?C at \<noteq> zero_hash
                \<and> accountsRoot = BytesToHash (am_Lib (bridge_env ?r)) (ep_StateRoot (st_LatestExecutionPayloadHeader st))))
       \<longrightarrow> (\<exists>s1 evs. check_storage ?C at message branch accountProof storageProof (target_amb ?r) =
              Some (s1, evs, K message, \<lparr>msg_nonce = amb_nonce source_amb, msg_sender = 5, msg_receiver = 6,
                msg_gasLimit = 100, msg_data = [1, 2, 3]\<rparr>))"
    have eq: "proofSlot = 5" "branch = br" "accountProof = ?account" "storageProof = ?sp" "message = encode_message bridge_message"
      using p e by (simp_all add: proofs)
    show ?thesis
      using ok st mroot nz sample_sizes root nonempty bridge_account(2) bridge_storage_ok bridge_account_ok [of ?r] keys
      by (auto simp: eq Let_def int64_def bridge_message_def)
  qed
  then show ?thesis using run nonempty by blast
qed

theorem initialize_unguarded_witness:
  "\<exists>evs s'. amb_tx (\<lambda>_. sample_hash) (cached_amb sample_hash) evs s' \<and> executed evs = [sample_hash, sample_hash]"
  using initialize_unguarded [of "const_chain sample_hash (\<lambda>_. zero_hash)", THEN conjunct1, THEN mp, OF disjI2, OF conjI,
      OF _ cached_check [OF sample_hash_nonzero]] sample_hash_nonzero by simp

end
