(* ===== verification/Spec2Isabelle.thy ===== *)
theory Spec2Isabelle
  imports Sha256_Vectors Update_Samples Command_Samples Contract_Runs Amb_Samples
begin

section \<open>The trustless bridge oracle\<close>

text \<open>
  This development verifies the oracle of the trustless bridge demo (\<^verbatim>\<open>oracle/\<close>, Go) and
  the contracts that it submits its proofs and updates to (\<^verbatim>\<open>contracts/\<close>, Solidity): the light client and the message bridge.

  \<^bold>\<open>The program.\<close> The bridge carries messages between two chains without trusting whoever carries them. On each
  chain a light client contract follows the other chain's beacon headers: it accepts a header that two thirds
  of the sync committee signed. A message is sent by writing its hash to storage and emitting a log;
  it is executed on the other side against a Merkle proof that starts at a beacon state root the light client
  holds. The oracle makes all these proofs from what the nodes of the source chain answer, and submits them:
  \<^verbatim>\<open>cmd/light_client\<close> (the programs \<^verbatim>\<open>worker\<close>, \<^verbatim>\<open>prove\<close>, \<^verbatim>\<open>send_proof\<close>) feeds the light client contract,
  \<^verbatim>\<open>cmd/amb\<close> (\<^verbatim>\<open>execute_log\<close>, \<^verbatim>\<open>execute_storage\<close>) executes one message. Both call \<^verbatim>\<open>lightclient\<close>, which reads blocks and
  states through \<^verbatim>\<open>beaconclient\<close> and hashes them with \<^verbatim>\<open>crypto\<close>, and send transactions with \<^verbatim>\<open>sender\<close>. So the safety of
  the bridge is the contracts' business, and what the oracle owes is that an honest answer of the nodes
  becomes a proof that the contracts accept. The main theorems state this for the three kinds of
  transactions (end of \<open>Step_Proofs\<close>; \<open>Amb_Proofs\<close>, from the message sent on one chain to its execution on the other). The
  contracts' side has theorems of its own: what they accept is authentic, and what holds along their histories. Everything
  else leads up to these, or says where the code fails to deliver.
\<close>

subsection \<open>Reading guide\<close>

text \<open>
  A function of the source keeps its name; a method is \<open>Type_Method\<close>; the loop of a function has the suffix
  \<open>_loop\<close>. A struct is a record with the same fields (with a prefix where two structs share a field name).

  \<^item> \<^bold>\<open>Prelude.\<close> \<open>Prelude\<close>: the type \<open>'a go\<close> of a call that returns, returns an error, panics, ends the process,
    overflows the stack or does not return; error wrapping and \<open>errors_Is\<close>. \<open>Go_Values\<close>: bytes, hashes,
    64-bit words, the parts of \<^verbatim>\<open>encoding/binary\<close>, \<^verbatim>\<open>math/big\<close> and \<^verbatim>\<open>strconv\<close> the code uses. \<open>Externals\<close>: the consensus objects and
    the library functions outside the repository. \<open>Runs\<close>: runs of a component that goes on for ever.
  \<^item> \<^bold>\<open>oracle/crypto.\<close> \<open>Sha256\<close> and \<open>Sha256_Vectors\<close> (\<^verbatim>\<open>hash.go\<close>), \<open>Crypto_Utils\<close> (\<^verbatim>\<open>utils.go\<close>), \<open>Merkle_Spec\<close> (the
    reference: perfect trees, heaps of nodes, branches), \<open>Merkle_Tree\<close>, \<open>Merkle_Queue\<close> and \<open>Merkle_Multi\<close>
    (\<^verbatim>\<open>merkleization.go\<close>: trees, single proofs, the abstract queue of a multiproof, multiproofs), \<open>Ssz_Hash\<close> and
    \<open>Ssz_Spec\<close> (\<^verbatim>\<open>ssz.go\<close>, and the hash tree roots SSZ defines), \<open>Bls_Points\<close> (\<^verbatim>\<open>bls.go\<close>).
  \<^item> \<^bold>\<open>oracle/config, beaconclient, sender, contract.\<close> \<open>Config\<close> (\<^verbatim>\<open>config.go\<close>), \<open>Beacon_Client\<close> (\<^verbatim>\<open>client.go\<close>,
    \<^verbatim>\<open>model.go\<close>), \<open>Tx_Sender\<close> (\<^verbatim>\<open>sender.go\<close>), \<open>Contract_Format\<close> (\<^verbatim>\<open>abi.go\<close>, \<^verbatim>\<open>format.go\<close>).
  \<^item> \<^bold>\<open>oracle/lightclient.\<close> \<open>Light_Client\<close> (\<^verbatim>\<open>types.go\<close>; the trees and proofs of \<^verbatim>\<open>light_client.go\<close>), \<open>Block_Search\<close>
    (\<^verbatim>\<open>FindBeaconBlockByExecutionBlockNumber\<close>), \<open>Light_Update\<close> (\<^verbatim>\<open>MakeUpdate\<close>).
  \<^item> \<^bold>\<open>oracle/cmd.\<close> \<open>Light_Commands\<close> (the three \<^verbatim>\<open>main.go\<close> of \<^verbatim>\<open>light_client\<close>), \<open>Amb_Common\<close>, \<open>Execute_Log\<close>,
    \<open>Execute_Storage\<close> (the two of \<^verbatim>\<open>amb\<close>).
  \<^item> \<^bold>\<open>contracts.\<close> \<open>Merkle_Contract\<close> (\<^verbatim>\<open>restoreMerkleRoot\<close>, \<^verbatim>\<open>restoreMerkleMultiRoot\<close>), \<open>Bls_Contract\<close> (\<^verbatim>\<open>BLS12381.sol\<close>, and
    RFC 9380), \<open>Light_Contract\<close> (\<^verbatim>\<open>BeaconLightClient.sol\<close>: \<^verbatim>\<open>step\<close> and \<^verbatim>\<open>applyCandidate\<close>), \<open>Header_Root\<close> (its header root is SSZ's), \<open>Contract_Runs\<close> (its histories), \<open>Contract_Keys\<close> (the keys of
    an update as the contract decodes and hashes them). \<open>Rlp_Reader\<close> (\<^verbatim>\<open>RLPReader.sol\<close>, and what RLP is),
    \<open>Trie_Contract\<close> (\<^verbatim>\<open>MPT.sol\<close>, and what a Merkle Patricia trie is), \<open>Amb_Contract\<close> (\<^verbatim>\<open>TrustlessAMB.sol\<close>: state, sending, and the
    checks before a message is executed), \<open>Amb_Runs\<close> (the transactions, with the calls of the receiver, and their histories). The
    hard-coded indices are in \<open>Light_Proofs\<close>, the checks of the receipts root and of the state root with the programs that have to pass them,
    in \<open>Execute_Log\<close> and \<open>Execute_Storage\<close>.
  \<^item> \<^bold>\<open>Proofs and samples.\<close> \<open>Light_Proofs\<close>, \<open>Update_Bits\<close>, \<open>Update_Proofs\<close>, \<open>Step_Proofs\<close> and \<open>Amb_Proofs\<close> join the oracle's side to the
    contracts' side. \<open>Update_Samples\<close>, \<open>Command_Samples\<close> and \<open>Amb_Samples\<close> have a sample chain, sample libraries that
    meet their documentation, and with them the witnesses: the theorems applied where their hypotheses hold.
\<close>

subsection \<open>State and effects\<close>

text \<open>
  The data of a beacon node or a configuration file is immutable for one call and an argument. An execution node
  has a state \<open>'w\<close> that every request may change; a call has the type \<open>('w, 'a) io\<close>, from the state before to
  result and state after. What is written through a
  pointer is a result: the sender and the transaction of \<^verbatim>\<open>SendTx\<close>, the bits that \<^verbatim>\<open>MakeUpdate\<close> reverses in place. The worker is a relation between
  configurations (\<open>worker_step\<close>): the world may change between two iterations. The contract is a relation too
  (\<open>contract_step\<close>), one step per transaction that does not revert. Both are instances of \<open>progress\<close>. The bridge contract
  calls the receiver of a message in the middle of a transaction, and the receiver may call back: \<open>amb_tx\<close>, \<open>amb_call\<close> and
  \<open>amb_txs\<close> are defined together, a transaction with the events it emits. In these relations the light client and the gas may be any at
  every transaction: a call may fail whenever it wants, which undoes its effects and its events.

  \<^bold>\<open>Loops and bounds.\<close> No definition uses fuel. A loop that always ends is a \<open>fun\<close> or a \<open>function\<close> with a
  measure. The others are \<open>partial_function (option)\<close>, and \<open>None\<close> means that the call never returns:
  \<open>CeilPow2_loop\<close>, \<open>probe_loop\<close>, \<open>bisect_loop\<close>, \<open>head_loop\<close>, \<open>WaitReceipt_loop\<close>; for the contract's
  \<open>restore_multi_loop\<close> it means that the gas runs out. The trie walk ends with the list of nodes, the RLP
  reader's loops with the bytes. The theorems say when they return
  and when they do not: the block search needs a bound on adjacent missed slots, polling a receipt,
  \<^verbatim>\<open>CeilPow2\<close> an argument up to \<open>2 ^ 62\<close>. \<^verbatim>\<open>uint64\<close> values are 64-bit words and wrap; Go \<^verbatim>\<open>int\<close>s are integers, wrapped
  explicitly where they can leave the 64-bit range; the depth bound of the trees (62) is where \<^verbatim>\<open>CeilPow2\<close> ends.
\<close>

subsection \<open>Interfaces\<close>

text \<open>
  \<^item> \<open>hash_heap\<close> and \<open>marked_heap\<close> (\<open>Merkle_Spec\<close>, \<open>Merkle_Queue\<close>): a numbering of nodes in which a parent is the hash of its children,
    and a marking of the known ones. Single proofs and the queue of the multiproofs are proved against them;
    \<open>tree_heap\<close> and \<open>opened_heap\<close> are the oracle's trees.
  \<^item> \<open>openings\<close> (\<open>Light_Proofs\<close>): proofs at generalized indices compose. \<open>branch\<close> is the contract's verifier.
  \<^item> \<open>progress\<close> (\<open>Runs\<close>): an invariant, and a level that every labelled step raises. \<open>wk\<close> is the worker, \<open>chain\<close> the contract.
\<close>

subsection \<open>Code outside the repository\<close>

text \<open>
  It is a parameter: \<open>lib\<close> (go-ethereum's and prysm's helpers, the generated \<^verbatim>\<open>HashTreeRoot\<close>, go-bitfield), \<open>bls\<close> (prysm and
  blst), \<open>http\<close> and \<open>codecs\<close> (transport; JSON and SSZ decoding), \<open>eth1\<close> and \<open>wallet\<close> (\<^verbatim>\<open>ethclient\<close>, keystore and
  signer), \<open>abi\<close> (the ABI codec), the fields of \<open>env\<close> and \<open>amb_env\<close> (files, RLP, Keccak, tries, \<^verbatim>\<open>eth_getProof\<close>),
  \<open>precompiles\<close> (the precompiled contracts for the curve and for modular exponentiation), \<open>since\<close> (the clock), \<open>chain\<close> (keccak256, the state roots of
  the light client, and the memory that a \<^verbatim>\<open>bytes\<close> object lies in: \<open>alloc_ok\<close> says that it holds the bytes, what follows them
  there may be anything).

  What a theorem assumes of them is a named predicate on the parameter that states the documented behaviour:
  \<open>BytesToHash_doc\<close>, \<open>PadTo_doc\<close>, \<open>Bitvector_doc\<close>, \<open>BigToHash_doc\<close>, \<open>AppendUint64_doc\<close>, \<open>ssz_doc\<close> (a hash tree root is SSZ's),
  \<open>bls_doc\<close> and \<open>commutative_sum\<close> (serialisation and addition of keys), \<open>precompile_doc\<close> (the precompiles compute what EIP-198 and
  EIP-2537 say: the same sums, and a pairing check that passes for what prysm verifies), \<open>codec_errors\<close>, \<open>foreign_errors\<close> (a library's error is not the oracle's
  sentinel). \<open>honest_node\<close> says that a beacon node serves one chain: the block it returns for a root has a header with that root. \<open>log_served\<close> and
  \<open>proof_served\<close> say what an execution node and go-ethereum's tries give: the receipts of a block and the nodes on the path to a key,
  of a trie as \<open>trie\<close> defines it.
  SHA-256 is defined and nothing is assumed of it, and nothing of keccak256: where security needs collision resistance
  (soundness of proofs, multiproofs and trie walks), the theorem exhibits the collision.
\<close>

subsection \<open>What is proved\<close>

text \<open>
  \<^item> \<^bold>\<open>Merkle trees.\<close> \<open>Hash\<close> is the root of the padded perfect tree; proofs and multiproofs of every tree reconstruct it, a
    proof that does so opens the right leaves or is a collision, and the contract's two verifiers are the oracle's.
    Indices without a leaf panic; \<^verbatim>\<open>MakeMultiProof\<close> on a list leaves out the length.
  \<^item> \<^bold>\<open>Proofs of a state.\<close> The payload tree is SSZ's; the proofs of the execution state root, of the receipts root (current,
    recent and historical slots) and of the sync committee pass at the contract's hard-coded indices.
  \<^item> \<^bold>\<open>Updates.\<close> The walk back finds the last block with enough signatures; a returned update was checked; the contract accepts
    it and moves its head. The contract's header root is the hash tree root, its hash to the field that of RFC 9380. A client whose slot is not the contract's head makes updates that are all rejected, and
    the next period's committee is never proved.
  \<^item> \<^bold>\<open>Block search.\<close> It returns the first slot that has reached the block number, for every pattern of missed slots, or does not return.
  \<^item> \<^bold>\<open>Transactions.\<close> What is signed and sent, how the nonce moves, the gas limit and its overflow, polling.
  \<^item> \<^bold>\<open>Programs.\<close> \<^verbatim>\<open>prove\<close> writes a chain of updates or panics; the worker's slot and nonces rise, also when a transaction
    reverts; a message that the source's bridge contract has accepted for sending, and that the bridge programs find, passes every check of the target's
    with what they submit, and decodes to what was sent; the contract's key for a receipt is the oracle's only outside 1 to 127.
  \<^item> \<^bold>\<open>Bridge contract.\<close> The reader gets every part of an RLP encoding out, and reverts on parts that are not there. The trie walk accepts
    the proof of every key, and returns only values of the trie: the right one if the key is there, but possibly another key's
    if it is not (\<open>readProof_absent_key\<close>). What is executed was sent by the contract on the other side, in a state the light
    client holds. Along every history a message is executed at most once and nothing recorded is overwritten,
    receivers that call back included, unless they call \<^verbatim>\<open>initialize\<close>, which nothing guards.
\<close>

subsection \<open>Not modelled\<close>

text \<open>
  Curve arithmetic (blst, and the precompiled contracts of the chain), HTTP, JSON, YAML and SSZ codecs, and the generated \<^verbatim>\<open>HashTreeRoot\<close> are not code of the oracle. Logging and flag parsing are left out: a
  program starts from its parsed flags. Of the bridge contract, how much gas is left is not modelled, nor its two views that return a
  field; of \<^verbatim>\<open>RLPReader.sol\<close> the functions that nothing calls. The word arrays and memory copies of \<^verbatim>\<open>BLS12381.sol\<close> are
  modelled by what they hold. The sums of memory addresses and lengths do not wrap in the model: Solidity's
  checked arithmetic would revert. Nodes below 32 bytes, which a trie keeps inside their parent, are excluded by \<open>trie_ok\<close>:
  accounts, receipts and message hashes are longer, but a storage trie can have such a leaf of a short value. The proxies, the unused
  \<^verbatim>\<open>LightClientChain.sol\<close>, the omnibridge tokens, tests and demo files are not modelled.
\<close>

end
